(* ===== verification/Prelude.thy ===== *)
theory Prelude
  imports Main "HOL-Library.Word" "HOL-Library.List_Lexorder" "HOL-Library.State_Monad"
begin

text \<open>
  Names, automation and generic lemmas that every component of the development shares: byte and
  machine-word types, little-endian encodings (\<open>to_le_bytes\<close> and \<open>from_le_bytes\<close> of the Rust
  standard library), the \<open>?\<close> operator on results, and loops that fill an array by index.
\<close>

unbundle bit_operations_syntax

section \<open>Types and collections\<close>

type_synonym byte = "8 word"
type_synonym bytes = "8 word list"
type_synonym u32 = "32 word"
type_synonym u64 = "64 word"

text \<open>Facts about where a decoder stands, about encodings, and about values computed by circuits.\<close>

named_theorems codec_simps
named_theorems enc_len
named_theorems gadget

section \<open>Results\<close>

text \<open>\<open>Result<T, E>\<close> is \<open>'e + 'a\<close> with \<open>Inl\<close> for \<open>Err\<close>; \<open>rbind\<close> is the \<open>?\<close> operator,
  \<open>map_err\<close> and \<open>ok_or\<close> are the methods of those names.\<close>

definition rbind :: "'e + 'a \<Rightarrow> ('a \<Rightarrow> 'e + 'b) \<Rightarrow> 'e + 'b" where
  "rbind r f = (case r of Inl e \<Rightarrow> Inl e | Inr x \<Rightarrow> f x)"

definition map_err :: "('e \<Rightarrow> 'f) \<Rightarrow> 'e + 'a \<Rightarrow> 'f + 'a" where
  "map_err g r = (case r of Inl e \<Rightarrow> Inl (g e) | Inr x \<Rightarrow> Inr x)"

definition ok_or :: "'e \<Rightarrow> 'a option \<Rightarrow> 'e + 'a" where
  "ok_or e v = (case v of None \<Rightarrow> Inl e | Some x \<Rightarrow> Inr x)"

lemma rbind_simps [simp]:
  "rbind (Inl e) f = Inl e"
  "rbind (Inr x) f = f x"
  by (simp_all add: rbind_def)

lemma rbind_eq_Inr: "rbind r f = Inr y \<longleftrightarrow> (\<exists>x. r = Inr x \<and> f x = Inr y)"
  by (cases r) auto

lemma map_err_simps [simp]:
  "map_err g (Inl e) = Inl (g e)"
  "map_err g (Inr x) = Inr x"
  by (simp_all add: map_err_def)

lemma map_err_eq_Inr [simp]: "map_err g r = Inr y \<longleftrightarrow> r = Inr y"
  by (cases r) auto

lemma ok_or_simps [simp]:
  "ok_or e None = Inl e"
  "ok_or e (Some x) = Inr x"
  by (simp_all add: ok_or_def)

lemma ok_or_eq_Inr [simp]: "ok_or e v = Inr x \<longleftrightarrow> v = Some x"
  by (cases v) auto

section \<open>Byte strings\<close>

text \<open>A byte-string literal \<open>b"..."\<close>.\<close>

definition ascii :: "string \<Rightarrow> bytes" where
  "ascii s = map of_char s"

lemma length_ascii [simp]: "length (ascii s) = length s"
  by (simp add: ascii_def)

lemma inj_ascii: "ascii s = ascii t \<longleftrightarrow> s = t"
proof -
  have inj: "inj (of_char :: char \<Rightarrow> byte)"
  proof (rule injI)
    fix c d :: char
    assume "(of_char c :: byte) = of_char d"
    then have "(of_nat (of_char c) :: byte) = of_nat (of_char d)"
      by (simp add: of_nat_of_char)
    then have "unat (of_nat (of_char c) :: byte) = unat (of_nat (of_char d) :: byte)"
      by (rule arg_cong)
    then have "(of_char c :: nat) = of_char d"
      by (simp add: unat_of_nat)
    then show "c = d" using inj_of_char by (auto dest: injD)
  qed
  show ?thesis
    unfolding ascii_def using inj_map_eq_map[OF inj] by blast
qed

section \<open>Little-endian encodings\<close>

definition le_bytes :: "nat \<Rightarrow> 'a::len word \<Rightarrow> bytes" where
  "le_bytes n w = map (\<lambda>i. ucast (drop_bit (8 * i) w)) [0..<n]"

definition u32_to_le :: "u32 \<Rightarrow> bytes" where
  "u32_to_le w = le_bytes 4 w"

definition u64_to_le :: "u64 \<Rightarrow> bytes" where
  "u64_to_le w = le_bytes 8 w"

fun from_le :: "bytes \<Rightarrow> 'a::len word" where
  "from_le [] = 0"
| "from_le (b # bs) = ucast b OR push_bit 8 (from_le bs)"

lemma length_le_bytes [simp]: "length (le_bytes n w) = n"
  by (simp add: le_bytes_def)

lemma length_u32_to_le [simp, enc_len]: "length (u32_to_le w) = 4"
  by (simp add: u32_to_le_def)

lemma length_u64_to_le [simp, enc_len]: "length (u64_to_le w) = 8"
  by (simp add: u64_to_le_def)

lemma bit_from_le:
  "bit (from_le bs :: 'a::len word) k \<longleftrightarrow>
     k < LENGTH('a) \<and> k < 8 * length bs \<and> bit (bs ! (k div 8)) (k mod 8)"
proof (induction bs arbitrary: k)
  case Nil
  then show ?case by simp
next
  case (Cons b bs)
  show ?case
  proof (cases "k < 8")
    case True
    then show ?thesis
      by (auto simp: bit_simps)
  next
    case False
    then obtain m where m: "k = m + 8" by (metis le_add_diff_inverse2 not_less)
    show ?thesis
      using Cons.IH[of m] bit_imp_le_length[of b k]
      by (auto simp: m bit_simps div_add_self2)
  qed
qed

lemma nth_le_bytes: "i < n \<Longrightarrow> le_bytes n w ! i = ucast (drop_bit (8 * i) w)"
  by (simp add: le_bytes_def)

lemma from_le_le_bytes:
  assumes "LENGTH('a) \<le> 8 * n"
  shows "from_le (le_bytes n w) = (w :: 'a::len word)"
proof (rule bit_word_eqI)
  fix k
  assume "k < LENGTH('a)"
  with assms have "k div 8 < n" by (simp add: div_less_iff_less_mult mult.commute)
  then show "bit (from_le (le_bytes n w) :: 'a word) k \<longleftrightarrow> bit w k"
    using \<open>k < LENGTH('a)\<close> assms
    by (simp add: bit_from_le nth_le_bytes bit_simps)
qed

lemma le_bytes_from_le:
  assumes "length bs = n" and "8 * n \<le> LENGTH('a::len)"
  shows "le_bytes n (from_le bs :: 'a word) = bs"
proof (rule nth_equalityI)
  show "length (le_bytes n (from_le bs :: 'a word)) = length bs"
    using assms by simp
next
  fix i
  assume "i < length (le_bytes n (from_le bs :: 'a word))"
  then have i: "i < n" by simp
  show "le_bytes n (from_le bs :: 'a word) ! i = bs ! i"
  proof (rule bit_word_eqI)
    fix k
    assume k: "k < LENGTH(8)"
    have "8 * i + k < 8 * n" using i k by simp
    moreover have "(8 * i + k) div 8 = i" and "(8 * i + k) mod 8 = k"
      using k by simp_all
    ultimately show "bit (le_bytes n (from_le bs :: 'a word) ! i) k \<longleftrightarrow> bit (bs ! i) k"
      using i k assms by (simp add: nth_le_bytes bit_simps bit_from_le)
  qed
qed

lemma u32_from_to_le [simp]: "from_le (u32_to_le w) = w"
  by (simp add: u32_to_le_def from_le_le_bytes)

lemma u32_to_from_le: "length bs = 4 \<Longrightarrow> u32_to_le (from_le bs) = bs"
  by (simp add: u32_to_le_def le_bytes_from_le)

lemma u32_to_le_inject [simp]: "u32_to_le v = u32_to_le w \<longleftrightarrow> v = w"
  by (metis u32_from_to_le)

lemma u64_from_to_le [simp]: "from_le (u64_to_le w) = w"
  by (simp add: u64_to_le_def from_le_le_bytes)

lemma u64_to_le_inject [simp]: "u64_to_le v = u64_to_le w \<longleftrightarrow> v = w"
  by (metis u64_from_to_le)

text \<open>\<open>len as u64\<close> for a length; two lengths below $2^{64}$ with the same encoding agree.\<close>

definition len_u64 :: "'a list \<Rightarrow> bytes" where
  "len_u64 xs = u64_to_le (of_nat (length xs))"

lemma length_len_u64 [simp, enc_len]: "length (len_u64 xs) = 8"
  by (simp add: len_u64_def)

lemma of_nat_word_inject:
  assumes "m < 2 ^ LENGTH('a)" and "n < 2 ^ LENGTH('a)"
  shows "(of_nat m :: 'a::len word) = of_nat n \<longleftrightarrow> m = n"
  using assms by (metis unat_of_nat mod_less)

lemma len_u64_inject:
  "length xs < 2 ^ 64 \<Longrightarrow> length ys < 2 ^ 64 \<Longrightarrow> len_u64 xs = len_u64 ys \<longleftrightarrow> length xs = length ys"
  by (simp add: len_u64_def of_nat_word_inject)

section \<open>Machine sizes\<close>

text \<open>\<open>usize\<close> is 64 bits wide; \<open>checked_add\<close> is \<open>None\<close> on overflow.\<close>

definition usize_max :: nat where
  "usize_max = 2 ^ 64 - 1"

definition checked_add :: "nat \<Rightarrow> nat \<Rightarrow> nat option" where
  "checked_add a b = (if a + b \<le> usize_max then Some (a + b) else None)"

section \<open>Loops that fill an array\<close>

text \<open>\<open>for i in is { acc[f(i)] = g(i) }\<close> over an array of fixed length.\<close>

definition scatter :: "('i \<Rightarrow> nat) \<Rightarrow> ('i \<Rightarrow> 'a) \<Rightarrow> 'i list \<Rightarrow> 'a list \<Rightarrow> 'a list" where
  "scatter f g is xs = fold (\<lambda>i acc. acc[f i := g i]) is xs"

lemma scatter_simps [simp]:
  "scatter f g [] xs = xs"
  "scatter f g (i # is) xs = scatter f g is (xs[f i := g i])"
  by (simp_all add: scatter_def)

lemma length_scatter [simp]: "length (scatter f g is xs) = length xs"
  by (induction "is" arbitrary: xs) simp_all

lemma scatter_other: "k \<notin> f ` set is \<Longrightarrow> scatter f g is xs ! k = xs ! k"
  by (induction "is" arbitrary: xs) simp_all

lemma scatter_nth:
  "distinct (map f is) \<Longrightarrow> i \<in> set is \<Longrightarrow> f i < length xs \<Longrightarrow> scatter f g is xs ! f i = g i"
proof (induction "is" arbitrary: xs)
  case Nil
  then show ?case by simp
next
  case (Cons j js)
  show ?case
  proof (cases "i = j")
    case True
    with Cons.prems show ?thesis by (simp add: scatter_other)
  next
    case False
    with Cons show ?thesis by simp
  qed
qed

lemma scatter_in_order:
  assumes "map f is = [0..<length xs]"
  shows "scatter f g is xs = map g is"
proof (rule nth_equalityI)
  have len: "length is = length xs" using arg_cong[OF assms, of length] by simp
  then show "length (scatter f g is xs) = length (map g is)" by simp
  fix k
  assume "k < length (scatter f g is xs)"
  then have k: "k < length xs" by simp
  have "f (is ! k) = k"
    using arg_cong[OF assms, of "\<lambda>l. l ! k"] k len by simp
  moreover have "scatter f g is xs ! f (is ! k) = g (is ! k)"
    using assms k len by (intro scatter_nth) (simp_all add: \<open>f (is ! k) = k\<close>)
  ultimately show "scatter f g is xs ! k = map g is ! k"
    using k len by simp
qed

text \<open>The loop \<open>for y in 0..h { for x in 0..w { ... } }\<close> visits the pairs \<open>(x, y)\<close> row by row.\<close>

definition rows :: "nat \<Rightarrow> nat \<Rightarrow> (nat \<times> nat) list" where
  "rows w h = concat (map (\<lambda>y. map (\<lambda>x. (x, y)) [0..<w]) [0..<h])"

lemma set_rows: "set (rows w h) = {(x, y). x < w \<and> y < h}"
  by (auto simp: rows_def)

lemma rows_Suc: "rows w (Suc h) = rows w h @ map (\<lambda>x. (x, h)) [0..<w]"
  by (simp add: rows_def)

lemma rows_index: "map (\<lambda>(x, y). x + w * y) (rows w h) = [0..<w * h]"
proof (induction h)
  case 0
  then show ?case by (simp add: rows_def)
next
  case (Suc h)
  have "map (\<lambda>x. x + w * h) [0..<w] = [w * h..<w * h + w]"
    using map_add_upt[of "w * h" w] by (simp add: add.commute)
  moreover have "[0..<w * Suc h] = [0..<w * h] @ [w * h..<w * h + w]"
    using upt_add_eq_append[of 0 "w * h" w] by (simp add: add.commute)
  ultimately show ?case
    using Suc by (simp add: rows_Suc o_def)
qed

text \<open>Every index below \<open>w * h\<close> is \<open>x + w * y\<close> for the pair of its remainder and quotient.\<close>

lemma split_index:
  assumes "i < w * (h :: nat)"
  shows "\<exists>x y. i = x + w * y \<and> x < w \<and> y < h"
proof (intro exI conjI)
  have "0 < w" using assms by (cases w) simp_all
  show "i = i mod w + w * (i div w)" by simp
  show "i mod w < w" using \<open>0 < w\<close> by simp
  show "i div w < h" using assms by (simp add: less_mult_imp_div_less mult.commute)
qed

end
