(* ===== verification/Wire.thy ===== *)
theory Wire
  imports Prelude
begin

text \<open>
  \<open>src/src/wire.rs\<close>: the canonical envelope and the bounds-checked decoder. The decoder's state is
  the record \<open>decoder\<close>; a decoder operation is a function from a decoder to
  \<open>wire_error + ('a \<times> decoder)\<close>, since every caller leaves with \<open>?\<close> on an error and drops the decoder.
  \<open>GF16\<close> comes from the crate \<open>binary-fields\<close>: its constructor \<open>GF16::new\<close> and its reader \<open>to_u8\<close>
  are the fields of the parameter record \<open>gf16_ops\<close>, and \<open>gf16_laws\<close> is what the code relies on.
\<close>

section \<open>Constants and errors\<close>

definition MAGIC :: bytes where
  "MAGIC = ascii ''VARC''"

definition WIRE_VERSION :: byte where
  "WIRE_VERSION = 1"

definition MAX_WIRE_BYTES :: nat where
  "MAX_WIRE_BYTES = 32 * 1024 * 1024"

datatype wire_error =
    InvalidEncoding
  | WrongArtifact
  | WrongParameterSet
  | WrongIssuer
  | TooLarge
  | InvalidCredential
  | UnsupportedVersion

fun wire_error_fmt :: "wire_error \<Rightarrow> string" where
  "wire_error_fmt InvalidEncoding = ''invalid canonical VOLE-ARC encoding''"
| "wire_error_fmt WrongArtifact = ''wrong VOLE-ARC artifact type''"
| "wire_error_fmt WrongParameterSet = ''wrong MAYO parameter set''"
| "wire_error_fmt WrongIssuer = ''wrong VOLE-ARC issuer''"
| "wire_error_fmt TooLarge = ''VOLE-ARC artifact exceeds the configured limit''"
| "wire_error_fmt InvalidCredential = ''decoded credential is not authentic''"
| "wire_error_fmt UnsupportedVersion = ''unsupported VOLE-ARC wire-format version''"

section \<open>The field elements of the binary-fields crate\<close>

record 'g gf16_ops =
  gf16_new :: "byte \<Rightarrow> 'g"
  gf16_to_u8 :: "'g \<Rightarrow> byte"

definition gf16_laws :: "('g, 'z) gf16_ops_scheme \<Rightarrow> bool" where
  "gf16_laws G \<longleftrightarrow>
     (\<forall>b < 16. gf16_to_u8 G (gf16_new G b) = b) \<and>
     (\<forall>e. gf16_to_u8 G e < 16) \<and>
     (\<forall>e. gf16_new G (gf16_to_u8 G e) = e)"

lemma gf16_lawsD:
  assumes "gf16_laws G"
  shows "b < 16 \<Longrightarrow> gf16_to_u8 G (gf16_new G b) = b"
    and "gf16_to_u8 G e < 16"
    and "gf16_new G (gf16_to_u8 G e) = e"
  using assms by (simp_all add: gf16_laws_def)

section \<open>Encoding\<close>

definition header :: "bytes \<Rightarrow> byte \<Rightarrow> byte \<Rightarrow> bytes" where
  "header out artifact parameter_set =
     (let out = out @ MAGIC;
          out = out @ [WIRE_VERSION]
      in out @ [artifact, parameter_set, 0, 0])"

text \<open>\<open>put_bytes\<close> panics (\<open>None\<close>) when the component's length does not fit a \<open>u32\<close>.\<close>

definition put_bytes :: "bytes \<Rightarrow> bytes \<Rightarrow> bytes option" where
  "put_bytes out bs =
     (if length bs < 2 ^ 32
      then Some (out @ u32_to_le (of_nat (length bs)) @ bs)
      else None)"

text \<open>One turn of the loop of \<open>pack_nibbles\<close>; the \<open>expect\<close> on an empty output is \<open>None\<close>.\<close>

definition pack_step :: "('g, 'z) gf16_ops_scheme \<Rightarrow> bytes option \<Rightarrow> nat \<times> 'g \<Rightarrow> bytes option" where
  "pack_step G out iv = (case (out, iv) of
     (None, _) \<Rightarrow> None
   | (Some output, index, value) \<Rightarrow>
       if even index then Some (output @ [gf16_to_u8 G value])
       else if output = [] then None
       else Some (butlast output @ [last output OR push_bit 4 (gf16_to_u8 G value)]))"

definition pack_nibbles :: "('g, 'z) gf16_ops_scheme \<Rightarrow> 'g list \<Rightarrow> bytes option" where
  "pack_nibbles G values = foldl (pack_step G) (Some []) (enumerate 0 values)"

section \<open>Decoding\<close>

record decoder =
  dec_input :: bytes
  dec_offset :: nat

definition dec_take :: "nat \<Rightarrow> decoder \<Rightarrow> wire_error + (bytes \<times> decoder)" where
  "dec_take len d =
     (case checked_add (dec_offset d) len of
        None \<Rightarrow> Inl InvalidEncoding
      | Some end \<Rightarrow>
          if end \<le> length (dec_input d)
          then Inr (take (end - dec_offset d) (drop (dec_offset d) (dec_input d)), d\<lparr>dec_offset := end\<rparr>)
          else Inl InvalidEncoding)"

definition dec_array :: "nat \<Rightarrow> decoder \<Rightarrow> wire_error + (bytes \<times> decoder)" where
  "dec_array n d = rbind (dec_take n d) (\<lambda>(bs, d).
     if length bs = n then Inr (bs, d) else Inl InvalidEncoding)"

definition dec_u8 :: "decoder \<Rightarrow> wire_error + (byte \<times> decoder)" where
  "dec_u8 d = rbind (dec_array 1 d) (\<lambda>(bs, d). Inr (bs ! 0, d))"

definition dec_u32 :: "decoder \<Rightarrow> wire_error + (u32 \<times> decoder)" where
  "dec_u32 d = rbind (dec_array 4 d) (\<lambda>(bs, d). Inr (from_le bs, d))"

definition dec_bytes :: "decoder \<Rightarrow> wire_error + (bytes \<times> decoder)" where
  "dec_bytes d = rbind (dec_u32 d) (\<lambda>(len, d). dec_take (unat len) d)"

definition dec_nibbles ::
  "('g, 'z) gf16_ops_scheme \<Rightarrow> nat \<Rightarrow> decoder \<Rightarrow> wire_error + ('g list \<times> decoder)" where
  "dec_nibbles G count d =
     rbind (ok_or InvalidEncoding (checked_add count 1)) (\<lambda>count1.
     rbind (dec_take (count1 div 2) d) (\<lambda>(bs, d).
       if count mod 2 = 1 \<and> bs \<noteq> [] \<and> last bs AND 0xf0 \<noteq> 0
       then Inl InvalidEncoding
       else Inr (map (\<lambda>index.
              let byte = bs ! (index div 2)
              in gf16_new G (if even index then byte AND 0x0f else drop_bit 4 byte)) [0..<count], d)))"

definition dec_finish :: "decoder \<Rightarrow> wire_error + unit" where
  "dec_finish d =
     (if dec_offset d = length (dec_input d) then Inr () else Inl InvalidEncoding)"

definition decoder_new :: "bytes \<Rightarrow> byte \<Rightarrow> byte \<Rightarrow> wire_error + decoder" where
  "decoder_new input artifact parameter_set =
     (if length input > MAX_WIRE_BYTES then Inl TooLarge
      else
        let d = \<lparr>dec_input = input, dec_offset = 0\<rparr>
        in rbind (dec_take (length MAGIC) d) (\<lambda>(magic, d).
           if magic \<noteq> MAGIC then Inl InvalidEncoding
           else rbind (dec_u8 d) (\<lambda>(version, d).
             if version \<noteq> WIRE_VERSION then Inl UnsupportedVersion
             else rbind (dec_array 4 d) (\<lambda>(actual, d).
               if actual ! 0 \<noteq> artifact then Inl WrongArtifact
               else if actual ! 1 \<noteq> parameter_set then Inl WrongParameterSet
               else if drop 2 actual \<noteq> [0, 0] then Inl InvalidEncoding
               else Inr d))))"

end
