(* ===== verification/Codec.thy ===== *)
theory Codec
  imports Wire
begin

text \<open>
  The contract of a decoder operation. \<open>dec_at pre r\<close> is a decoder that has consumed \<open>pre\<close> and has
  \<open>r\<close> left. The locale \<open>field_codec\<close> states the two laws that relate one operation to the encoding
  of the values it reads (every encoding is read back; nothing else is accepted), and is interpreted
  on each operation of \<open>wire.rs\<close>. The locale \<open>artifact_codec\<close> states the same for a whole artifact.
\<close>

section \<open>Nibbles\<close>

fun nibble_pairs :: "('g, 'z) gf16_ops_scheme \<Rightarrow> 'g list \<Rightarrow> bytes" where
  "nibble_pairs G [] = []"
| "nibble_pairs G [v] = [gf16_to_u8 G v]"
| "nibble_pairs G (v # w # vs) =
     (gf16_to_u8 G v OR push_bit 4 (gf16_to_u8 G w)) # nibble_pairs G vs"

lemma length_nibble_pairs [simp, enc_len]: "length (nibble_pairs G vs) = (length vs + 1) div 2"
  by (induction G vs rule: nibble_pairs.induct) auto

lemma pack_step_None: "foldl (pack_step G) None xs = None"
  by (induction xs) (simp_all add: pack_step_def)

lemma pack_nibbles_even:
  "even n \<Longrightarrow> foldl (pack_step G) (Some out) (enumerate n vs) = Some (out @ nibble_pairs G vs)"
proof (induction G vs arbitrary: n out rule: nibble_pairs.induct)
  case (1 G)
  then show ?case by simp
next
  case (2 G v)
  then show ?case by (simp add: pack_step_def)
next
  case (3 G v w vs)
  then show ?case by (simp add: pack_step_def)
qed

theorem pack_nibbles_eq: "pack_nibbles G vs = Some (nibble_pairs G vs)"
  by (simp add: pack_nibbles_def pack_nibbles_even)

lemma nth_nibble_pairs:
  "j < (length vs + 1) div 2 \<Longrightarrow> nibble_pairs G vs ! j =
     gf16_to_u8 G (vs ! (2 * j)) OR
     push_bit 4 (if 2 * j + 1 < length vs then gf16_to_u8 G (vs ! (2 * j + 1)) else 0)"
proof (induction G vs arbitrary: j rule: nibble_pairs.induct)
  case (1 G)
  then show ?case by simp
next
  case (2 G v)
  then show ?case by simp
next
  case (3 G v w vs)
  then show ?case by (cases j) auto
qed

text \<open>A byte is its low nibble and its high nibble.\<close>

lemma bit_0f: "bit (15 :: int) k \<longleftrightarrow> k < 4"
proof -
  have m: "(15 :: int) = mask 4" by (simp add: mask_eq_exp_minus_1)
  show ?thesis unfolding m by (auto simp: bit_mask_iff)
qed

lemma bit_f0: "bit (240 :: int) k \<longleftrightarrow> 4 \<le> k \<and> k < 8"
proof -
  have m: "(240 :: int) = push_bit 4 (mask 4)" by (simp add: mask_eq_exp_minus_1 push_bit_eq_mult)
  show ?thesis unfolding m by (auto simp: bit_mask_iff bit_push_bit_iff)
qed

lemma less_16_iff: "(b :: byte) < 16 \<longleftrightarrow> (\<forall>k. bit b k \<longrightarrow> k < 4)"
proof -
  have "b < 16 \<longleftrightarrow> take_bit 4 b = b"
    using word_unat_eq_iff[of "take_bit 4 b" b]
    by (simp add: unsigned_take_bit_eq word_less_nat_alt take_bit_nat_eq_self_iff)
  also have "\<dots> \<longleftrightarrow> (\<forall>k. bit b k \<longrightarrow> k < 4)"
    using bit_imp_le_length[of b] by (fastforce simp: bit_eq_iff bit_take_bit_iff)
  finally show ?thesis .
qed

lemma low_nibble_less [simp]: "(b AND 0x0f :: byte) < 16"
  by (simp add: less_16_iff bit_and_iff bit_0f)

lemma high_nibble_less [simp]: "(drop_bit 4 b :: byte) < 16"
  using bit_imp_le_length[of b] by (fastforce simp: less_16_iff bit_drop_bit_eq)

lemma nibbles_of_pair:
  assumes "(a :: byte) < 16" and "(b :: byte) < 16"
  shows "(a OR push_bit 4 b) AND 0x0f = a" and "drop_bit 4 (a OR push_bit 4 b) = b"
proof -
  note bits = bit_and_iff bit_or_iff bit_push_bit_iff bit_drop_bit_eq bit_0f
  show "(a OR push_bit 4 b) AND 0x0f = a"
    using assms by (intro bit_word_eqI) (auto simp: bits less_16_iff)
  show "drop_bit 4 (a OR push_bit 4 b) = b"
    using assms by (intro bit_word_eqI) (auto simp: bits less_16_iff)
qed

lemma pair_of_nibbles: "(b AND 0x0f) OR push_bit 4 (drop_bit 4 b) = (b :: byte)"
proof (rule bit_word_eqI)
  fix k
  assume "k < LENGTH(8)"
  then show "bit ((b AND 0x0f) OR push_bit 4 (drop_bit 4 b)) k \<longleftrightarrow> bit b k"
    by (cases "k < 4") (simp_all add: bit_and_iff bit_or_iff bit_push_bit_iff bit_drop_bit_eq bit_0f)
qed

lemma high_nibble_zero: "b AND 0xf0 = 0 \<longleftrightarrow> (b :: byte) < 16"
proof -
  have "b AND 0xf0 = 0 \<longleftrightarrow> (\<forall>k. bit b k \<longrightarrow> \<not> (4 \<le> k \<and> k < 8))"
    by (auto simp: bit_eq_iff bit_and_iff bit_f0)
  also have "\<dots> \<longleftrightarrow> b < 16"
    using bit_imp_le_length[of b] by (fastforce simp: less_16_iff)
  finally show ?thesis .
qed

lemma small_byte_no_high: "(b :: byte) < 16 \<Longrightarrow> drop_bit 4 b = 0"
  by (intro bit_word_eqI) (auto simp: less_16_iff bit_drop_bit_eq)

lemma drop_push_nibble: "(b :: byte) < 16 \<Longrightarrow> drop_bit 4 (push_bit 4 b) = b"
  by (intro bit_word_eqI) (auto simp: less_16_iff bit_drop_bit_eq bit_push_bit_iff)

section \<open>Decoder positions\<close>

definition fits :: "bytes \<Rightarrow> bool" where
  "fits bs \<longleftrightarrow> length bs \<le> MAX_WIRE_BYTES"

definition dec_at :: "bytes \<Rightarrow> bytes \<Rightarrow> decoder" where
  "dec_at pre r = \<lparr>dec_input = pre @ r, dec_offset = length pre\<rparr>"

lemma fits_usize: "fits bs \<Longrightarrow> n \<le> length bs \<Longrightarrow> n \<le> usize_max"
  by (simp add: fits_def MAX_WIRE_BYTES_def usize_max_def)

lemma dec_take_at:
  assumes "fits (pre @ r)"
  shows "dec_take n (dec_at pre r) =
     (if n \<le> length r then Inr (take n r, dec_at (pre @ take n r) (drop n r)) else Inl InvalidEncoding)"
proof (cases "n \<le> length r")
  case True
  with assms have "length pre + n \<le> usize_max"
    by (intro fits_usize) auto
  with True show ?thesis
    by (simp add: dec_take_def dec_at_def checked_add_def)
next
  case False
  then show ?thesis
    by (simp add: dec_take_def dec_at_def checked_add_def)
qed

lemma dec_finish_at [codec_simps]: "dec_finish (dec_at pre r) = (if r = [] then Inr () else Inl InvalidEncoding)"
  by (simp add: dec_finish_def dec_at_def)

section \<open>The contract of a field\<close>

locale field_codec =
  fixes parse :: "decoder \<Rightarrow> wire_error + ('a \<times> decoder)"
    and enc :: "'a \<Rightarrow> bytes"
    and ok :: "'a \<Rightarrow> bool"
  assumes parse_enc:
    "ok v \<Longrightarrow> fits (pre @ enc v @ r) \<Longrightarrow> parse (dec_at pre (enc v @ r)) = Inr (v, dec_at (pre @ enc v) r)"
  and parse_only:
    "fits (pre @ r) \<Longrightarrow> parse (dec_at pre r) = Inr (v, d) \<Longrightarrow>
       ok v \<and> (\<exists>r'. r = enc v @ r' \<and> d = dec_at (pre @ enc v) r')"
begin

lemma parse_last:
  "ok v \<Longrightarrow> fits (pre @ enc v) \<Longrightarrow> parse (dec_at pre (enc v)) = Inr (v, dec_at (pre @ enc v) [])"
  using parse_enc[of v pre "[]"] by simp

lemma parse_bind:
  assumes "fits (pre @ r)"
  shows "rbind (parse (dec_at pre r)) f = Inr y \<longleftrightarrow>
     (\<exists>v r'. ok v \<and> r = enc v @ r' \<and> f (v, dec_at (pre @ enc v) r') = Inr y)"
proof
  assume "rbind (parse (dec_at pre r)) f = Inr y"
  then obtain v d where "parse (dec_at pre r) = Inr (v, d)" and "f (v, d) = Inr y"
    by (auto simp: rbind_eq_Inr)
  with parse_only[OF assms] show "\<exists>v r'. ok v \<and> r = enc v @ r' \<and> f (v, dec_at (pre @ enc v) r') = Inr y"
    by blast
next
  assume "\<exists>v r'. ok v \<and> r = enc v @ r' \<and> f (v, dec_at (pre @ enc v) r') = Inr y"
  with assms show "rbind (parse (dec_at pre r)) f = Inr y"
    by (auto simp: parse_enc)
qed

lemma enc_prefix_free:
  assumes "ok v" and "ok w" and "enc v @ r = enc w @ s" and "fits (enc v @ r)"
  shows "v = w \<and> r = s"
proof -
  have v: "parse (dec_at [] (enc v @ r)) = Inr (v, dec_at (enc v) r)"
    using assms(1,4) parse_enc[of v "[]" r] by simp
  have w: "parse (dec_at [] (enc w @ s)) = Inr (w, dec_at (enc w) s)"
    using assms(2,3,4) parse_enc[of w "[]" s] by simp
  have "v = w" using v w assms(3) by simp
  then show ?thesis using assms(3) by simp
qed

end

interpretation array: field_codec "dec_array n" "\<lambda>bs. bs" "\<lambda>bs. length bs = n" for n
proof unfold_locales
  fix v pre r :: bytes
  assume "length v = n" and "fits (pre @ v @ r)"
  then show "dec_array n (dec_at pre (v @ r)) = Inr (v, dec_at (pre @ v) r)"
    by (auto simp: dec_array_def dec_take_at)
next
  fix pre r v d
  assume "fits (pre @ r)" and "dec_array n (dec_at pre r) = Inr (v, d)"
  then show "length v = n \<and> (\<exists>r'. r = v @ r' \<and> d = dec_at (pre @ v) r')"
    by (auto simp: dec_array_def dec_take_at split: if_splits intro: exI[of _ "drop n r"])
qed

lemma dec_array_at:
  "fits (pre @ r) \<Longrightarrow> dec_array n (dec_at pre r) =
     (if n \<le> length r then Inr (take n r, dec_at (pre @ take n r) (drop n r)) else Inl InvalidEncoding)"
  by (simp add: dec_array_def dec_take_at)

interpretation u8: field_codec dec_u8 "\<lambda>b. [b]" "\<lambda>b. True"
proof unfold_locales
  fix b pre r
  assume "fits (pre @ [b] @ r)"
  then show "dec_u8 (dec_at pre ([b] @ r)) = Inr (b, dec_at (pre @ [b]) r)"
    by (simp add: dec_u8_def dec_array_at)
next
  fix pre r b d
  assume "fits (pre @ r)" and "dec_u8 (dec_at pre r) = Inr (b, d)"
  then show "True \<and> (\<exists>r'. r = [b] @ r' \<and> d = dec_at (pre @ [b]) r')"
    by (cases r) (auto simp: dec_u8_def dec_array_at split: if_splits)
qed

interpretation u32: field_codec dec_u32 u32_to_le "\<lambda>w. True"
proof unfold_locales
  fix w pre r
  assume "fits (pre @ u32_to_le w @ r)"
  then show "dec_u32 (dec_at pre (u32_to_le w @ r)) = Inr (w, dec_at (pre @ u32_to_le w) r)"
    by (simp add: dec_u32_def dec_array_at)
next
  fix pre r w d
  assume "fits (pre @ r)" and "dec_u32 (dec_at pre r) = Inr (w, d)"
  then show "True \<and> (\<exists>r'. r = u32_to_le w @ r' \<and> d = dec_at (pre @ u32_to_le w) r')"
    by (auto simp: dec_u32_def dec_array_at u32_to_from_le split: if_splits intro: exI[of _ "drop 4 r"])
qed

text \<open>A length-prefixed component, as \<open>put_bytes\<close> writes it.\<close>

definition framed :: "bytes \<Rightarrow> bytes" where
  "framed bs = u32_to_le (of_nat (length bs)) @ bs"

lemma put_bytes_eq: "put_bytes out bs = (if length bs < 2 ^ 32 then Some (out @ framed bs) else None)"
  by (simp add: put_bytes_def framed_def)

interpretation framed: field_codec dec_bytes framed "\<lambda>bs. length bs < 2 ^ 32"
proof unfold_locales
  fix v pre r :: bytes
  assume v: "length v < 2 ^ 32" and "fits (pre @ framed v @ r)"
  moreover have "unat (of_nat (length v) :: u32) = length v"
    using v by (simp add: unat_of_nat)
  ultimately show "dec_bytes (dec_at pre (framed v @ r)) = Inr (v, dec_at (pre @ framed v) r)"
    by (simp add: dec_bytes_def framed_def u32.parse_enc dec_take_at)
next
  fix pre r v d
  assume fits: "fits (pre @ r)" and "dec_bytes (dec_at pre r) = Inr (v, d)"
  then obtain len r' where r: "r = u32_to_le len @ r'"
    and t: "dec_take (unat len) (dec_at (pre @ u32_to_le len) r') = Inr (v, d)"
    by (auto simp: dec_bytes_def u32.parse_bind)
  have "fits ((pre @ u32_to_le len) @ r')" using fits r by simp
  from t dec_take_at[OF this] have len: "unat len \<le> length r'" and v: "v = take (unat len) r'"
    and d: "d = dec_at ((pre @ u32_to_le len) @ v) (drop (unat len) r')"
    by (auto split: if_splits)
  have "of_nat (length v) = len" and "length v < 2 ^ 32"
    using len v unsigned_less[of len, where 'a=nat] by simp_all
  then show "length v < 2 ^ 32 \<and> (\<exists>r'. r = framed v @ r' \<and> d = dec_at (pre @ framed v) r')"
    using r v d by (intro conjI exI[of _ "drop (unat len) r'"]) (simp_all add: framed_def)
qed

section \<open>Packed nibbles\<close>

definition unpack :: "('g, 'z) gf16_ops_scheme \<Rightarrow> nat \<Rightarrow> bytes \<Rightarrow> 'g list" where
  "unpack G n bs = map (\<lambda>i.
     let byte = bs ! (i div 2)
     in gf16_new G (if even i then byte AND 0x0f else drop_bit 4 byte)) [0..<n]"

definition canonical_padding :: "nat \<Rightarrow> bytes \<Rightarrow> bool" where
  "canonical_padding n bs \<longleftrightarrow> (odd n \<longrightarrow> bs \<noteq> [] \<longrightarrow> last bs AND 0xf0 = 0)"

lemma unpack_pairs:
  assumes "gf16_laws G" and "length vs = n"
  shows "unpack G n (nibble_pairs G vs) = vs"
proof (rule nth_equalityI)
  show "length (unpack G n (nibble_pairs G vs)) = length vs"
    using assms(2) by (simp add: unpack_def)
  fix i
  assume "i < length (unpack G n (nibble_pairs G vs))"
  then have i: "i < length vs" using assms(2) by (simp add: unpack_def)
  then have j: "i div 2 < (length vs + 1) div 2" by linarith
  note laws = gf16_lawsD[OF assms(1)]
  show "unpack G n (nibble_pairs G vs) ! i = vs ! i"
  proof (cases "even i")
    case True
    with i j assms(2) show ?thesis
      by (simp add: unpack_def nth_nibble_pairs nibbles_of_pair small_byte_no_high laws)
  next
    case False
    then have "2 * (i div 2) + 1 = i" by presburger
    with False i j assms(2) show ?thesis
      by (simp add: unpack_def nth_nibble_pairs small_byte_no_high drop_push_nibble laws)
  qed
qed

lemma pairs_unpack:
  assumes "gf16_laws G" and "length bs = (n + 1) div 2" and "canonical_padding n bs"
  shows "nibble_pairs G (unpack G n bs) = bs"
proof (rule nth_equalityI)
  have n: "length (unpack G n bs) = n" by (simp add: unpack_def)
  show "length (nibble_pairs G (unpack G n bs)) = length bs"
    using assms(2) by (simp add: n)
  fix j
  assume "j < length (nibble_pairs G (unpack G n bs))"
  then have j: "j < (n + 1) div 2" by (simp add: n)
  note laws = gf16_lawsD[OF assms(1)]
  have low: "gf16_to_u8 G (unpack G n bs ! (2 * j)) = bs ! j AND 0x0f"
    using j by (simp add: unpack_def laws)
  show "nibble_pairs G (unpack G n bs) ! j = bs ! j"
  proof (cases "2 * j + 1 < n")
    case True
    then have "gf16_to_u8 G (unpack G n bs ! (2 * j + 1)) = drop_bit 4 (bs ! j)"
      by (simp add: unpack_def laws)
    with True j show ?thesis
      by (simp add: nth_nibble_pairs n low pair_of_nibbles)
  next
    case False
    with j have "odd n" and "j = (n + 1) div 2 - 1" by presburger+
    with assms(2) j have "last bs = bs ! j" by (cases "bs = []") (auto simp: last_conv_nth)
    with assms(2,3) j \<open>odd n\<close> have "bs ! j < 16"
      by (cases bs) (auto simp: canonical_padding_def high_nibble_zero)
    then have "bs ! j AND 0x0f = bs ! j"
      using nibbles_of_pair(1)[of "bs ! j" 0] by simp
    with False j show ?thesis by (simp add: nth_nibble_pairs n low)
  qed
qed

lemma canonical_padding_pairs:
  assumes "gf16_laws G"
  shows "canonical_padding (length vs) (nibble_pairs G vs)"
  unfolding canonical_padding_def
proof (intro impI)
  assume odd: "odd (length vs)" and ne: "nibble_pairs G vs \<noteq> []"
  have "last (nibble_pairs G vs) = gf16_to_u8 G (vs ! (length vs - 1))"
    using odd ne by (auto simp: last_conv_nth nth_nibble_pairs elim!: oddE)
  then show "last (nibble_pairs G vs) AND 0xf0 = 0"
    using gf16_lawsD(2)[OF assms] by (simp add: high_nibble_zero)
qed

lemma dec_nibbles_at:
  assumes "fits (pre @ r)" and "n < usize_max"
  shows "dec_nibbles G n (dec_at pre r) =
     (let k = (n + 1) div 2 in
      if k \<le> length r \<and> canonical_padding n (take k r)
      then Inr (unpack G n (take k r), dec_at (pre @ take k r) (drop k r))
      else Inl InvalidEncoding)"
  using assms
  by (auto simp: dec_nibbles_def checked_add_def dec_take_at canonical_padding_def unpack_def
      Let_def odd_iff_mod_2_eq_one)

lemma nibbles_codec:
  assumes "gf16_laws G" and "n < usize_max"
  shows "field_codec (dec_nibbles G n) (nibble_pairs G) (\<lambda>vs. length vs = n)"
proof unfold_locales
  fix vs pre r
  assume "length vs = n" and "fits (pre @ nibble_pairs G vs @ r)"
  then show "dec_nibbles G n (dec_at pre (nibble_pairs G vs @ r))
      = Inr (vs, dec_at (pre @ nibble_pairs G vs) r)"
    using assms canonical_padding_pairs[OF assms(1), of vs]
    by (simp add: dec_nibbles_at Let_def unpack_pairs)
next
  fix pre r vs d
  assume fits: "fits (pre @ r)" and ok: "dec_nibbles G n (dec_at pre r) = Inr (vs, d)"
  let ?k = "(n + 1) div 2"
  from ok have k: "?k \<le> length r" and pad: "canonical_padding n (take ?k r)"
    and vs: "vs = unpack G n (take ?k r)" and d: "d = dec_at (pre @ take ?k r) (drop ?k r)"
    by (auto simp: dec_nibbles_at[OF fits assms(2)] Let_def split: if_splits)
  have "nibble_pairs G vs = take ?k r"
    using pairs_unpack[OF assms(1) _ pad] k vs by simp
  then show "length vs = n \<and> (\<exists>r'. r = nibble_pairs G vs @ r' \<and> d = dec_at (pre @ nibble_pairs G vs) r')"
    using vs d by (simp add: unpack_def exI[of _ "drop ?k r"])
qed

section \<open>The envelope\<close>

lemma length_MAGIC [simp]: "length MAGIC = 4"
  by (simp add: MAGIC_def)

lemma header_eq: "header out a p = out @ header [] a p"
  by (simp add: header_def Let_def)

lemma length_header [simp, enc_len]: "length (header [] a p) = 9"
  by (simp add: header_def Let_def)

lemma envelope_tail_iff:
  "length xs = 4 \<and> xs ! 0 = a \<and> xs ! 1 = p \<and> drop 2 xs = [c, d] \<longleftrightarrow> xs = [a, p, c, d]"
  by (cases xs; cases "tl xs") auto

lemma decoder_new_iff:
  "decoder_new input a p = Inr d \<longleftrightarrow>
     fits input \<and> (\<exists>r. input = header [] a p @ r \<and> d = dec_at (header [] a p) r)"
proof (cases "fits input")
  case False
  then show ?thesis by (simp add: decoder_new_def fits_def)
next
  case True
  have new: "decoder_new input a p = Inr d \<longleftrightarrow>
    (\<exists>r actual. input = MAGIC @ [WIRE_VERSION] @ actual @ r \<and> length actual = 4 \<and>
      actual ! 0 = a \<and> actual ! 1 = p \<and> drop 2 actual = [0, 0] \<and>
      d = dec_at (MAGIC @ [WIRE_VERSION] @ actual) r)"
  proof -
    have start: "\<lparr>dec_input = input, dec_offset = 0\<rparr> = dec_at [] input"
      by (simp add: dec_at_def)
    have take: "dec_take (length MAGIC) (dec_at [] input) = dec_array 4 (dec_at [] input)"
      using True by (simp add: dec_take_at dec_array_at)
    show ?thesis
      unfolding decoder_new_def start take Let_def
      using True
      by (auto simp: array.parse_bind u8.parse_bind fits_def split: if_splits; blast)
  qed
  have "decoder_new input a p = Inr d \<longleftrightarrow>
    (\<exists>r actual. actual = [a, p, 0, 0] \<and> input = MAGIC @ [WIRE_VERSION] @ actual @ r \<and>
      d = dec_at (MAGIC @ [WIRE_VERSION] @ actual) r)"
    unfolding new envelope_tail_iff[symmetric] by blast
  then show ?thesis
    using True by (simp add: header_def)
qed

lemma decoder_new_bind:
  "rbind (decoder_new input a p) f = Inr y \<longleftrightarrow>
     fits input \<and> (\<exists>r. input = header [] a p @ r \<and> f (dec_at (header [] a p) r) = Inr y)"
  by (auto simp: rbind_eq_Inr decoder_new_iff)

section \<open>The contract of an artifact\<close>

locale artifact_codec =
  fixes to_bytes :: "'a \<Rightarrow> bytes option"
    and from_bytes :: "bytes \<Rightarrow> wire_error + 'a"
    and valid :: "'a \<Rightarrow> bool"
  assumes decode_iff: "from_bytes bs = Inr x \<longleftrightarrow> fits bs \<and> valid x \<and> to_bytes x = Some bs"
begin

lemma roundtrip: "valid x \<Longrightarrow> to_bytes x = Some bs \<Longrightarrow> fits bs \<Longrightarrow> from_bytes bs = Inr x"
  by (simp add: decode_iff)

lemma canonical: "from_bytes bs = Inr x \<Longrightarrow> to_bytes x = Some bs"
  by (simp add: decode_iff)

lemma unique_encoding: "from_bytes bs = Inr x \<Longrightarrow> from_bytes cs = Inr x \<Longrightarrow> bs = cs"
  by (auto simp: decode_iff)

lemma injective:
  "valid x \<Longrightarrow> valid y \<Longrightarrow> to_bytes x = Some bs \<Longrightarrow> to_bytes y = Some bs \<Longrightarrow> fits bs \<Longrightarrow> x = y"
  by (metis decode_iff sum.inject(2))

end

section \<open>Properties\<close>

text \<open>Packing field elements into nibbles never panics, and reading the same number of elements
  back from the packed bytes (wherever they stand in an input of legal size) gives the same elements
  and leaves the decoder just behind them.\<close>

theorem nibbles_roundtrip:
  assumes "gf16_laws G" and "length vs < usize_max" and "pack_nibbles G vs = packed"
    and "fits (pre @ the packed @ r)"
  shows "packed \<noteq> None \<and>
    dec_nibbles G (length vs) (dec_at pre (the packed @ r)) = Inr (vs, dec_at (pre @ the packed) r)"
  using assms field_codec.parse_enc[OF nibbles_codec[OF assms(1,2)]]
  by (auto simp: pack_nibbles_eq)

text \<open>A concrete field: the values below 16, kept as 4-bit words.\<close>

definition word_gf16 :: "4 word gf16_ops" where
  "word_gf16 = \<lparr>gf16_new = ucast, gf16_to_u8 = ucast\<rparr>"

lemma word_gf16_laws: "gf16_laws word_gf16"
proof -
  have "(ucast (ucast b :: 4 word) :: byte) = b" if "b < 16" for b :: byte
    using that by (intro bit_word_eqI) (auto simp: less_16_iff bit_simps)
  moreover have "(ucast (e :: 4 word) :: byte) < 16" for e
    by (auto simp: less_16_iff bit_simps dest: bit_imp_le_length)
  moreover have "(ucast (ucast (e :: 4 word) :: byte) :: 4 word) = e" for e
    by (intro bit_word_eqI) (auto simp: bit_simps)
  ultimately show ?thesis by (simp add: gf16_laws_def word_gf16_def)
qed

theorem nibbles_roundtrip_witness:
  "dec_nibbles word_gf16 3 (dec_at [7] [0x21, 0x03, 9]) = Inr ([1, 2, 3], dec_at [7, 0x21, 0x03] [9])"
proof -
  have "nibble_pairs word_gf16 [1, 2, 3] = [0x21, 0x03]"
    by (simp add: word_gf16_def)
  then show ?thesis
    using nibbles_roundtrip[OF word_gf16_laws, of "[1, 2, 3]" _ "[7]" "[9]"]
    by (simp add: pack_nibbles_eq usize_max_def fits_def MAX_WIRE_BYTES_def numeral_3_eq_3)
qed

text \<open>The envelope check accepts exactly the inputs of legal size that begin with the nine bytes
  \<open>header\<close> writes for the expected artifact and parameter set, and stands behind them.\<close>

lemma decoder_new_accepts:
  "decoder_new input artifact parameter_set = Inr d \<longleftrightarrow>
     length input \<le> MAX_WIRE_BYTES \<and>
     (\<exists>r. input = header [] artifact parameter_set @ r \<and> d = \<lparr>dec_input = input, dec_offset = 9\<rparr>)"
  by (auto simp: decoder_new_iff fits_def dec_at_def)

text \<open>The decoder stays in bounds. On an input of legal size, standing anywhere inside it, every read
  returns exactly the bytes at the current position and moves past them, or fails with
  \<open>InvalidEncoding\<close> because they are not all there (or, for nibbles, because the padding is not zero).
  No length makes an addition wrap: one that a hostile input declares, up to the whole range of
  \<open>u32\<close> or \<open>usize\<close>, is compared with what is left before anything is read.\<close>

theorem decoder_in_bounds:
  assumes "length (dec_input d) \<le> MAX_WIRE_BYTES" and "dec_offset d \<le> length (dec_input d)"
    and "rest = drop (dec_offset d) (dec_input d)" and "move = (\<lambda>n. d\<lparr>dec_offset := dec_offset d + n\<rparr>)"
  shows "dec_take n d = (if n \<le> length rest then Inr (take n rest, move n) else Inl InvalidEncoding) \<and>
    dec_array n d = dec_take n d \<and>
    dec_u8 d = (if rest = [] then Inl InvalidEncoding else Inr (hd rest, move 1)) \<and>
    dec_u32 d = (if 4 \<le> length rest then Inr (from_le (take 4 rest), move 4) else Inl InvalidEncoding) \<and>
    dec_bytes d = (let n = unat (from_le (take 4 rest) :: u32) in
      if 4 + n \<le> length rest then Inr (take n (drop 4 rest), move (4 + n)) else Inl InvalidEncoding) \<and>
    dec_nibbles G n d = (let k = (n + 1) div 2 in
      if k \<le> length rest \<and> canonical_padding n (take k rest) then Inr (unpack G n (take k rest), move k)
      else Inl InvalidEncoding) \<and>
    dec_finish d = (if rest = [] then Inr () else Inl InvalidEncoding)"
proof -
  have take_in: "dec_take n d' = (if n \<le> length (dec_input d') - dec_offset d'
      then Inr (take n (drop (dec_offset d') (dec_input d')), d'\<lparr>dec_offset := dec_offset d' + n\<rparr>)
      else Inl InvalidEncoding)"
    if "length (dec_input d') \<le> MAX_WIRE_BYTES" and "dec_offset d' \<le> length (dec_input d')" for n d'
    using that by (auto simp: dec_take_def checked_add_def MAX_WIRE_BYTES_def usize_max_def)
  note rest = assms(3) and len = assms(3)[THEN arg_cong, of length, simplified length_drop]
  have take_d: "dec_take n d = (if n \<le> length rest then Inr (take n rest, move n) else Inl InvalidEncoding)" for n
    using take_in[OF assms(1,2)] by (simp add: assms(3,4))
  have array: "dec_array n d = dec_take n d" for n
    by (simp add: dec_array_def take_d)
  have u8: "dec_u8 d = (if rest = [] then Inl InvalidEncoding else Inr (hd rest, move 1))"
    by (cases rest) (simp_all add: dec_u8_def array take_d)
  have u32: "dec_u32 d = (if 4 \<le> length rest then Inr (from_le (take 4 rest), move 4) else Inl InvalidEncoding)"
    by (simp add: dec_u32_def array take_d)
  have bytes: "dec_bytes d = (let n = unat (from_le (take 4 rest) :: u32) in
      if 4 + n \<le> length rest then Inr (take n (drop 4 rest), move (4 + n)) else Inl InvalidEncoding)"
  proof (cases "4 \<le> length rest")
    case True
    have "length (dec_input (move 4)) \<le> MAX_WIRE_BYTES" "dec_offset (move 4) \<le> length (dec_input (move 4))"
      using assms(1,2) True by (simp_all add: assms(4) len)
    from take_in[OF this] True show ?thesis
      by (auto simp: dec_bytes_def u32 Let_def assms(3,4) add.commute)
  qed (simp add: dec_bytes_def u32 Let_def)
  have "length rest \<le> MAX_WIRE_BYTES" using assms(1) len by simp
  then have nibbles: "dec_nibbles G n d = (let k = (n + 1) div 2 in
      if k \<le> length rest \<and> canonical_padding n (take k rest) then Inr (unpack G n (take k rest), move k)
      else Inl InvalidEncoding)"
    by (auto simp: dec_nibbles_def checked_add_def take_d canonical_padding_def unpack_def Let_def
        odd_iff_mod_2_eq_one MAX_WIRE_BYTES_def usize_max_def)
  have "dec_finish d = (if rest = [] then Inr () else Inl InvalidEncoding)"
    using assms(2) by (auto simp: dec_finish_def assms(3))
  with array u8 u32 bytes nibbles take_d show ?thesis by blast
qed

theorem decoder_in_bounds_witness:
  "dec_bytes \<lparr>dec_input = [7, 255, 255, 255, 255, 1], dec_offset = 1\<rparr> = Inl InvalidEncoding \<and>
   dec_bytes \<lparr>dec_input = [7, 1, 0, 0, 0, 9], dec_offset = 1\<rparr> =
     Inr ([9], \<lparr>dec_input = [7, 1, 0, 0, 0, 9], dec_offset = 6\<rparr>)"
proof -
  have "length (dec_input \<lparr>dec_input = [7, 255, 255, 255, 255, 1], dec_offset = 1\<rparr>) \<le> MAX_WIRE_BYTES"
    "dec_offset \<lparr>dec_input = [7, 255, 255, 255, 255, 1], dec_offset = 1\<rparr> \<le>
      length (dec_input \<lparr>dec_input = [7, 255, 255, 255, 255, 1], dec_offset = 1\<rparr>)"
    "length (dec_input \<lparr>dec_input = [7, 1, 0, 0, 0, 9], dec_offset = 1\<rparr>) \<le> MAX_WIRE_BYTES"
    "dec_offset \<lparr>dec_input = [7, 1, 0, 0, 0, 9], dec_offset = 1\<rparr> \<le>
      length (dec_input \<lparr>dec_input = [7, 1, 0, 0, 0, 9], dec_offset = 1\<rparr>)"
    by (simp_all add: MAX_WIRE_BYTES_def)
  note reads = decoder_in_bounds[OF this(1,2) refl refl] decoder_in_bounds[OF this(3,4) refl refl]
  note dec_bytes = reads[THEN conjunct2, THEN conjunct2, THEN conjunct2, THEN conjunct2, THEN conjunct1]
  show ?thesis unfolding dec_bytes by simp
qed

end
