(* ===== verification/Markers.thy ===== *)
theory Markers
  imports Wire
begin

text \<open>
  \<open>src/src/markers.rs\<close>: the protocol's error type and the VOLE performance profiles. The constants \<open>PARAMS_128\<close>, \<open>PARAMS_128_BALANCED\<close> and \<open>PARAMS_128_FAST\<close> come from the crate
  \<open>voleith\<close>: they are the fields of the parameter record \<open>vole_suite\<close>.
\<close>

datatype error =
    InvalidRequest
  | InvalidProof
  | InvalidSignature
  | SigningFailed
  | InvalidPresentationLimit
  | RateLimitReached
  | WrongCredentialContext
  | WrongIssuer
  | TagAlreadyUsed
  | StorageFailure
  | TooManyPresentationContexts

fun error_fmt :: "error \<Rightarrow> string" where
  "error_fmt InvalidRequest = ''invalid VOLE-ARC request''"
| "error_fmt InvalidProof = ''invalid VOLE-ARC proof''"
| "error_fmt InvalidSignature = ''invalid MAYO credential authenticator''"
| "error_fmt SigningFailed = ''MAYO preimage sampling failed''"
| "error_fmt InvalidPresentationLimit = ''presentation limit must be nonzero''"
| "error_fmt RateLimitReached = ''scoped presentation limit reached''"
| "error_fmt WrongCredentialContext = ''credential context mismatch''"
| "error_fmt WrongIssuer = ''issuer context mismatch''"
| "error_fmt TagAlreadyUsed = ''scoped presentation tag already used''"
| "error_fmt StorageFailure = ''tag store operation failed''"
| "error_fmt TooManyPresentationContexts = ''credential presentation-context state limit reached''"

text \<open>
  The errors of the crate \<open>voleith\<close> that the source names, and one constructor for all others;
  the protocol maps every one of them to \<open>InvalidProof\<close>.
\<close>

datatype vole_error = InvalidParameters | Unsatisfiable | OtherVoleithError nat

definition proof_error :: "vole_error \<Rightarrow> error" where
  "proof_error e = InvalidProof"

section \<open>Performance profiles\<close>

datatype performance_profile = Compact | Balanced | LowLatency

text \<open>The two fields of \<open>voleith::Params\<close> the source reads.\<close>

record vole_params =
  vp_tau :: u64
  vp_k :: u64

record vole_suite =
  PARAMS_128 :: vole_params
  PARAMS_128_BALANCED :: vole_params
  PARAMS_128_FAST :: vole_params

fun profile_params :: "('z) vole_suite_scheme \<Rightarrow> performance_profile \<Rightarrow> vole_params" where
  "profile_params V Compact = PARAMS_128 V"
| "profile_params V Balanced = PARAMS_128_BALANCED V"
| "profile_params V LowLatency = PARAMS_128_FAST V"

fun profile_wire_id :: "performance_profile \<Rightarrow> byte" where
  "profile_wire_id Compact = 1"
| "profile_wire_id Balanced = 2"
| "profile_wire_id LowLatency = 3"

definition profile_from_wire_id :: "byte \<Rightarrow> wire_error + performance_profile" where
  "profile_from_wire_id i =
     (if i = 1 then Inr Compact
      else if i = 2 then Inr Balanced
      else if i = 3 then Inr LowLatency
      else Inl InvalidEncoding)"

lemma profile_from_wire_id_iff [simp]:
  "profile_from_wire_id i = Inr p \<longleftrightarrow> i = profile_wire_id p"
  by (cases p) (auto simp: profile_from_wire_id_def)

end
