(* ===== verification/Store.thy ===== *)
theory Store
  imports Markers
begin

text \<open>
  \<open>src/src/store.rs\<close>: the interface \<open>TagStore\<close> and the process-local \<open>MemoryTagStore\<close>. The trait is
  the locale \<open>tag_store\<close>: a state, its one operation, and the set of pairs it has recorded; the laws
  are the contract in the trait's documentation (\<open>true\<close> exactly for the caller that inserted the
  first copy, \<open>false\<close> when the tag was already present, nothing ever forgotten). It is interpreted on
  \<open>MemoryTagStore\<close>.
\<close>

type_synonym digest = bytes

record memory_tag_store =
  tags :: "(digest \<times> digest) set"

definition memory_default :: memory_tag_store where
  "memory_default = \<lparr>tags = {}\<rparr>"

definition memory_len :: "memory_tag_store \<Rightarrow> nat" where
  "memory_len s = card (tags s)"

definition memory_is_empty :: "memory_tag_store \<Rightarrow> bool" where
  "memory_is_empty s \<longleftrightarrow> tags s = {}"

text \<open>\<open>HashSet::insert\<close> returns whether the value was newly inserted.\<close>

definition memory_insert_if_absent ::
  "digest \<Rightarrow> digest \<Rightarrow> memory_tag_store \<Rightarrow> (error + bool) \<times> memory_tag_store" where
  "memory_insert_if_absent scope tag s =
     (Inr ((scope, tag) \<notin> tags s), s\<lparr>tags := insert (scope, tag) (tags s)\<rparr>)"

section \<open>The contract of a tag store\<close>

locale tag_store =
  fixes insert_if_absent :: "digest \<Rightarrow> digest \<Rightarrow> 's \<Rightarrow> (error + bool) \<times> 's"
    and recorded :: "'s \<Rightarrow> (digest \<times> digest) set"
  assumes inserted:
      "insert_if_absent sc tg s = (Inr True, s') \<Longrightarrow>
         (sc, tg) \<notin> recorded s \<and> (sc, tg) \<in> recorded s'"
    and present: "insert_if_absent sc tg s = (Inr False, s') \<Longrightarrow> (sc, tg) \<in> recorded s"
    and durable: "insert_if_absent sc tg s = (r, s') \<Longrightarrow> recorded s \<subseteq> recorded s'"
begin

text \<open>A run of insertions: the answers the callers got, in order.\<close>

fun insert_all :: "(digest \<times> digest) list \<Rightarrow> 's \<Rightarrow> (error + bool) list \<times> 's" where
  "insert_all [] s = ([], s)"
| "insert_all ((sc, tg) # reqs) s =
     (let (r, s) = insert_if_absent sc tg s; (rs, s) = insert_all reqs s in (r # rs, s))"

definition admitted :: "(digest \<times> digest) list \<Rightarrow> (error + bool) list \<Rightarrow> (digest \<times> digest) list" where
  "admitted reqs rs = map fst (filter (\<lambda>(q, r). r = Inr True) (zip reqs rs))"

lemma admitted_Cons [simp]:
  "admitted (q # reqs) (r # rs) = (if r = Inr True then q # admitted reqs rs else admitted reqs rs)"
  by (simp add: admitted_def)

lemma admitted_fresh:
  "insert_all reqs s = (rs, s') \<Longrightarrow>
     distinct (admitted reqs rs) \<and> set (admitted reqs rs) \<inter> recorded s = {} \<and>
     set (admitted reqs rs) \<subseteq> recorded s' \<and> recorded s \<subseteq> recorded s'"
proof (induction reqs s arbitrary: rs s' rule: insert_all.induct)
  case (1 s)
  then show ?case by (simp add: admitted_def)
next
  case (2 sc tg reqs s)
  obtain r s1 where step: "insert_if_absent sc tg s = (r, s1)" by force
  obtain rs1 s2 where rest: "insert_all reqs s1 = (rs1, s2)" by force
  from 2(2) step rest have rs: "rs = r # rs1" "s' = s2" by simp_all
  from 2(1)[OF step[symmetric] refl rest]
  have ih: "distinct (admitted reqs rs1)" "set (admitted reqs rs1) \<inter> recorded s1 = {}"
    "set (admitted reqs rs1) \<subseteq> recorded s2" "recorded s1 \<subseteq> recorded s2" by simp_all
  show ?case
    using ih durable[OF step] inserted[of sc tg s s1] step unfolding rs by auto
qed

end

interpretation mem: tag_store memory_insert_if_absent tags
  by unfold_locales (auto simp: memory_insert_if_absent_def)

end
