(* ===== verification/Contexts.thy ===== *)
theory Contexts
  imports Markers
begin

text \<open>
  \<open>src/src/context.rs\<close>: canonical digests for credential contexts, presentation contexts and request
  bindings, and the presentation challenge. SHAKE256 is the crate \<open>sha3\<close>: the parameter \<open>xof m n\<close> is
  the first \<open>n\<close> bytes of its output on the bytes \<open>m\<close> absorbed by the calls of \<open>update\<close>, in order.
\<close>

type_synonym xof = "bytes \<Rightarrow> nat \<Rightarrow> bytes"

section \<open>Framed hashes\<close>

definition CREDENTIAL_CONTEXT_DOMAIN :: bytes where
  "CREDENTIAL_CONTEXT_DOMAIN = ascii ''VOLE-ARC/credential-context/v1''"

definition PRESENTATION_CONTEXT_DOMAIN :: bytes where
  "PRESENTATION_CONTEXT_DOMAIN = ascii ''VOLE-ARC/presentation-context/v1''"

definition PRESENTATION_SCOPE_DOMAIN :: bytes where
  "PRESENTATION_SCOPE_DOMAIN = ascii ''VOLE-ARC/scoped-presentation/v1''"

definition PRESENTATION_BINDING_DOMAIN :: bytes where
  "PRESENTATION_BINDING_DOMAIN = ascii ''VOLE-ARC/presentation-binding/v1''"

definition frame_message :: "bytes \<Rightarrow> bytes list \<Rightarrow> bytes" where
  "frame_message domain components =
     fold (\<lambda>component hash. hash @ len_u64 component @ component) components domain"

definition hash_framed :: "xof \<Rightarrow> bytes \<Rightarrow> bytes list \<Rightarrow> bytes" where
  "hash_framed xof domain components = xof (frame_message domain components) 32"

section \<open>Context digests\<close>

datatype credential_context = CredentialContext (credential_digest: bytes)

definition credential_context_new :: "xof \<Rightarrow> bytes \<Rightarrow> credential_context" where
  "credential_context_new xof application_data =
     CredentialContext (hash_framed xof CREDENTIAL_CONTEXT_DOMAIN [application_data])"

definition credential_context_default :: "xof \<Rightarrow> credential_context" where
  "credential_context_default xof = credential_context_new xof []"

datatype presentation_context = PresentationContext (presentation_digest: bytes)

definition presentation_context_new :: "xof \<Rightarrow> bytes \<Rightarrow> presentation_context" where
  "presentation_context_new xof application_data =
     PresentationContext (hash_framed xof PRESENTATION_CONTEXT_DOMAIN [application_data])"

definition scoped_components :: "bytes \<Rightarrow> bytes \<Rightarrow> bytes option \<Rightarrow> bytes list" where
  "scoped_components relying_party purpose epoch =
     (let (epoch_presence, epoch) = (case epoch of Some epoch \<Rightarrow> ([1], epoch) | None \<Rightarrow> ([0], []))
      in [relying_party, purpose, epoch_presence, epoch])"

definition scoped :: "xof \<Rightarrow> bytes \<Rightarrow> bytes \<Rightarrow> bytes option \<Rightarrow> presentation_context" where
  "scoped xof relying_party purpose epoch =
     PresentationContext
       (hash_framed xof PRESENTATION_SCOPE_DOMAIN (scoped_components relying_party purpose epoch))"

datatype presentation_binding = PresentationBinding (binding_digest: bytes)

definition presentation_binding_new :: "xof \<Rightarrow> bytes \<Rightarrow> presentation_binding" where
  "presentation_binding_new xof request_data =
     PresentationBinding (hash_framed xof PRESENTATION_BINDING_DOMAIN [request_data])"

definition presentation_binding_default :: "xof \<Rightarrow> presentation_binding" where
  "presentation_binding_default xof = presentation_binding_new xof []"

section \<open>Challenges\<close>

record presentation_challenge =
  ch_credential_context :: credential_context
  ch_presentation_context :: presentation_context
  ch_binding :: presentation_binding
  ch_limit :: u32

definition challenge_new ::
  "credential_context \<Rightarrow> presentation_context \<Rightarrow> u32 \<Rightarrow> presentation_binding \<Rightarrow>
     error + presentation_challenge" where
  "challenge_new credential_context presentation_context limit binding =
     (if limit = 0 then Inl InvalidPresentationLimit
      else Inr \<lparr>ch_credential_context = credential_context,
                ch_presentation_context = presentation_context,
                ch_binding = binding,
                ch_limit = limit\<rparr>)"

section \<open>Framing is injective\<close>

text \<open>Two inputs of the hash collide: they differ and have the same 32-byte digest.\<close>

definition collides :: "xof \<Rightarrow> bytes \<Rightarrow> bytes \<Rightarrow> bool" where
  "collides xof m m' \<longleftrightarrow> m \<noteq> m' \<and> xof m 32 = xof m' 32"

lemma digest_eq_iff: "xof m 32 = xof m' 32 \<longleftrightarrow> m = m' \<or> collides xof m m'"
  by (auto simp: collides_def)

lemma frame_message_eq:
  "frame_message domain cs = domain @ concat (map (\<lambda>c. len_u64 c @ c) cs)"
  unfolding frame_message_def by (induction cs arbitrary: domain) simp_all

lemma frame_append_inject:
  assumes "length c < 2 ^ 64" and "length c' < 2 ^ 64"
  shows "len_u64 c = len_u64 c' \<and> c @ r = c' @ r' \<longleftrightarrow> c = c' \<and> r = r'"
  using assms by (auto simp: len_u64_inject)

lemma frames_inject:
  assumes "\<forall>c\<in>set cs. length c < 2 ^ 64" and "\<forall>c\<in>set cs'. length c < 2 ^ 64"
  shows "concat (map (\<lambda>c. len_u64 c @ c) cs) = concat (map (\<lambda>c. len_u64 c @ c) cs') \<longleftrightarrow> cs = cs'"
  using assms
proof (induction cs arbitrary: cs')
  case Nil
  then show ?case by (cases cs') (auto dest: arg_cong[of _ _ length])
next
  case (Cons c cs)
  show ?case
  proof (cases cs')
    case Nil
    then show ?thesis by (auto dest: arg_cong[of _ _ length])
  next
    case (Cons d ds)
    with Cons.prems Cons.IH[of ds] show ?thesis
      by (simp add: frame_append_inject)
  qed
qed

lemma scoped_components_inject:
  "scoped_components rp p e = scoped_components rp' p' e' \<longleftrightarrow> rp = rp' \<and> p = p' \<and> e = e'"
  by (auto simp: scoped_components_def split: option.splits)

definition small :: "bytes \<Rightarrow> bool" where
  "small bs \<longleftrightarrow> length bs < 2 ^ 64"

lemma frame_message_inject:
  assumes "\<forall>c\<in>set cs \<union> set cs'. small c"
  shows "frame_message domain cs = frame_message domain cs' \<longleftrightarrow> cs = cs'"
  using assms by (simp add: frame_message_eq frames_inject small_def)

lemma small_scoped_components:
  "small rp \<Longrightarrow> small p \<Longrightarrow> (\<forall>b. e = Some b \<longrightarrow> small b) \<Longrightarrow> c \<in> set (scoped_components rp p e) \<Longrightarrow> small c"
  by (auto simp: scoped_components_def small_def split: option.splits)

end
