(* ===== verification/Keccak.thy ===== *)
theory Keccak
  imports Prelude
begin

text \<open>
  \<open>src/src/keccak.rs\<close>: the native Keccak-f[1600] permutation and SHAKE256. A state is a list of 25
  lanes, lane \<open>(x, y)\<close> at index \<open>x + 5 * y\<close>; the loops that fill an array are \<open>scatter\<close>s over the
  same index expressions as the source.
\<close>

section \<open>Constants\<close>

definition RATE_BYTES :: nat where
  "RATE_BYTES = 136"

definition RC :: "u64 list" where
  "RC = [
    0x0000000000000001, 0x0000000000008082, 0x800000000000808a, 0x8000000080008000,
    0x000000000000808b, 0x0000000080000001, 0x8000000080008081, 0x8000000000008009,
    0x000000000000008a, 0x0000000000000088, 0x0000000080008009, 0x000000008000000a,
    0x000000008000808b, 0x800000000000008b, 0x8000000000008089, 0x8000000000008003,
    0x8000000000008002, 0x8000000000000080, 0x000000000000800a, 0x800000008000000a,
    0x8000000080008081, 0x8000000000008080, 0x0000000080000001, 0x8000000080008008]"

definition RHO :: "nat list" where
  "RHO = [0, 1, 62, 28, 27, 36, 44, 6, 55, 20, 3, 10, 43, 25, 39, 41, 45, 15, 21, 8, 18, 2, 61, 56, 14]"

type_synonym kstate = "u64 list"

section \<open>The permutation\<close>

definition theta_columns :: "kstate \<Rightarrow> u64 list" where
  "theta_columns input = scatter (\<lambda>x. x)
     (\<lambda>x. input ! x XOR input ! (x + 5) XOR input ! (x + 10) XOR input ! (x + 15) XOR input ! (x + 20))
     [0..<5] (replicate 5 0)"

definition keccak_theta :: "kstate \<Rightarrow> kstate" where
  "keccak_theta input =
     (let columns = theta_columns input in
      scatter (\<lambda>(x, y). x + 5 * y)
        (\<lambda>(x, y). input ! (x + 5 * y) XOR columns ! ((x + 4) mod 5)
           XOR word_rotl 1 (columns ! ((x + 1) mod 5)))
        (rows 5 5) (replicate 25 0))"

definition keccak_rho_pi :: "kstate \<Rightarrow> kstate" where
  "keccak_rho_pi theta =
     scatter (\<lambda>(x, y). y + 5 * ((2 * x + 3 * y) mod 5))
       (\<lambda>(x, y). word_rotl (RHO ! (x + 5 * y)) (theta ! (x + 5 * y)))
       (rows 5 5) (replicate 25 0)"

definition keccak_chi :: "kstate \<Rightarrow> kstate" where
  "keccak_chi permuted =
     scatter (\<lambda>(x, y). x + 5 * y)
       (\<lambda>(x, y). permuted ! (x + 5 * y)
          XOR (NOT (permuted ! ((x + 1) mod 5 + 5 * y)) AND permuted ! ((x + 2) mod 5 + 5 * y)))
       (rows 5 5) (replicate 25 0)"

definition keccak_round :: "kstate \<Rightarrow> u64 \<Rightarrow> kstate" where
  "keccak_round input round_constant =
     (let theta = keccak_theta input;
          permuted = keccak_rho_pi theta;
          output = keccak_chi permuted
      in output[0 := output ! 0 XOR round_constant])"

definition keccak_f :: "kstate \<Rightarrow> kstate" where
  "keccak_f state = fold (\<lambda>round_constant state. keccak_round state round_constant) RC state"

section \<open>The sponge\<close>

text \<open>\<open>as_chunks::<N>()\<close>: the full chunks and the remainder.\<close>

definition as_chunks :: "nat \<Rightarrow> 'a list \<Rightarrow> 'a list list \<times> 'a list" where
  "as_chunks n xs =
     (map (\<lambda>i. take n (drop (n * i) xs)) [0..<length xs div n], drop (n * (length xs div n)) xs)"

definition absorb_block :: "kstate \<Rightarrow> bytes \<Rightarrow> kstate" where
  "absorb_block state block =
     fold (\<lambda>(index, lane) state. state[index := state ! index XOR from_le lane])
       (enumerate 0 (fst (as_chunks 8 block))) state"

text \<open>The \<open>assert!\<close> of \<open>pad_single_block\<close> is \<open>None\<close>.\<close>

definition pad_single_block :: "bytes \<Rightarrow> bytes option" where
  "pad_single_block message =
     (if length message < RATE_BYTES then
        let block = replicate RATE_BYTES 0;
            block = message @ drop (length message) block;
            block = block[length message := block ! length message XOR 0x1f];
            block = block[RATE_BYTES - 1 := block ! (RATE_BYTES - 1) XOR 0x80]
        in Some block
      else None)"

definition squeeze_byte :: "kstate \<Rightarrow> nat \<Rightarrow> byte" where
  "squeeze_byte state index = u64_to_le (state ! (index div 8)) ! (index mod 8)"

text \<open>The loop over \<open>output.chunks_mut(RATE_BYTES)\<close>: a full chunk is followed by a permutation.\<close>

function squeeze :: "kstate \<Rightarrow> nat \<Rightarrow> bytes" where
  "squeeze state n =
     (if n = 0 then []
      else if n < RATE_BYTES then map (squeeze_byte state) [0..<n]
      else map (squeeze_byte state) [0..<RATE_BYTES] @ squeeze (keccak_f state) (n - RATE_BYTES))"
  by pat_completeness auto
termination
  by (relation "measure snd") (auto simp: RATE_BYTES_def)

declare squeeze.simps [simp del]

text \<open>
  The remainder of the chunks is always shorter than a block (\<open>shake256_pad_total\<close> of theory ShakeSpec), so the
  branch where \<open>pad_single_block\<close> panics is never taken.
\<close>

definition shake256 :: "bytes \<Rightarrow> nat \<Rightarrow> bytes" where
  "shake256 message output_len =
     (let (blocks, remainder) = as_chunks RATE_BYTES message;
          state = fold (\<lambda>block state. keccak_f (absorb_block state block)) blocks (replicate 25 0)
      in case pad_single_block remainder of
           None \<Rightarrow> []
         | Some final_block \<Rightarrow> squeeze (keccak_f (absorb_block state final_block)) output_len)"

definition state_bit :: "kstate \<Rightarrow> nat \<Rightarrow> bool" where
  "state_bit state index \<longleftrightarrow> drop_bit (index mod 64) (state ! (index div 64)) AND 1 = 1"

end
