(* ===== verification/KeccakSpec.thy ===== *)
theory KeccakSpec
  imports Keccak
begin

text \<open>
  The abstract specification of the permutation, transcribed from the step mappings of FIPS 202
  (section 3.2) on a state array of bits \<open>A x y z\<close>, and the proof that \<open>keccak_round\<close> with the
  tables \<open>RHO\<close> and \<open>RC\<close> implements it. The offsets and round constants of the specification are
  computed by the standard's own algorithms, so the tables of the source are checked, not assumed.
\<close>

type_synonym array3 = "nat \<Rightarrow> nat \<Rightarrow> nat \<Rightarrow> bool"

section \<open>FIPS 202\<close>

definition fips_C :: "array3 \<Rightarrow> nat \<Rightarrow> nat \<Rightarrow> bool" where
  "fips_C A x z = (A x 0 z \<noteq> (A x 1 z \<noteq> (A x 2 z \<noteq> (A x 3 z \<noteq> A x 4 z))))"

definition fips_theta :: "array3 \<Rightarrow> array3" where
  "fips_theta A x y z =
     (A x y z \<noteq> (fips_C A ((x + 4) mod 5) z \<noteq> fips_C A ((x + 1) mod 5) ((z + 63) mod 64)))"

text \<open>Algorithm 2: the lane visited at step \<open>t\<close> of the walk from \<open>(1, 0)\<close>, and its offset.\<close>

fun fips_walk :: "nat \<Rightarrow> nat \<times> nat" where
  "fips_walk 0 = (1, 0)"
| "fips_walk (Suc t) = (let (x, y) = fips_walk t in (y, (2 * x + 3 * y) mod 5))"

definition fips_offset :: "nat \<Rightarrow> nat \<Rightarrow> nat" where
  "fips_offset x y =
     (case filter (\<lambda>t. fips_walk t = (x, y)) [0..<24] of
        [] \<Rightarrow> 0
      | t # _ \<Rightarrow> ((t + 1) * (t + 2) div 2) mod 64)"

definition fips_rho :: "array3 \<Rightarrow> array3" where
  "fips_rho A x y z = A x y ((z + 64 - fips_offset x y) mod 64)"

definition fips_pi :: "array3 \<Rightarrow> array3" where
  "fips_pi A x y z = A ((x + 3 * y) mod 5) x z"

definition fips_chi :: "array3 \<Rightarrow> array3" where
  "fips_chi A x y z = (A x y z \<noteq> (\<not> A ((x + 1) mod 5) y z \<and> A ((x + 2) mod 5) y z))"

text \<open>Algorithm 5: the shift register behind the round constants.\<close>

definition fips_lfsr :: "bool list \<Rightarrow> bool list" where
  "fips_lfsr R = (let R = False # R; b = R ! 8 in
     take 8 (R[0 := R ! 0 \<noteq> b, 4 := R ! 4 \<noteq> b, 5 := R ! 5 \<noteq> b, 6 := R ! 6 \<noteq> b]))"

definition fips_rc :: "nat \<Rightarrow> bool" where
  "fips_rc t = ((fips_lfsr ^^ (t mod 255)) [True, False, False, False, False, False, False, False]) ! 0"

definition fips_iota_bit :: "nat \<Rightarrow> nat \<Rightarrow> bool" where
  "fips_iota_bit ir z \<longleftrightarrow> (\<exists>j\<in>{0..6}. z = 2 ^ j - 1 \<and> fips_rc (j + 7 * ir))"

definition fips_iota :: "nat \<Rightarrow> array3 \<Rightarrow> array3" where
  "fips_iota ir A x y z = (A x y z \<noteq> (x = 0 \<and> y = 0 \<and> fips_iota_bit ir z))"

definition fips_round :: "nat \<Rightarrow> array3 \<Rightarrow> array3" where
  "fips_round ir A = fips_iota ir (fips_chi (fips_pi (fips_rho (fips_theta A))))"

section \<open>The bits of a lane-wise state\<close>

definition abs_state :: "kstate \<Rightarrow> array3" where
  "abs_state st x y z = bit (st ! (x + 5 * y)) z"

lemma length_RC [simp]: "length RC = 24"
  by (simp add: RC_def)

lemma length_RHO [simp]: "length RHO = 25"
  by (simp add: RHO_def)

lemma length_theta_columns [simp]: "length (theta_columns st) = 5"
  by (simp add: theta_columns_def)

lemma length_keccak_round [simp, enc_len]: "length (keccak_round st rc) = 25"
  by (simp add: keccak_round_def Let_def keccak_chi_def)

lemma index5: "x < 5 \<Longrightarrow> y < 5 \<Longrightarrow> x + 5 * y < (25::nat)"
  by simp

lemma scatter_rows:
  "length xs = 25 \<Longrightarrow> x < 5 \<Longrightarrow> y < 5 \<Longrightarrow> scatter (\<lambda>(x, y). x + 5 * y) g (rows 5 5) xs ! (x + 5 * y) = g (x, y)"
  using scatter_nth[of "\<lambda>(x, y). x + 5 * y" "rows 5 5" "(x, y)" xs g] rows_index[of 5 5]
  by (simp add: set_rows)

lemma pi_source:
  assumes "x < 5" and "y < (5::nat)"
  shows "(2 * ((x + 3 * y) mod 5) + 3 * x) mod 5 = y"
proof -
  have "(2 * ((x + 3 * y) mod 5) + 3 * x) mod 5 = (2 * (x + 3 * y) + 3 * x) mod 5"
    by (metis mod_add_left_eq mod_mult_right_eq)
  also have "2 * (x + 3 * y) + 3 * x = y + 5 * (x + y)" by simp
  also have "(y + 5 * (x + y)) mod 5 = y" using assms by (simp only: mod_mult_self2 mod_less)
  finally show ?thesis .
qed

lemma distinct_pi_targets:
  "distinct (map (\<lambda>(x, y). y + 5 * ((2 * x + 3 * y) mod 5)) (rows 5 5))"
  by code_simp

lemma scatter_pi:
  assumes "length xs = 25" and "x < 5" and "y < 5"
  shows "scatter (\<lambda>(x, y). y + 5 * ((2 * x + 3 * y) mod 5)) g (rows 5 5) xs ! (x + 5 * y)
    = g ((x + 3 * y) mod 5, x)"
proof -
  let ?f = "\<lambda>(x, y). y + 5 * ((2 * x + 3 * y) mod (5::nat))"
  have "?f ((x + 3 * y) mod 5, x) = x + 5 * y"
    using pi_source[OF assms(2,3)] by simp
  then show ?thesis
    using scatter_nth[OF distinct_pi_targets, of "((x + 3 * y) mod 5, x)" xs g] assms
    by (simp add: set_rows)
qed

lemma nth_theta_columns:
  "x < 5 \<Longrightarrow> theta_columns st ! x =
     st ! x XOR st ! (x + 5) XOR st ! (x + 10) XOR st ! (x + 15) XOR st ! (x + 20)"
  unfolding theta_columns_def by (subst scatter_in_order) simp_all

lemma bit_rotl64: "bit (word_rotl n (w :: u64)) z \<longleftrightarrow> z < 64 \<and> bit w ((z + (64 - n mod 64)) mod 64)"
  by (simp add: bit_word_rotl_iff)

section \<open>The tables\<close>

theorem RHO_is_fips_offset: "\<forall>(x, y)\<in>set (rows 5 5). RHO ! (x + 5 * y) = fips_offset x y"
  by code_simp

lemma RHO_offset: "x < 5 \<Longrightarrow> y < 5 \<Longrightarrow> RHO ! (x + 5 * y) = fips_offset x y"
  using RHO_is_fips_offset by (auto simp: set_rows)

lemma RHO_less: "x < 5 \<Longrightarrow> y < 5 \<Longrightarrow> RHO ! (x + 5 * y) < 64"
proof -
  have "\<forall>(x, y)\<in>set (rows 5 5). RHO ! (x + 5 * y) < 64" by code_simp
  then show "x < 5 \<Longrightarrow> y < 5 \<Longrightarrow> RHO ! (x + 5 * y) < 64" by (auto simp: set_rows)
qed

section \<open>One round\<close>

definition theta_lane :: "kstate \<Rightarrow> nat \<Rightarrow> nat \<Rightarrow> u64" where
  "theta_lane st x y = st ! (x + 5 * y) XOR theta_columns st ! ((x + 4) mod 5)
     XOR word_rotl 1 (theta_columns st ! ((x + 1) mod 5))"

definition pi_lane :: "kstate \<Rightarrow> nat \<Rightarrow> nat \<Rightarrow> u64" where
  "pi_lane st x y = word_rotl (RHO ! ((x + 3 * y) mod 5 + 5 * x)) (theta_lane st ((x + 3 * y) mod 5) x)"

lemma nth_keccak_theta: "x < 5 \<Longrightarrow> y < 5 \<Longrightarrow> keccak_theta st ! (x + 5 * y) = theta_lane st x y"
  by (simp add: keccak_theta_def Let_def scatter_rows theta_lane_def)

lemma nth_keccak_rho_pi:
  "x < 5 \<Longrightarrow> y < 5 \<Longrightarrow> keccak_rho_pi (keccak_theta st) ! (x + 5 * y) = pi_lane st x y"
  by (simp add: keccak_rho_pi_def scatter_pi pi_lane_def nth_keccak_theta)

lemma nth_keccak_chi:
  "x < 5 \<Longrightarrow> y < 5 \<Longrightarrow> keccak_chi st ! (x + 5 * y) =
     st ! (x + 5 * y) XOR (NOT (st ! ((x + 1) mod 5 + 5 * y)) AND st ! ((x + 2) mod 5 + 5 * y))"
  by (simp add: keccak_chi_def scatter_rows)

lemma length_keccak_chi [simp]: "length (keccak_chi st) = 25"
  by (simp add: keccak_chi_def)

lemma nth_keccak_round:
  assumes "x < 5" and "y < 5"
  shows "keccak_round st rc ! (x + 5 * y) =
    (pi_lane st x y XOR (NOT (pi_lane st ((x + 1) mod 5) y) AND pi_lane st ((x + 2) mod 5) y))
    XOR (if x = 0 \<and> y = 0 then rc else 0)"
proof -
  let ?chi = "keccak_chi (keccak_rho_pi (keccak_theta st))"
  have "keccak_round st rc ! (x + 5 * y) = ?chi ! (x + 5 * y) XOR (if x = 0 \<and> y = 0 then rc else 0)"
    using assms by (simp add: keccak_round_def Let_def nth_list_update)
  then show ?thesis
    using assms by (simp only: nth_keccak_chi nth_keccak_rho_pi mod_less_divisor zero_less_numeral)
qed

lemma bit_theta_columns:
  "x < 5 \<Longrightarrow> bit (theta_columns st ! x) z = fips_C (abs_state st) x z"
  by (auto simp: nth_theta_columns fips_C_def abs_state_def bit_xor_iff)

lemma bit_theta_lane:
  "x < 5 \<Longrightarrow> y < 5 \<Longrightarrow> z < 64 \<Longrightarrow> bit (theta_lane st x y) z = fips_theta (abs_state st) x y z"
  by (auto simp: theta_lane_def fips_theta_def abs_state_def[of st x y] bit_xor_iff
      bit_theta_columns bit_rotl64)

lemma bit_pi_lane:
  assumes "x < 5" and "y < 5" and "z < 64"
  shows "bit (pi_lane st x y) z = fips_pi (fips_rho (fips_theta (abs_state st))) x y z"
proof -
  let ?sx = "(x + 3 * y) mod 5"
  have s: "?sx < 5" by simp
  have "z + (64 - fips_offset ?sx x mod 64) = z + 64 - fips_offset ?sx x"
    using RHO_less[OF s assms(1)] by (simp add: RHO_offset s assms(1))
  then show ?thesis
    using assms s by (simp add: pi_lane_def fips_pi_def fips_rho_def bit_rotl64 bit_theta_lane RHO_offset)
qed

lemma bit_keccak_round:
  assumes "x < 5" and "y < 5" and "z < 64"
  shows "bit (keccak_round st rc ! (x + 5 * y)) z =
    (fips_chi (fips_pi (fips_rho (fips_theta (abs_state st)))) x y z
      \<noteq> (x = 0 \<and> y = 0 \<and> bit rc z))"
  using assms
  by (auto simp: nth_keccak_round fips_chi_def bit_pi_lane bit_xor_iff bit_and_iff bit_not_iff)

section \<open>The round constants\<close>

text \<open>The output of the register for the 168 steps the constants use, seven per round.\<close>

fun lfsr_run :: "nat \<Rightarrow> bool list \<Rightarrow> bool list" where
  "lfsr_run 0 R = []"
| "lfsr_run (Suc n) R = R ! 0 # lfsr_run n (fips_lfsr R)"

lemma length_lfsr_run [simp]: "length (lfsr_run n R) = n"
  by (induction n R rule: lfsr_run.induct) simp_all

lemma nth_lfsr_run: "t < n \<Longrightarrow> lfsr_run n R ! t = ((fips_lfsr ^^ t) R) ! 0"
proof (induction n R arbitrary: t rule: lfsr_run.induct)
  case (1 R)
  then show ?case by simp
next
  case (2 n R)
  then show ?case by (cases t) (simp_all del: funpow.simps add: funpow_Suc_right)
qed

definition rc_table :: "bool list" where
  "rc_table = [
    True, False, False, False, False, False, False,
    False, True, False, True, True, False, False,
    False, True, True, True, True, False, True,
    False, False, False, False, True, True, True,
    True, True, True, True, True, False, False,
    True, False, False, False, False, True, False,
    True, False, False, True, True, True, True,
    True, False, True, False, True, False, True,
    False, True, True, True, False, False, False,
    False, False, True, True, False, False, False,
    True, False, True, False, True, True, False,
    False, True, True, False, False, True, False,
    True, True, True, True, True, True, False,
    True, True, True, True, False, False, True,
    True, False, True, True, True, False, True,
    True, True, False, False, True, False, True,
    False, True, False, False, True, False, True,
    False, False, False, True, False, False, True,
    False, True, True, False, True, False, False,
    False, True, True, False, False, True, True,
    True, False, False, True, True, True, True,
    False, False, False, True, True, False, True,
    True, False, False, False, False, True, False,
    False, False, True, False, True, True, True]"

lemma lfsr_table: "lfsr_run 168 [True, False, False, False, False, False, False, False] = rc_table"
  by code_simp

lemma fips_rc_table: "t < 168 \<Longrightarrow> rc_table ! t = fips_rc t"
  by (simp add: lfsr_table[symmetric] nth_lfsr_run fips_rc_def)

definition rc_row :: "nat \<Rightarrow> bool list" where
  "rc_row ir = take 7 (drop (7 * ir) rc_table)"

lemma length_rc_row: "ir < 24 \<Longrightarrow> length (rc_row ir) = 7"
  by (simp add: rc_row_def lfsr_table[symmetric])

lemma nth_rc_row: "ir < 24 \<Longrightarrow> j < 7 \<Longrightarrow> rc_row ir ! j = fips_rc (j + 7 * ir)"
  using fips_rc_table[of "j + 7 * ir"]
  by (simp add: rc_row_def lfsr_table[symmetric] add.commute)

text \<open>The constant with the given bits set.\<close>

fun row_word :: "nat \<Rightarrow> bool list \<Rightarrow> u64" where
  "row_word j [] = 0"
| "row_word j (b # bs) = (if b then push_bit (2 ^ j - 1) 1 OR row_word (Suc j) bs else row_word (Suc j) bs)"

lemma bit_row_word:
  "bit (row_word j bs) z \<longleftrightarrow> z < 64 \<and> (\<exists>i<length bs. bs ! i \<and> z = 2 ^ (j + i) - 1)"
proof (induction j bs rule: row_word.induct)
  case (1 j)
  then show ?case by simp
next
  case (2 j b bs)
  have ex: "(\<exists>i<length (b # bs). (b # bs) ! i \<and> z = 2 ^ (j + i) - 1) \<longleftrightarrow>
      (b \<and> z = 2 ^ j - 1) \<or> (\<exists>i<length bs. bs ! i \<and> z = 2 ^ (Suc j + i) - 1)"
    by (auto simp: less_Suc_eq_0_disj)
  show ?case
    unfolding ex using 2 by (auto simp: bit_or_iff bit_push_bit_iff bit_1_iff bit_exp_iff)
qed

lemma RC_rows: "RC = map (\<lambda>ir. row_word 0 (rc_row ir)) [0..<24]"
  by (simp add: RC_def rc_row_def rc_table_def upt_rec)

theorem RC_is_fips:
  assumes "ir < 24" and "z < 64"
  shows "bit (RC ! ir) z = fips_iota_bit ir z"
proof -
  have "bit (RC ! ir) z \<longleftrightarrow> (\<exists>j<7. rc_row ir ! j \<and> z = 2 ^ j - 1)"
    using assms by (simp add: RC_rows bit_row_word length_rc_row)
  also have "\<dots> \<longleftrightarrow> (\<exists>j\<in>{0..6}. z = 2 ^ j - 1 \<and> fips_rc (j + 7 * ir))"
    by (rule iffI; elim exE bexE conjE) (auto intro!: exI bexI simp: nth_rc_row[OF assms(1)])
  finally show ?thesis by (simp add: fips_iota_bit_def)
qed

section \<open>The permutation\<close>

definition agree :: "array3 \<Rightarrow> array3 \<Rightarrow> bool" where
  "agree A B \<longleftrightarrow> (\<forall>x<5. \<forall>y<5. \<forall>z<64. A x y z = B x y z)"

lemma agreeD: "agree A B \<Longrightarrow> x < 5 \<Longrightarrow> y < 5 \<Longrightarrow> z < 64 \<Longrightarrow> A x y z = B x y z"
  by (simp add: agree_def)

lemma agree_theta: "agree A B \<Longrightarrow> agree (fips_theta A) (fips_theta B)"
proof -
  assume ag: "agree A B"
  have C: "fips_C A x z = fips_C B x z" if "x < 5" "z < 64" for x z
    using that ag by (simp add: fips_C_def agree_def)
  show ?thesis
    using ag by (simp add: agree_def fips_theta_def C)
qed

lemma agree_rho: "agree A B \<Longrightarrow> agree (fips_rho A) (fips_rho B)"
  by (simp add: agree_def fips_rho_def)

lemma agree_pi: "agree A B \<Longrightarrow> agree (fips_pi A) (fips_pi B)"
  by (simp add: agree_def fips_pi_def)

lemma agree_chi: "agree A B \<Longrightarrow> agree (fips_chi A) (fips_chi B)"
  by (simp add: agree_def fips_chi_def)

lemma agree_round: "agree A B \<Longrightarrow> agree (fips_round ir A) (fips_round ir B)"
  unfolding fips_round_def
  by (drule agree_theta, drule agree_rho, drule agree_pi, drule agree_chi)
     (simp add: agree_def fips_iota_def)

lemma round_implements_fips:
  assumes "ir < 24"
  shows "agree (abs_state (keccak_round st (RC ! ir))) (fips_round ir (abs_state st))"
  using RC_is_fips[OF assms]
  by (simp add: agree_def fips_round_def fips_iota_def abs_state_def[of "keccak_round st (RC ! ir)"]
      bit_keccak_round)

definition fips_permutation :: "array3 \<Rightarrow> array3" where
  "fips_permutation A = fold fips_round [0..<24] A"

lemma keccak_f_rounds: "keccak_f st = fold (\<lambda>ir st. keccak_round st (RC ! ir)) [0..<24] st"
proof -
  have "RC = map ((!) RC) [0..<24]"
    using map_nth[of RC] by simp
  then have "keccak_f st = fold (\<lambda>rc st. keccak_round st rc) (map ((!) RC) [0..<24]) st"
    by (simp add: keccak_f_def)
  then show ?thesis by (simp only: fold_map comp_def)
qed

lemma length_keccak_f [simp, enc_len]: "length (keccak_f st) = 25"
  by (simp add: keccak_f_rounds upt_rec)

lemma rounds_agree:
  "\<forall>ir\<in>set irs. ir < 24 \<Longrightarrow> agree (abs_state st) A \<Longrightarrow>
     agree (abs_state (fold (\<lambda>ir st. keccak_round st (RC ! ir)) irs st)) (fold fips_round irs A)"
proof (induction irs arbitrary: st A)
  case Nil
  then show ?case by simp
next
  case (Cons ir irs)
  have "agree (abs_state (keccak_round st (RC ! ir))) (fips_round ir A)"
    using Cons.prems round_implements_fips[of ir st] agree_round[OF Cons.prems(2), of ir]
    by (simp add: agree_def)
  with Cons show ?case by simp
qed

lemma keccak_f_agrees: "agree (abs_state (keccak_f st)) (fips_permutation (abs_state st))"
  unfolding keccak_f_rounds fips_permutation_def
  by (rule rounds_agree) (simp_all add: agree_def)

section \<open>Properties\<close>

text \<open>C22: the native permutation is Keccak-f[1600] of FIPS 202: on every state, each bit \<open>(x, y, z)\<close> of
  the result is the bit the standard's 24 rounds of theta, rho, pi, chi and iota give.\<close>

theorem keccak_f_implements_fips202:
  "agree (abs_state (keccak_f state)) (fips_permutation (abs_state state))"
  by (rule keccak_f_agrees)

text \<open>The tables of the source are the ones FIPS 202 derives: the rotation offsets are those of the
  walk of rho, and bit \<open>z\<close> of each round constant is the one the shift register of iota gives.\<close>

theorem tables_are_fips202:
  "(\<forall>(x, y)\<in>set (rows 5 5). RHO ! (x + 5 * y) = fips_offset x y) \<and>
   (\<forall>ir<24. \<forall>z<64. bit (RC ! ir) z = fips_iota_bit ir z)"
  using RHO_is_fips_offset RC_is_fips by blast

theorem tables_are_fips202_witness:
  "RHO ! (3 + 5 * 2) = fips_offset 3 2 \<and> bit (RC ! 5) 31 = fips_iota_bit 5 31"
proof
  have "(3, 2) \<in> set (rows 5 5)" by (simp add: set_rows)
  with tables_are_fips202 show "RHO ! (3 + 5 * 2) = fips_offset 3 2" by fastforce
  show "bit (RC ! 5) 31 = fips_iota_bit 5 31" using tables_are_fips202 by simp
qed

end
