(* ===== verification/CircuitNative.thy ===== *)
theory CircuitNative
  imports Contexts Keccak
begin

text \<open>
  The native half of \<open>src/src/circuit.rs\<close>: the hash inputs of the protocol (scopes, credential and
  tag messages), the targets and tags computed from them with the crate's own SHAKE256, and the
  witness a prover hands to the proof system. A parameter set of the crate \<open>mayo\<close>, the field
  elements of \<open>binary-fields\<close> and the hash of \<open>sha3\<close> are the fields of the record \<open>suite\<close>.
\<close>

record mayo_params =
  P_N :: nat
  P_M :: nat
  P_O :: nat
  P_K :: nat
  P_KN :: nat
  P_NAME :: bytes
  P_WIRE_ID :: byte

record 'g suite = "'g gf16_ops" +
  sha3 :: xof
  mp :: mayo_params
  gf16_slice_as_bytes :: "'g list \<Rightarrow> bytes"

section \<open>Constants\<close>

definition CREDENTIAL_DOMAIN :: bytes where
  "CREDENTIAL_DOMAIN = ascii ''VOLE-ARC/credential/v1''"

definition SIGNED_CREDENTIAL_DOMAIN :: bytes where
  "SIGNED_CREDENTIAL_DOMAIN = ascii ''VOLE-ARC/signed/v1''"

definition TAG_DOMAIN :: bytes where
  "TAG_DOMAIN = ascii ''VOLE-ARC/tag/v1''"

definition SALT_BYTES :: nat where
  "SALT_BYTES = 32"

definition SECRET_BYTES :: nat where
  "SECRET_BYTES = 32"

definition HIDING_NONCE_BYTES :: nat where
  "HIDING_NONCE_BYTES = 32"

definition PRESENTATION_NONCE_BITS :: nat where
  "PRESENTATION_NONCE_BITS = 32"

definition KECCAK_CHECKPOINT_BITS :: nat where
  "KECCAK_CHECKPOINT_BITS = 6 * 1600"

section \<open>The issuer's public map\<close>

text \<open>
  \<open>whipped_system_and_visit_forms\<close> of the crate \<open>mayo\<close> returns the compact system and shows the
  visitor the entries of every quadratic form in order: the parameter \<open>visit\<close>.
\<close>

datatype 'sys mayo_form_system = MayoFormSystem (forms: 'sys)

definition public_key_message :: "('g, 'z) suite_scheme \<Rightarrow> 'g list list \<Rightarrow> bytes" where
  "public_key_message S visited =
     (let hash = ascii ''VOLE-ARC/mayo-public-key/v1'';
          hash = hash @ u64_to_le (of_nat (P_N (mp S)));
          hash = hash @ u64_to_le (of_nat (P_M (mp S)));
          hash = hash @ u64_to_le (of_nat (P_O (mp S)));
          hash = hash @ u64_to_le (of_nat (P_K (mp S)))
      in fold (\<lambda>form hash. hash @ gf16_slice_as_bytes S form) visited hash)"

definition mayo_system_and_hash ::
  "('g, 'z) suite_scheme \<Rightarrow> ('pk \<Rightarrow> 'sys \<times> 'g list list) \<Rightarrow> 'pk \<Rightarrow> 'sys mayo_form_system \<times> bytes" where
  "mayo_system_and_hash S visit public_key =
     (let (system, visited) = visit public_key
      in (MayoFormSystem system, sha3 S (public_key_message S visited) 32))"

section \<open>Scopes\<close>

definition scope_message :: "bytes \<Rightarrow> bytes list \<Rightarrow> bytes" where
  "scope_message domain parts = fold (\<lambda>part hash. hash @ part) parts domain"

definition hash_scope :: "xof \<Rightarrow> bytes \<Rightarrow> bytes list \<Rightarrow> bytes" where
  "hash_scope xof domain parts = xof (scope_message domain parts) 32"

definition credential_scope :: "xof \<Rightarrow> bytes \<Rightarrow> bytes \<Rightarrow> bytes" where
  "credential_scope xof issuer_context credential_context =
     hash_scope xof (ascii ''VOLE-ARC/credential-scope/v1'') [issuer_context, credential_context]"

definition presentation_scope :: "xof \<Rightarrow> bytes \<Rightarrow> bytes \<Rightarrow> bytes \<Rightarrow> bytes" where
  "presentation_scope xof issuer_context credential_context presentation_context =
     hash_scope xof (ascii ''VOLE-ARC/presentation-scope/v1'')
       [issuer_context, credential_context, presentation_context]"

section \<open>Messages, targets and tags\<close>

definition credential_message :: "bytes \<Rightarrow> bytes \<Rightarrow> bytes \<Rightarrow> bytes" where
  "credential_message scope secret hiding_nonce =
     CREDENTIAL_DOMAIN @ scope @ secret @ hiding_nonce"

definition div_ceil :: "nat \<Rightarrow> nat \<Rightarrow> nat" where
  "div_ceil a b = (if a mod b = 0 then a div b else a div b + 1)"

text \<open>The nibbles of a hash output, low nibble first: the closing expression of both targets.\<close>

definition output_nibbles :: "('g, 'z) suite_scheme \<Rightarrow> bytes \<Rightarrow> 'g list" where
  "output_nibbles S output =
     map (\<lambda>index. gf16_new S (drop_bit (4 * (index mod 2)) (output ! (index div 2)) AND 0x0f))
       [0..<P_M (mp S)]"

definition credential_target :: "('g, 'z) suite_scheme \<Rightarrow> bytes \<Rightarrow> bytes \<Rightarrow> bytes \<Rightarrow> 'g list" where
  "credential_target S scope secret hiding_nonce =
     (let output = shake256 (credential_message scope secret hiding_nonce) (div_ceil (P_M (mp S)) 2)
      in output_nibbles S output)"

fun pack_gf16 :: "('g, 'z) gf16_ops_scheme \<Rightarrow> 'g list \<Rightarrow> bytes" where
  "pack_gf16 G [] = []"
| "pack_gf16 G [v] = [gf16_to_u8 G v OR push_bit 4 0]"
| "pack_gf16 G (v # w # vs) = (gf16_to_u8 G v OR push_bit 4 (gf16_to_u8 G w)) # pack_gf16 G vs"

definition signed_credential_message :: "('g, 'z) suite_scheme \<Rightarrow> 'g list \<Rightarrow> bytes \<Rightarrow> bytes" where
  "signed_credential_message S commitment salt =
     (let packed = pack_gf16 S commitment in SIGNED_CREDENTIAL_DOMAIN @ packed @ salt)"

definition signed_credential_target :: "('g, 'z) suite_scheme \<Rightarrow> 'g list \<Rightarrow> bytes \<Rightarrow> 'g list" where
  "signed_credential_target S commitment salt =
     (let output = shake256 (signed_credential_message S commitment salt) (div_ceil (P_M (mp S)) 2)
      in output_nibbles S output)"

definition tag_message :: "bytes \<Rightarrow> bytes \<Rightarrow> u32 \<Rightarrow> bytes" where
  "tag_message secret scope nonce = TAG_DOMAIN @ secret @ scope @ u32_to_le nonce"

definition derive_tag :: "bytes \<Rightarrow> bytes \<Rightarrow> u32 \<Rightarrow> bytes" where
  "derive_tag secret scope nonce = shake256 (tag_message secret scope nonce) 32"

section \<open>Bits\<close>

definition bytes_bits :: "bytes \<Rightarrow> bool list" where
  "bytes_bits bs = concat (map (\<lambda>byte. map (\<lambda>k. drop_bit k byte AND 1 = 1) [0..<8]) bs)"

definition gf16_bits :: "('g, 'z) gf16_ops_scheme \<Rightarrow> 'g list \<Rightarrow> bool list" where
  "gf16_bits G vs = concat (map (\<lambda>v. map (\<lambda>k. drop_bit k (gf16_to_u8 G v) AND 1 = 1) [0..<4]) vs)"

definition append_bytes_bits :: "bool list \<Rightarrow> bytes \<Rightarrow> bool list" where
  "append_bytes_bits output bs =
     output @ concat (map (\<lambda>byte. map (\<lambda>k. drop_bit k byte AND 1 = 1) [0..<8]) bs)"

definition append_gf16_bits :: "('g, 'z) gf16_ops_scheme \<Rightarrow> bool list \<Rightarrow> 'g list \<Rightarrow> bool list" where
  "append_gf16_bits G output vs =
     output @ concat (map (\<lambda>v. map (\<lambda>k. drop_bit k (gf16_to_u8 G v) AND 1 = 1) [0..<4]) vs)"

definition append_u32_bits :: "bool list \<Rightarrow> u32 \<Rightarrow> bool list" where
  "append_u32_bits output v =
     output @ map (\<lambda>k. drop_bit k v AND 1 = 1) [0..<PRESENTATION_NONCE_BITS]"

text \<open>One turn of the carry loop: the output so far and the running carry.\<close>

definition carry_step :: "u32 \<Rightarrow> u32 \<Rightarrow> nat \<Rightarrow> bool list \<times> u32 \<Rightarrow> bool list \<times> u32" where
  "carry_step v limit k = (\<lambda>(output, carry).
     let a = drop_bit k v AND 1;
         b = drop_bit k (NOT limit) AND 1;
         carry = (a AND b) OR (a AND carry) OR (b AND carry)
     in (output @ [carry = 1], carry))"

definition append_less_than_carries :: "bool list \<Rightarrow> u32 \<Rightarrow> u32 \<Rightarrow> bool list" where
  "append_less_than_carries output v limit =
     fst (fold (carry_step v limit) [0..<PRESENTATION_NONCE_BITS] (output, 1))"

text \<open>The checkpoints of the permutation; the panic of \<open>pad_single_block\<close> is \<open>None\<close>.\<close>

definition append_keccak_checkpoints :: "bool list \<Rightarrow> bytes \<Rightarrow> bool list option" where
  "append_keccak_checkpoints witness message =
     Option.bind (pad_single_block message) (\<lambda>block.
       let state = absorb_block (replicate 25 0) block
       in Some (fst (fold (\<lambda>(round_index, round_constant) (witness, state).
            let state = keccak_round state round_constant
            in (if (round_index + 1) mod 4 = 0
                then witness @ map (state_bit state) [0..<1600] else witness, state))
          (enumerate 0 RC) (witness, state))))"

section \<open>Statements and witnesses\<close>

record 'g issue_circuit =
  ic_credential_scope :: bytes
  ic_target :: "'g list"

definition issue_witness :: "'g issue_circuit \<Rightarrow> bytes \<Rightarrow> bytes \<Rightarrow> bool list option" where
  "issue_witness C secret hiding_nonce =
     (let witness = append_bytes_bits [] secret;
          witness = append_bytes_bits witness hiding_nonce
      in append_keccak_checkpoints witness
           (credential_message (ic_credential_scope C) secret hiding_nonce))"

record 'sys presentation_circuit =
  pc_mayo_system :: "'sys mayo_form_system"
  pc_credential_scope :: bytes
  pc_presentation_scope :: bytes
  pc_presentation_limit :: u32
  pc_tag :: bytes

record 'g presentation_secrets =
  ps_signature :: "'g list"
  ps_secret :: bytes
  ps_hiding_nonce :: bytes
  ps_salt :: bytes
  ps_presentation_nonce :: u32

definition presentation_witness ::
  "('g, 'z) suite_scheme \<Rightarrow> 'sys presentation_circuit \<Rightarrow> 'g presentation_secrets \<Rightarrow> bool list option" where
  "presentation_witness S C secrets =
     (let witness = append_gf16_bits S [] (ps_signature secrets);
          witness = append_bytes_bits witness (ps_secret secrets);
          witness = append_bytes_bits witness (ps_hiding_nonce secrets);
          witness = append_bytes_bits witness (ps_salt secrets);
          witness = append_u32_bits witness (ps_presentation_nonce secrets);
          witness = append_less_than_carries witness
            (ps_presentation_nonce secrets) (pc_presentation_limit C);
          commitment = credential_target S (pc_credential_scope C)
            (ps_secret secrets) (ps_hiding_nonce secrets)
      in Option.bind (append_keccak_checkpoints witness
             (credential_message (pc_credential_scope C) (ps_secret secrets) (ps_hiding_nonce secrets)))
         (\<lambda>witness. Option.bind (append_keccak_checkpoints witness
             (signed_credential_message S commitment (ps_salt secrets)))
         (\<lambda>witness. append_keccak_checkpoints witness
             (tag_message (ps_secret secrets) (pc_presentation_scope C) (ps_presentation_nonce secrets)))))"

end
