(* ===== verification/CircuitBuild.thy ===== *)
theory CircuitBuild
  imports CircuitNative
begin

text \<open>
  The in-circuit half of \<open>src/src/circuit.rs\<close>. The source builds its circuits against the trait
  \<open>Backend\<close> of the crate \<open>voleith\<close>; here a backend is the parameter record \<open>backend\<close> of the methods the
  source calls, each a computation in the state monad over the backend's own state \<open>'s\<close>. Wires \<open>'w\<close>
  and expressions \<open>'e\<close> are opaque. The field \<open>GF2p128\<close> is the type \<open>'f\<close>, of which the source uses
  \<open>ZERO\<close>, \<open>ONE\<close> and the images \<open>embed_gf16\<close> of the field elements. A loop that calls the backend is
  \<open>traverse_list\<close> (the results are collected in the order of the index) or \<open>loop\<close> (a running value).
\<close>

record ('s, 'f, 'w, 'e, 'sys) backend =
  witness_bit :: "('s, vole_error + 'w) state"
  constant_wire :: "'f \<Rightarrow> ('s, 'w) state"
  add :: "'w \<Rightarrow> 'w \<Rightarrow> ('s, 'w) state"
  scale :: "'f \<Rightarrow> 'w \<Rightarrow> ('s, 'w) state"
  assert_zero :: "'w \<Rightarrow> ('s, unit) state"
  wire_expr :: "'w \<Rightarrow> ('s, 'e) state"
  expr_add :: "'e \<Rightarrow> 'e \<Rightarrow> ('s, 'e) state"
  expr_mul :: "'e \<Rightarrow> 'e \<Rightarrow> ('s, 'e) state"
  assert_expr_zero :: "'e \<Rightarrow> ('s, unit) state"
  assert_quad_form_system :: "'w list \<Rightarrow> 'sys \<Rightarrow> 'w list \<Rightarrow> ('s, unit) state"

section \<open>Control flow\<close>

abbreviation ret :: "'a \<Rightarrow> ('s, 'a) state" where
  "ret \<equiv> State_Monad.return"

text \<open>The \<open>?\<close> operator inside a stateful computation.\<close>

definition try_bind ::
  "('s, 'err + 'a) state \<Rightarrow> ('a \<Rightarrow> ('s, 'err + 'b) state) \<Rightarrow> ('s, 'err + 'b) state" where
  "try_bind m f = State_Monad.bind m (\<lambda>r. case r of Inl e \<Rightarrow> ret (Inl e) | Inr x \<Rightarrow> f x)"

fun loop :: "('i \<Rightarrow> 'a \<Rightarrow> ('s, 'a) state) \<Rightarrow> 'i list \<Rightarrow> 'a \<Rightarrow> ('s, 'a) state" where
  "loop f [] a = ret a"
| "loop f (i # is) a = do { a \<leftarrow> f i a; loop f is a }"

fun try_loop ::
  "('i \<Rightarrow> 'a \<Rightarrow> ('s, 'err + 'a) state) \<Rightarrow> 'i list \<Rightarrow> 'a \<Rightarrow> ('s, 'err + 'a) state" where
  "try_loop f [] a = ret (Inr a)"
| "try_loop f (i # is) a = try_bind (f i a) (\<lambda>a. try_loop f is a)"

section \<open>Wires and constants\<close>

fun alloc_bits :: "('s, 'f, 'w, 'e, 'sys) backend \<Rightarrow> nat \<Rightarrow> ('s, vole_error + 'w list) state" where
  "alloc_bits B 0 = ret (Inr [])"
| "alloc_bits B (Suc count) =
     try_bind (witness_bit B) (\<lambda>w. try_bind (alloc_bits B count) (\<lambda>ws. ret (Inr (w # ws))))"

definition constant_bit :: "('s, 'f::{zero,one}, 'w, 'e, 'sys) backend \<Rightarrow> bool \<Rightarrow> ('s, 'w) state" where
  "constant_bit B b = constant_wire B (if b then 1 else 0)"

definition constant_bytes ::
  "('s, 'f::{zero,one}, 'w, 'e, 'sys) backend \<Rightarrow> bytes \<Rightarrow> ('s, 'w list) state" where
  "constant_bytes B bs = State_Monad.traverse_list (constant_bit B) (bytes_bits bs)"

definition lift_gf16 ::
  "('s, 'f::{zero,one}, 'w, 'e, 'sys) backend \<Rightarrow> ('g, 'z) gf16_ops_scheme \<Rightarrow> ('g \<Rightarrow> 'f) \<Rightarrow>
     'w list \<Rightarrow> ('s, 'w) state" where
  "lift_gf16 B G emb bits = do {
     accumulator \<leftarrow> constant_wire B 0;
     loop (\<lambda>(bit_index, b) accumulator. do {
       term \<leftarrow> scale B (emb (gf16_new G (push_bit bit_index 1))) b;
       add B accumulator term
     }) (enumerate 0 bits) accumulator
   }"

text \<open>The slices of \<open>bits.chunks(4)\<close>; the last one may be short.\<close>

fun chunks4 :: "'a list \<Rightarrow> 'a list list" where
  "chunks4 (a # b # c # d # rest) = [a, b, c, d] # chunks4 rest"
| "chunks4 [] = []"
| "chunks4 short = [short]"

definition lift_nibbles ::
  "('s, 'f::{zero,one}, 'w, 'e, 'sys) backend \<Rightarrow> ('g, 'z) gf16_ops_scheme \<Rightarrow> ('g \<Rightarrow> 'f) \<Rightarrow>
     'w list \<Rightarrow> ('s, 'w list) state" where
  "lift_nibbles B G emb bits =
     State_Monad.traverse_list (lift_gf16 B G emb) (chunks4 bits)"

definition target_constant_bits ::
  "('s, 'f::{zero,one}, 'w, 'e, 'sys) backend \<Rightarrow> ('g, 'z) gf16_ops_scheme \<Rightarrow> 'g list \<Rightarrow>
     ('s, 'w list) state" where
  "target_constant_bits B G target = State_Monad.traverse_list (constant_bit B) (gf16_bits G target)"

section \<open>The sponge in the circuit\<close>

definition initial_sponge_state ::
  "('s, 'f::{zero,one}, 'w, 'e, 'sys) backend \<Rightarrow> 'w list \<Rightarrow> ('s, 'w list) state" where
  "initial_sponge_state B message = do {
     zero \<leftarrow> constant_wire B 0;
     one \<leftarrow> constant_wire B 1;
     let state = replicate 1600 zero;
     let state = take 1600 message @ drop (length message) state;
     let message_byte = length message div 8;
     let state = fold (\<lambda>k state.
           if drop_bit k (0x1f :: byte) AND 1 = 1 then state[message_byte * 8 + k := one] else state)
         [0..<8] state;
     ret (state[RATE_BYTES * 8 - 1 := one])
   }"

definition keccak_linear_expr ::
  "('s, 'f::{zero,one}, 'w, 'e, 'sys) backend \<Rightarrow> 'e list \<Rightarrow> ('s, 'e list) state" where
  "keccak_linear_expr B state = do {
     zero \<leftarrow> constant_wire B 0;
     zero \<leftarrow> wire_expr B zero;
     columns \<leftarrow> State_Monad.traverse_list (\<lambda>i.
         let x = i div 64; z = i mod 64 in
         loop (\<lambda>y parity. expr_add B parity (state ! (64 * (x + 5 * y) + z))) [0..<5] zero)
       [0..<5 * 64];
     State_Monad.traverse_list (\<lambda>i.
         let x = (i div 64) mod 5; y = (i div 64) div 5; z = i mod 64;
             left = columns ! (64 * ((x + 4) mod 5) + z);
             right = columns ! (64 * ((x + 1) mod 5) + (z + 63) mod 64)
         in do {
           delta \<leftarrow> expr_add B left right;
           expr_add B (state ! (64 * (x + 5 * y) + z)) delta
         })
       [0..<1600]
   }"

definition pi_rho_index :: "nat list" where
  "pi_rho_index =
     scatter (\<lambda>(z, x, y). 64 * (y + 5 * ((2 * x + 3 * y) mod 5)) + z)
       (\<lambda>(z, x, y). 64 * (x + 5 * y) + (z + 64 - RHO ! (x + 5 * y)) mod 64)
       (concat (map (\<lambda>(x, y). map (\<lambda>z. (z, x, y)) [0..<64]) (rows 5 5)))
       (replicate 1600 0)"

definition keccak_round_expr ::
  "('s, 'f::{zero,one}, 'w, 'e, 'sys) backend \<Rightarrow> 'e list \<Rightarrow> u64 \<Rightarrow> ('s, 'e list) state" where
  "keccak_round_expr B state round_constant = do {
     theta \<leftarrow> keccak_linear_expr B state;
     let permutation = pi_rho_index;
     one \<leftarrow> constant_wire B 1;
     one \<leftarrow> wire_expr B one;
     State_Monad.traverse_list (\<lambda>bit_index.
         let lane = bit_index div 64; z = bit_index mod 64; x = lane mod 5; y = lane div 5;
             first = theta ! (permutation ! (64 * (x + 5 * y) + z));
             second = theta ! (permutation ! (64 * ((x + 1) mod 5 + 5 * y) + z));
             third = theta ! (permutation ! (64 * ((x + 2) mod 5 + 5 * y) + z))
         in do {
           not_second \<leftarrow> expr_add B one second;
           product \<leftarrow> expr_mul B not_second third;
           b \<leftarrow> expr_add B first product;
           if lane = 0 \<and> drop_bit z round_constant AND 1 = 1 then expr_add B b one else ret b
         })
       [0..<1600]
   }"

definition shake_degree16 ::
  "('s, 'f::{zero,one}, 'w, 'e, 'sys) backend \<Rightarrow> 'w list \<Rightarrow> ('s, vole_error + 'w list) state" where
  "shake_degree16 B message = do {
     state \<leftarrow> initial_sponge_state B message;
     try_loop (\<lambda>group state.
         try_bind (alloc_bits B 1600) (\<lambda>checkpoint. do {
           expression \<leftarrow> State_Monad.traverse_list (wire_expr B) state;
           expression \<leftarrow> loop (\<lambda>round expression. keccak_round_expr B expression (RC ! (4 * group + round)))
             [0..<4] expression;
           _ \<leftarrow> State_Monad.traverse_list (\<lambda>(computed, committed). do {
               committed \<leftarrow> wire_expr B committed;
               difference \<leftarrow> expr_add B computed committed;
               assert_expr_zero B difference
             }) (zip expression checkpoint);
           ret (Inr checkpoint)
         }))
       [0..<length RC div 4] state
   }"

definition shake_hidden_output ::
  "('s, 'f::{zero,one}, 'w, 'e, 'sys) backend \<Rightarrow> 'w list \<Rightarrow> nat \<Rightarrow> ('s, vole_error + 'w list) state" where
  "shake_hidden_output B message output_bits =
     try_bind (shake_degree16 B message) (\<lambda>state. ret (Inr (take output_bits state)))"

definition shake_assert_output ::
  "('s, 'f::{zero,one}, 'w, 'e, 'sys) backend \<Rightarrow> 'w list \<Rightarrow> 'w list \<Rightarrow> ('s, vole_error + unit) state" where
  "shake_assert_output B message expected =
     try_bind (shake_degree16 B message) (\<lambda>state. do {
       _ \<leftarrow> State_Monad.traverse_list (\<lambda>(actual, expected). do {
           difference \<leftarrow> add B actual expected;
           assert_zero B difference
         }) (zip state expected);
       ret (Inr ())
     })"

section \<open>Messages in the circuit\<close>

definition credential_wires ::
  "('s, 'f::{zero,one}, 'w, 'e, 'sys) backend \<Rightarrow> bytes \<Rightarrow> 'w list \<Rightarrow> 'w list \<Rightarrow> ('s, 'w list) state" where
  "credential_wires B scope secret hiding_nonce = do {
     message \<leftarrow> constant_bytes B CREDENTIAL_DOMAIN;
     scope \<leftarrow> constant_bytes B scope;
     ret (message @ scope @ secret @ hiding_nonce)
   }"

text \<open>\<open>while !message.len().is_multiple_of(8) { message.push(constant_bit(backend, false)) }\<close>.\<close>

function pad_to_byte ::
  "('s, 'f::{zero,one}, 'w, 'e, 'sys) backend \<Rightarrow> 'w list \<Rightarrow> ('s, 'w list) state" where
  "pad_to_byte B message =
     (if length message mod 8 = 0 then ret message
      else do { w \<leftarrow> constant_bit B False; pad_to_byte B (message @ [w]) })"
  by pat_completeness auto
termination
proof (relation "measure (\<lambda>(B, message). (8 - length message mod 8) mod 8)")
  fix B and message :: "'w list" and w
  assume "length message mod 8 \<noteq> 0"
  then have "(8 - Suc (length message) mod 8) mod 8 < (8 - length message mod 8) mod 8"
    by (cases "length message mod 8 = 7") (auto simp: mod_Suc)
  then show "((B, message @ [w]), (B, message)) \<in> measure (\<lambda>(B, message). (8 - length message mod 8) mod 8)"
    by simp
qed simp

declare pad_to_byte.simps [simp del]

definition signed_credential_wires ::
  "('s, 'f::{zero,one}, 'w, 'e, 'sys) backend \<Rightarrow> 'w list \<Rightarrow> 'w list \<Rightarrow> ('s, 'w list) state" where
  "signed_credential_wires B commitment salt = do {
     message \<leftarrow> constant_bytes B SIGNED_CREDENTIAL_DOMAIN;
     let message = message @ commitment;
     message \<leftarrow> pad_to_byte B message;
     ret (message @ salt)
   }"

definition tag_wires ::
  "('s, 'f::{zero,one}, 'w, 'e, 'sys) backend \<Rightarrow> 'w list \<Rightarrow> bytes \<Rightarrow> 'w list \<Rightarrow> ('s, 'w list) state" where
  "tag_wires B secret scope nonce = do {
     message \<leftarrow> constant_bytes B TAG_DOMAIN;
     let message = message @ secret;
     scope \<leftarrow> constant_bytes B scope;
     ret (message @ scope @ nonce)
   }"

section \<open>The comparison\<close>

definition assert_u32_less_than ::
  "('s, 'f::{zero,one}, 'w, 'e, 'sys) backend \<Rightarrow> 'w list \<Rightarrow> 'w list \<Rightarrow> u32 \<Rightarrow> ('s, unit) state" where
  "assert_u32_less_than B v carries limit = do {
     one \<leftarrow> constant_wire B 1;
     carry_in \<leftarrow> loop (\<lambda>k carry_in. do {
         a \<leftarrow> wire_expr B (v ! k);
         carry \<leftarrow> wire_expr B carry_in;
         equation \<leftarrow> wire_expr B (carries ! k);
         let b = (drop_bit k (NOT limit) AND 1 = 1);
         equation \<leftarrow> (if b then expr_add B equation a else ret equation);
         a_times_carry \<leftarrow> expr_mul B a carry;
         equation \<leftarrow> expr_add B equation a_times_carry;
         equation \<leftarrow> (if b then expr_add B equation carry else ret equation);
         _ \<leftarrow> assert_expr_zero B equation;
         ret (carries ! k)
       }) [0..<PRESENTATION_NONCE_BITS] one;
     assert_zero B carry_in
   }"

section \<open>The two circuits\<close>

definition issue_build ::
  "('s, 'f::{zero,one}, 'w, 'e, 'sys) backend \<Rightarrow> ('g, 'z) suite_scheme \<Rightarrow> 'g issue_circuit \<Rightarrow>
     ('s, vole_error + unit) state" where
  "issue_build B S C =
     (if length (ic_target C) \<noteq> P_M (mp S) then ret (Inl InvalidParameters)
      else
        try_bind (alloc_bits B (SECRET_BYTES * 8)) (\<lambda>secret.
        try_bind (alloc_bits B (HIDING_NONCE_BYTES * 8)) (\<lambda>hiding_nonce. do {
          message \<leftarrow> credential_wires B (ic_credential_scope C) secret hiding_nonce;
          target \<leftarrow> target_constant_bits B S (ic_target C);
          shake_assert_output B message target
        })))"

definition presentation_build ::
  "('s, 'f::{zero,one}, 'w, 'e, 'sys) backend \<Rightarrow> ('g, 'z) suite_scheme \<Rightarrow> ('g \<Rightarrow> 'f) \<Rightarrow>
     'sys presentation_circuit \<Rightarrow> ('s, vole_error + unit) state" where
  "presentation_build B S emb C =
     (if pc_presentation_limit C = 0 \<or>
         length SIGNED_CREDENTIAL_DOMAIN + div_ceil (P_M (mp S)) 2 + SALT_BYTES \<ge> RATE_BYTES
      then ret (Inl InvalidParameters)
      else
        try_bind (alloc_bits B (4 * P_KN (mp S))) (\<lambda>signature_bits. do {
        signature \<leftarrow> lift_nibbles B S emb signature_bits;
        try_bind (alloc_bits B (SECRET_BYTES * 8)) (\<lambda>secret.
        try_bind (alloc_bits B (HIDING_NONCE_BYTES * 8)) (\<lambda>hiding_nonce.
        try_bind (alloc_bits B (SALT_BYTES * 8)) (\<lambda>salt.
        try_bind (alloc_bits B PRESENTATION_NONCE_BITS) (\<lambda>presentation_nonce.
        try_bind (alloc_bits B PRESENTATION_NONCE_BITS) (\<lambda>carries. do {
          _ \<leftarrow> assert_u32_less_than B presentation_nonce carries (pc_presentation_limit C);
          credential_message \<leftarrow> credential_wires B (pc_credential_scope C) secret hiding_nonce;
          try_bind (shake_hidden_output B credential_message (4 * P_M (mp S))) (\<lambda>commitment_bits. do {
            signed_message \<leftarrow> signed_credential_wires B commitment_bits salt;
            try_bind (shake_hidden_output B signed_message (4 * P_M (mp S))) (\<lambda>signed_target_bits. do {
              signed_target \<leftarrow> lift_nibbles B S emb signed_target_bits;
              _ \<leftarrow> assert_quad_form_system B signature (forms (pc_mayo_system C)) signed_target;
              tag_message \<leftarrow> tag_wires B secret (pc_presentation_scope C) presentation_nonce;
              expected_tag \<leftarrow> constant_bytes B (pc_tag C);
              shake_assert_output B tag_message expected_tag
            })
          })
        })))))
        }))"

end
