(* ===== verification/CircuitLogic.thy ===== *)
theory CircuitLogic
  imports CircuitBuild
begin

text \<open>
  A program logic for circuits. The locale \<open>backend_logic\<close> is the contract of a backend that
  evaluates: every wire and expression has a value, a witness bit is the next pending one, and an
  assertion is recorded in \<open>holds\<close>. \<open>exec\<close> and \<open>execR\<close> describe a computation against such a backend:
  what it returns, how many witness bits it takes, and which constraint it adds. The locale
  \<open>binary_backend\<close> adds that the field has characteristic two. \<open>check_backend\<close>, which evaluates a
  circuit on a plain witness, is the backend the contract is discharged for.
\<close>

section \<open>Evaluating backends\<close>

locale backend_logic =
  fixes B :: "('s, 'f::comm_ring_1, 'w, 'e, 'sys) backend"
    and wval :: "'w \<Rightarrow> 'f"
    and eval :: "'e \<Rightarrow> 'f"
    and pending :: "'s \<Rightarrow> bool list"
    and holds :: "'s \<Rightarrow> bool"
    and system_holds :: "'f list \<Rightarrow> 'sys \<Rightarrow> 'f list \<Rightarrow> bool"
  assumes witness_none:
      "pending s = [] \<Longrightarrow> \<exists>e s'. run_state (witness_bit B) s = (Inl e, s')"
    and witness_some:
      "pending s = b # bs \<Longrightarrow> \<exists>w s'. run_state (witness_bit B) s = (Inr w, s') \<and>
         wval w = of_bool b \<and> pending s' = bs \<and> holds s' = holds s"
    and constant_ok: "\<exists>w s'. run_state (constant_wire B c) s = (w, s') \<and>
         pending s' = pending s \<and> holds s' = holds s \<and> wval w = c"
    and add_ok: "\<exists>w s'. run_state (add B u v) s = (w, s') \<and>
         pending s' = pending s \<and> holds s' = holds s \<and> wval w = wval u + wval v"
    and scale_ok: "\<exists>w s'. run_state (scale B c v) s = (w, s') \<and>
         pending s' = pending s \<and> holds s' = holds s \<and> wval w = c * wval v"
    and assert_zero_ok: "\<exists>s'. run_state (assert_zero B v) s = ((), s') \<and>
         pending s' = pending s \<and> holds s' = (holds s \<and> wval v = 0)"
    and wire_expr_ok: "\<exists>e s'. run_state (wire_expr B v) s = (e, s') \<and>
         pending s' = pending s \<and> holds s' = holds s \<and> eval e = wval v"
    and expr_add_ok: "\<exists>e s'. run_state (expr_add B x y) s = (e, s') \<and>
         pending s' = pending s \<and> holds s' = holds s \<and> eval e = eval x + eval y"
    and expr_mul_ok: "\<exists>e s'. run_state (expr_mul B x y) s = (e, s') \<and>
         pending s' = pending s \<and> holds s' = holds s \<and> eval e = eval x * eval y"
    and assert_expr_zero_ok: "\<exists>s'. run_state (assert_expr_zero B x) s = ((), s') \<and>
         pending s' = pending s \<and> holds s' = (holds s \<and> eval x = 0)"
    and assert_system_ok: "\<exists>s'. run_state (assert_quad_form_system B vs sys ts) s = ((), s') \<and>
         pending s' = pending s \<and> holds s' = (holds s \<and> system_holds (map wval vs) sys (map wval ts))"
begin

text \<open>A computation that takes no witness bit: \<open>P\<close> holds of its result, \<open>c\<close> is what it asserts.\<close>

definition exec :: "('s, 'a) state \<Rightarrow> ('a \<Rightarrow> bool) \<Rightarrow> bool \<Rightarrow> bool" where
  "exec m P c \<longleftrightarrow> (\<forall>s. \<exists>x s'. run_state m s = (x, s') \<and> pending s' = pending s \<and>
     holds s' = (holds s \<and> c) \<and> P x)"

text \<open>
  A computation that takes \<open>n\<close> witness bits: an error when there are fewer; otherwise \<open>Q bs\<close> holds
  of its result and \<open>c bs\<close> is what it asserts, for the \<open>n\<close> bits \<open>bs\<close> it takes.
\<close>

definition execR ::
  "('s, 'err + 'a) state \<Rightarrow> nat \<Rightarrow> (bool list \<Rightarrow> 'a \<Rightarrow> bool) \<Rightarrow> (bool list \<Rightarrow> bool) \<Rightarrow> bool" where
  "execR m n Q c \<longleftrightarrow> (\<forall>s. if length (pending s) < n
     then \<exists>e s'. run_state m s = (Inl e, s')
     else \<exists>x s'. run_state m s = (Inr x, s') \<and> pending s' = drop n (pending s) \<and>
       holds s' = (holds s \<and> c (take n (pending s))) \<and> Q (take n (pending s)) x)"

subsection \<open>Rules\<close>

lemma exec_ret: "P x \<Longrightarrow> exec (ret x) P True"
  by (simp add: exec_def)

lemma exec_bind:
  assumes m: "exec m P c" and f: "\<And>x. P x \<Longrightarrow> exec (f x) Q d"
  shows "exec (State_Monad.bind m f) Q (c \<and> d)"
  unfolding exec_def
proof
  fix s
  from m obtain x s' where x: "run_state m s = (x, s')" "pending s' = pending s"
      "holds s' = (holds s \<and> c)" "P x"
    unfolding exec_def by blast
  from f[OF \<open>P x\<close>] obtain y s'' where y: "run_state (f x) s' = (y, s'')" "pending s'' = pending s'"
      "holds s'' = (holds s' \<and> d)" "Q y"
    unfolding exec_def by blast
  show "\<exists>y s''. run_state (State_Monad.bind m f) s = (y, s'') \<and> pending s'' = pending s \<and>
      holds s'' = (holds s \<and> c \<and> d) \<and> Q y"
    using x y by auto
qed

lemma exec_weaken: "exec m P c \<Longrightarrow> (\<And>x. P x \<Longrightarrow> Q x) \<Longrightarrow> c = d \<Longrightarrow> exec m Q d"
  unfolding exec_def by blast

lemma execR_weaken:
  assumes "execR m n P c"
    and "\<And>bs x. length bs = n \<Longrightarrow> P bs x \<Longrightarrow> Q bs x"
    and "\<And>bs. length bs = n \<Longrightarrow> c bs = d bs"
  shows "execR m n Q d"
  unfolding execR_def
proof
  fix s
  have "length (take n (pending s)) = n" if "\<not> length (pending s) < n" using that by simp
  then show "if length (pending s) < n then \<exists>e s'. run_state m s = (Inl e, s')
      else \<exists>x s'. run_state m s = (Inr x, s') \<and> pending s' = drop n (pending s) \<and>
        holds s' = (holds s \<and> d (take n (pending s))) \<and> Q (take n (pending s)) x"
    using assms unfolding execR_def by (smt (verit, best))
qed

lemma execR_ret: "Q [] x \<Longrightarrow> execR (ret (Inr x)) 0 Q (\<lambda>_. True)"
  by (simp add: execR_def)

lemma execR_lift: "exec m P c \<Longrightarrow> (\<And>x. P x \<Longrightarrow> execR (f x) n Q d) \<Longrightarrow>
    execR (State_Monad.bind m f) n Q (\<lambda>bs. c \<and> d bs)"
  unfolding execR_def
proof
  fix s
  assume m: "exec m P c" and f: "\<And>x. P x \<Longrightarrow> \<forall>s. if length (pending s) < n
     then \<exists>e s'. run_state (f x) s = (Inl e, s')
     else \<exists>y s'. run_state (f x) s = (Inr y, s') \<and> pending s' = drop n (pending s) \<and>
       holds s' = (holds s \<and> d (take n (pending s))) \<and> Q (take n (pending s)) y"
  from m obtain x s' where x: "run_state m s = (x, s')" "pending s' = pending s"
      "holds s' = (holds s \<and> c)" "P x"
    unfolding exec_def by blast
  show "if length (pending s) < n
     then \<exists>e s'. run_state (State_Monad.bind m f) s = (Inl e, s')
     else \<exists>y s'. run_state (State_Monad.bind m f) s = (Inr y, s') \<and> pending s' = drop n (pending s) \<and>
       holds s' = (holds s \<and> c \<and> d (take n (pending s))) \<and> Q (take n (pending s)) y"
    using f[OF x(4), rule_format, of s'] x by (auto split: if_splits)
qed

lemma execR_bind:
  assumes m: "execR m n P c"
    and f: "\<And>bs x. length bs = n \<Longrightarrow> P bs x \<Longrightarrow> execR (f x) k (Q bs) (d bs)"
  shows "execR (try_bind m f) (n + k) (\<lambda>bs. Q (take n bs) (drop n bs))
    (\<lambda>bs. c (take n bs) \<and> d (take n bs) (drop n bs))"
  unfolding execR_def
proof
  fix s
  let ?T = "if length (pending s) < n + k then \<exists>e s'. run_state (try_bind m f) s = (Inl e, s')
     else \<exists>y s'. run_state (try_bind m f) s = (Inr y, s') \<and> pending s' = drop (n + k) (pending s) \<and>
       holds s' = (holds s \<and> c (take n (take (n + k) (pending s))) \<and>
          d (take n (take (n + k) (pending s))) (drop n (take (n + k) (pending s)))) \<and>
       Q (take n (take (n + k) (pending s))) (drop n (take (n + k) (pending s))) y"
  show ?T
  proof (cases "length (pending s) < n")
    case True
    with m obtain e s' where "run_state m s = (Inl e, s')"
      unfolding execR_def by meson
    with True show ?T by (auto simp: try_bind_def)
  next
    case False
    with m obtain x s' where x: "run_state m s = (Inr x, s')" "pending s' = drop n (pending s)"
        "holds s' = (holds s \<and> c (take n (pending s)))" "P (take n (pending s)) x"
      unfolding execR_def by meson
    have "length (take n (pending s)) = n" using False by simp
    from f[OF this x(4)] have "execR (f x) k (Q (take n (pending s))) (d (take n (pending s)))" .
    then have fx: "if length (pending s') < k then \<exists>e s''. run_state (f x) s' = (Inl e, s'')
     else \<exists>y s''. run_state (f x) s' = (Inr y, s'') \<and> pending s'' = drop k (pending s') \<and>
       holds s'' = (holds s' \<and> d (take n (pending s)) (take k (pending s'))) \<and>
       Q (take n (pending s)) (take k (pending s')) y"
      unfolding execR_def by blast
    have run: "run_state (try_bind m f) s = run_state (f x) s'"
      using x(1) by (simp add: try_bind_def)
    have len: "length (pending s') = length (pending s) - n" using x(2) by simp
    have cut: "take n (take (n + k) (pending s)) = take n (pending s)"
        "drop n (take (n + k) (pending s)) = take k (pending s')"
        "drop (n + k) (pending s) = drop k (pending s')"
      using x(2) by (simp_all add: drop_take add.commute)
    have short: "length (pending s) < n + k \<longleftrightarrow> length (pending s') < k"
      using False len by linarith
    show ?T
      unfolding cut run short using fx by (simp only: x(3) conj_assoc)
  qed
qed

lemma execR_map:
  assumes "execR m n P c" and "\<And>bs x. length bs = n \<Longrightarrow> P bs x \<Longrightarrow> Q bs (f x)"
  shows "execR (try_bind m (\<lambda>x. ret (Inr (f x)))) n Q c"
  using execR_weaken[OF execR_bind[OF assms(1), where k = 0 and Q = "\<lambda>b1 _ y. Q b1 y"
        and d = "\<lambda>_ _. True" and f = "\<lambda>x. ret (Inr (f x))"], of Q c] assms(2)
  by (auto intro: execR_ret)

text \<open>Loops.\<close>

lemma exec_traverse:
  assumes "\<And>i. i \<in> set is \<Longrightarrow> exec (f i) (P i) (c i)"
  shows "exec (State_Monad.traverse_list f is) (\<lambda>xs. list_all2 P is xs) (\<forall>i\<in>set is. c i)"
  using assms
proof (induction "is")
  case Nil
  then show ?case by (simp add: exec_ret)
next
  case (Cons i "is")
  have "exec (State_Monad.traverse_list f (i # is)) (\<lambda>xs. list_all2 P (i # is) xs)
      (c i \<and> (\<forall>i\<in>set is. c i) \<and> True)"
    unfolding State_Monad.traverse_list.simps
  proof (rule exec_bind)
    show "exec (f i) (P i) (c i)" using Cons.prems by simp
    fix x
    assume "P i x"
    then show "exec (do { xs \<leftarrow> State_Monad.traverse_list f is; ret (x # xs) })
        (\<lambda>xs. list_all2 P (i # is) xs) ((\<forall>i\<in>set is. c i) \<and> True)"
      using Cons by (intro exec_bind[of _ "list_all2 P is"] exec_ret) auto
  qed
  then show ?case by simp
qed

lemma exec_values:
  assumes "\<And>i. i \<in> set is \<Longrightarrow> exec (f i) (\<lambda>x. h x = g i) True"
  shows "exec (State_Monad.traverse_list f is) (\<lambda>xs. map h xs = map g is) True"
  by (rule exec_weaken[OF exec_traverse[OF assms]])
     (auto simp: list_eq_iff_nth_eq list_all2_conv_all_nth)

text \<open>What a loop asserts: \<open>c i v\<close> at every step, for the running value \<open>v\<close>.\<close>

fun along :: "('i \<Rightarrow> 'v \<Rightarrow> bool) \<Rightarrow> ('i \<Rightarrow> 'v \<Rightarrow> 'v) \<Rightarrow> 'i list \<Rightarrow> 'v \<Rightarrow> bool" where
  "along c g [] v \<longleftrightarrow> True"
| "along c g (i # is) v \<longleftrightarrow> c i v \<and> along c g is (g i v)"

lemma along_True [simp]: "along (\<lambda>i v. True) g is v"
  by (induction "is" arbitrary: v) simp_all

lemma exec_loop:
  assumes "\<And>i a v. i \<in> set is \<Longrightarrow> R a v \<Longrightarrow> exec (f i a) (\<lambda>a. R a (g i v)) (c i v)"
    and "R a v"
  shows "exec (loop f is a) (\<lambda>a. R a (fold g is v)) (along c g is v)"
  using assms
proof (induction "is" arbitrary: a v)
  case Nil
  then show ?case by (simp add: exec_ret)
next
  case (Cons i "is")
  show ?case
    unfolding loop.simps along.simps fold.simps comp_apply
    using Cons by (intro exec_bind[of _ "\<lambda>a. R a (g i v)"]) auto
qed

lemma exec_loop_pure:
  assumes "\<And>i a v. i \<in> set is \<Longrightarrow> R a v \<Longrightarrow> exec (f i a) (\<lambda>a. R a (g i v)) True"
    and "R a v"
  shows "exec (loop f is a) (\<lambda>a. R a (fold g is v)) True"
  using exec_loop[of "is" R f g "\<lambda>i v. True" a v] assms by simp

text \<open>Loops whose body takes \<open>n\<close> bits a turn: the final value, and what the loop asserts.\<close>

fun tfold :: "('i \<Rightarrow> 'v \<Rightarrow> bool list \<Rightarrow> 'v) \<Rightarrow> nat \<Rightarrow> 'i list \<Rightarrow> 'v \<Rightarrow> bool list \<Rightarrow> 'v" where
  "tfold g n [] v bs = v"
| "tfold g n (i # is) v bs = tfold g n is (g i v (take n bs)) (drop n bs)"

fun talong ::
  "('i \<Rightarrow> 'v \<Rightarrow> bool list \<Rightarrow> bool) \<Rightarrow> ('i \<Rightarrow> 'v \<Rightarrow> bool list \<Rightarrow> 'v) \<Rightarrow> nat \<Rightarrow> 'i list \<Rightarrow> 'v \<Rightarrow>
     bool list \<Rightarrow> bool" where
  "talong c g n [] v bs \<longleftrightarrow> True"
| "talong c g n (i # is) v bs \<longleftrightarrow>
     c i v (take n bs) \<and> talong c g n is (g i v (take n bs)) (drop n bs)"

lemma execR_loop:
  assumes "\<And>i a v. i \<in> set is \<Longrightarrow> R a v \<Longrightarrow> execR (f i a) n (\<lambda>bs a. R a (g i v bs)) (c i v)"
    and "R a v"
  shows "execR (try_loop f is a) (length is * n) (\<lambda>bs a. R a (tfold g n is v bs)) (talong c g n is v)"
  using assms
proof (induction "is" arbitrary: a v)
  case Nil
  then show ?case by (simp add: execR_ret)
next
  case (Cons i "is")
  show ?case
    unfolding try_loop.simps tfold.simps talong.simps length_Cons mult_Suc
    using Cons by (intro execR_weaken[OF execR_bind[where P = "\<lambda>bs a. R a (g i v bs)"
          and Q = "\<lambda>b1 b2 a. R a (tfold g n is (g i v b1) b2)"
          and c = "c i v" and d = "\<lambda>b1. talong c g n is (g i v b1)"]]) auto
qed

subsection \<open>Wires with known bits\<close>

definition wires :: "'w list \<Rightarrow> bool list \<Rightarrow> bool" where
  "wires ws bs \<longleftrightarrow> map wval ws = map of_bool bs"

definition exprs :: "'e list \<Rightarrow> bool list \<Rightarrow> bool" where
  "exprs es bs \<longleftrightarrow> map eval es = map of_bool bs"

lemma wires_length: "wires ws bs \<Longrightarrow> length ws = length bs"
  unfolding wires_def by (metis length_map)

lemma exprs_length: "exprs es bs \<Longrightarrow> length es = length bs"
  unfolding exprs_def by (metis length_map)

lemma wires_nth: "wires ws bs \<Longrightarrow> i < length bs \<Longrightarrow> wval (ws ! i) = of_bool (bs ! i)"
  unfolding wires_def by (metis length_map nth_map)

lemma exprs_nth: "exprs es bs \<Longrightarrow> i < length bs \<Longrightarrow> eval (es ! i) = of_bool (bs ! i)"
  unfolding exprs_def by (metis length_map nth_map)

lemma wires_Nil [gadget]: "wires [] []"
  by (simp add: wires_def)

lemma wires_Cons [simp]: "wires (w # ws) (b # bs) \<longleftrightarrow> wval w = of_bool b \<and> wires ws bs"
  by (simp add: wires_def)

lemma wires_append [gadget]: "wires us bs \<Longrightarrow> wires vs cs \<Longrightarrow> wires (us @ vs) (bs @ cs)"
  by (simp add: wires_def)

lemma wires_take [gadget]: "wires ws bs \<Longrightarrow> wires (take n ws) (take n bs)"
  by (simp add: wires_def flip: take_map)

lemma wires_drop [gadget]: "wires ws bs \<Longrightarrow> wires (drop n ws) (drop n bs)"
  by (simp add: wires_def flip: drop_map)

lemma wires_update: "wires ws bs \<Longrightarrow> wval w = of_bool b \<Longrightarrow> wires (ws[i := w]) (bs[i := b])"
  by (simp add: wires_def map_update)

subsection \<open>The methods of the backend\<close>

lemma exec_constant: "exec (constant_wire B c) (\<lambda>w. wval w = c) True"
  by (simp add: exec_def constant_ok)

lemma exec_add: "exec (add B u v) (\<lambda>w. wval w = wval u + wval v) True"
  by (simp add: exec_def add_ok)

lemma exec_scale: "exec (scale B c v) (\<lambda>w. wval w = c * wval v) True"
  by (simp add: exec_def scale_ok)

lemma exec_assert_zero: "exec (assert_zero B v) (\<lambda>_. True) (wval v = 0)"
  by (simp add: exec_def assert_zero_ok)

lemma exec_wire_expr: "exec (wire_expr B v) (\<lambda>e. eval e = wval v) True"
  by (simp add: exec_def wire_expr_ok)

lemma exec_expr_add: "exec (expr_add B x y) (\<lambda>e. eval e = eval x + eval y) True"
  by (simp add: exec_def expr_add_ok)

lemma exec_expr_mul: "exec (expr_mul B x y) (\<lambda>e. eval e = eval x * eval y) True"
  by (simp add: exec_def expr_mul_ok)

lemma exec_assert_expr_zero: "exec (assert_expr_zero B x) (\<lambda>_. True) (eval x = 0)"
  by (simp add: exec_def assert_expr_zero_ok)

lemma exec_assert_system:
  "exec (assert_quad_form_system B vs sys ts) (\<lambda>_. True) (system_holds (map wval vs) sys (map wval ts))"
  by (simp add: exec_def assert_system_ok)

lemma execR_witness: "execR (witness_bit B) 1 (\<lambda>bs w. wval w = of_bool (bs ! 0)) (\<lambda>_. True)"
  unfolding execR_def
proof
  fix s
  show "if length (pending s) < 1 then \<exists>e s'. run_state (witness_bit B) s = (Inl e, s')
     else \<exists>w s'. run_state (witness_bit B) s = (Inr w, s') \<and> pending s' = drop 1 (pending s) \<and>
       holds s' = (holds s \<and> True) \<and> wval w = of_bool (take 1 (pending s) ! 0)"
    using witness_none[of s] witness_some[of s] by (cases "pending s") auto
qed

lemma execR_alloc_bits: "execR (alloc_bits B n) n (\<lambda>bs ws. wires ws bs) (\<lambda>_. True)"
proof (induction n)
  case 0
  then show ?case by (simp add: execR_ret wires_Nil)
next
  case (Suc n)
  have rest: "execR (try_bind (alloc_bits B n) (\<lambda>ws. ret (Inr (w # ws)))) n
      (\<lambda>bs ws. wires ws (b # bs)) (\<lambda>_. True)" if "wval w = of_bool b" for w b
    using that by (intro execR_map[OF Suc]) simp
  have "execR (alloc_bits B (Suc n)) (1 + n) (\<lambda>bs ws. wires ws bs) (\<lambda>bs. True)"
    unfolding alloc_bits.simps
    by (rule execR_weaken[OF execR_bind[OF execR_witness, where k = n and d = "\<lambda>_ _. True"
          and Q = "\<lambda>b1 b2 ws. wires ws (b1 ! 0 # b2)"]])
       (auto intro!: rest simp: length_Suc_conv)
  then show ?case by simp
qed

end

section \<open>Fields of characteristic two\<close>

locale binary_backend = backend_logic +
  assumes char2: "(1::'b) + 1 = 0"
begin

lemma add_self [simp]: "(x::'b) + x = 0"
proof -
  have "x + x = x * (1 + 1)" by (simp only: distrib_left mult_1_right)
  then show ?thesis by (simp only: char2 mult_zero_right)
qed

lemma bit_add [simp]: "of_bool a + of_bool b = (of_bool (a \<noteq> b) :: 'b)"
  by (simp add: char2)

lemma bit_mult [simp]: "of_bool a * of_bool b = (of_bool (a \<and> b) :: 'b)"
  by simp

lemma add_eq_0 [simp]: "(x::'b) + y = 0 \<longleftrightarrow> x = y"
  by (metis add_self add_left_cancel)

end

section \<open>Checking a circuit on a plain witness\<close>

text \<open>
  The backend that runs a circuit on a witness in the clear: wires and expressions are their values,
  and the state is the witness that is left and whether every assertion so far held. A circuit
  accepts a witness when it runs without an error, takes all of it and asserts nothing false. The
  quadratic system of the crate \<open>mayo\<close> is the parameter \<open>system_holds\<close>.
\<close>

record check_state =
  ck_witness :: "bool list"
  ck_satisfied :: bool

definition check_assert :: "bool \<Rightarrow> (check_state, unit) state" where
  "check_assert c = State (\<lambda>s. ((), s\<lparr>ck_satisfied := ck_satisfied s \<and> c\<rparr>))"

definition check_witness_bit :: "(check_state, vole_error + 'f::zero_neq_one) state" where
  "check_witness_bit = State (\<lambda>s. case ck_witness s of
     [] \<Rightarrow> (Inl Unsatisfiable, s)
   | b # bs \<Rightarrow> (Inr (of_bool b), s\<lparr>ck_witness := bs\<rparr>))"

definition check_backend ::
  "('f list \<Rightarrow> 'sys \<Rightarrow> 'f list \<Rightarrow> bool) \<Rightarrow> (check_state, 'f::comm_ring_1, 'f, 'f, 'sys) backend" where
  "check_backend system_holds = \<lparr>
     witness_bit = check_witness_bit,
     constant_wire = ret,
     add = (\<lambda>u v. ret (u + v)),
     scale = (\<lambda>c v. ret (c * v)),
     assert_zero = (\<lambda>v. check_assert (v = 0)),
     wire_expr = ret,
     expr_add = (\<lambda>x y. ret (x + y)),
     expr_mul = (\<lambda>x y. ret (x * y)),
     assert_expr_zero = (\<lambda>x. check_assert (x = 0)),
     assert_quad_form_system = (\<lambda>vs sys ts. check_assert (system_holds vs sys ts))\<rparr>"

definition accepts :: "(check_state, vole_error + unit) state \<Rightarrow> bool list \<Rightarrow> bool" where
  "accepts m witness \<longleftrightarrow>
     (case run_state m \<lparr>ck_witness = witness, ck_satisfied = True\<rparr> of
        (Inl e, s) \<Rightarrow> False
      | (Inr _, s) \<Rightarrow> ck_witness s = [] \<and> ck_satisfied s)"

interpretation check: backend_logic "check_backend system_holds" "\<lambda>v. v" "\<lambda>v. v"
    ck_witness ck_satisfied system_holds for system_holds
  by unfold_locales
     (simp_all add: check_backend_def check_witness_bit_def check_assert_def split: list.splits)

lemma check_binary:
  "(1 :: 'f::comm_ring_1) + 1 = 0 \<Longrightarrow>
     binary_backend (check_backend system_holds) (\<lambda>v. v) (\<lambda>v :: 'f. v) ck_witness ck_satisfied system_holds"
  by (intro binary_backend.intro check.backend_logic_axioms binary_backend_axioms.intro)

lemma accepts_execR:
  assumes "check.execR m n Q c"
  shows "accepts m witness \<longleftrightarrow> length witness = n \<and> c witness"
proof (cases "length witness < n")
  case True
  then obtain e s' where "run_state m \<lparr>ck_witness = witness, ck_satisfied = True\<rparr> = (Inl e, s')"
    using assms unfolding check.execR_def by fastforce
  with True show ?thesis by (simp add: accepts_def)
next
  case False
  let ?s = "\<lparr>ck_witness = witness, ck_satisfied = True\<rparr>"
  obtain x s' where
    "run_state m \<lparr>ck_witness = witness, ck_satisfied = True\<rparr> = (Inr x, s')"
    "ck_witness s' = drop n witness" "ck_satisfied s' = c (take n witness)"
    using assms False unfolding check.execR_def by (auto dest!: spec[of _ ?s])
  with False show ?thesis by (auto simp: accepts_def)
qed

text \<open>
  A field for concrete runs: vectors of four bits with pointwise operations, a commutative ring of
  characteristic two that contains the 16 values of a nibble.
\<close>

datatype bits4 = Bits4 (bit0: bool) (bit1: bool) (bit2: bool) (bit3: bool)

instantiation bits4 :: comm_ring_1
begin

definition "0 = Bits4 False False False False"
definition "1 = Bits4 True True True True"
definition "x + y = Bits4 (bit0 x \<noteq> bit0 y) (bit1 x \<noteq> bit1 y) (bit2 x \<noteq> bit2 y) (bit3 x \<noteq> bit3 y)"
definition "x * y = Bits4 (bit0 x \<and> bit0 y) (bit1 x \<and> bit1 y) (bit2 x \<and> bit2 y) (bit3 x \<and> bit3 y)"
definition "- x = (x :: bits4)"
definition "x - y = x + (y :: bits4)"

instance
  by standard
     (auto simp: zero_bits4_def one_bits4_def plus_bits4_def times_bits4_def uminus_bits4_def
       minus_bits4_def bits4.expand)

end

lemma bits4_char2: "(1 :: bits4) + 1 = 0"
  by (simp add: one_bits4_def plus_bits4_def zero_bits4_def)

interpretation check4: binary_backend "check_backend system_holds" "\<lambda>v. v" "\<lambda>v :: bits4. v"
    ck_witness ck_satisfied system_holds for system_holds
  by (rule check_binary[OF bits4_char2])

end
