(* ===== verification/SpongeBits.thy ===== *)
theory SpongeBits
  imports CircuitNative KeccakSpec
begin

text \<open>
  Bytes, lanes and whole states as lists of bits, in the order of \<open>bytes_bits\<close> and \<open>state_bit\<close>, and
  the bits of a padded block: the bridge between the native sponge and the sponge in the circuit.
\<close>

section \<open>Bits of bytes and lanes\<close>

lemma concat_blocks:
  assumes "i < length xs * n"
  shows "concat (map (\<lambda>x. map (h x) [0..<n]) xs) ! i = h (xs ! (i div n)) (i mod n)"
  using assms
proof (induction xs arbitrary: i)
  case Nil
  then show ?case by simp
next
  case (Cons x xs)
  show ?case
  proof (cases "i < n")
    case True
    then show ?thesis by (simp add: nth_append)
  next
    case False
    then obtain j where j: "i = n + j" using le_Suc_ex not_less by blast
    then show ?thesis
      using Cons by (cases "n = 0") (simp_all add: nth_append div_add_self1)
  qed
qed

lemma length_concat_blocks: "length (concat (map (\<lambda>x. map (h x) [0..<n]) xs)) = length xs * n"
  by (induction xs) simp_all

lemma length_bytes_bits [simp, enc_len]: "length (bytes_bits bs) = 8 * length bs"
  by (simp add: bytes_bits_def length_concat_blocks)

lemma nth_bytes_bits:
  "i < 8 * length bs \<Longrightarrow> bytes_bits bs ! i = bit (bs ! (i div 8)) (i mod 8)"
  by (simp add: bytes_bits_def concat_blocks bit_iff_and_drop_bit_eq_1)

lemma bytes_bits_Nil [simp]: "bytes_bits [] = []"
  by (simp add: bytes_bits_def)

lemma bytes_bits_append [simp]: "bytes_bits (bs @ cs) = bytes_bits bs @ bytes_bits cs"
  by (simp add: bytes_bits_def)

text \<open>The inverse: bytes from bits, lanes from bits.\<close>

definition bits_bytes :: "bool list \<Rightarrow> bytes" where
  "bits_bytes bs = map (\<lambda>i. horner_sum of_bool 2 (take 8 (drop (8 * i) bs))) [0..<length bs div 8]"

lemma length_bits_bytes [simp, enc_len]: "length (bits_bytes bs) = length bs div 8"
  by (simp add: bits_bytes_def)

lemma bit_bits_bytes:
  "j < length bs div 8 \<Longrightarrow> k < 8 \<Longrightarrow> bit (bits_bytes bs ! j) k = bs ! (8 * j + k)"
  by (simp add: bits_bytes_def bit_horner_sum_bit_word_iff)

lemma bytes_bits_of_bits:
  assumes "length bs mod 8 = 0"
  shows "bytes_bits (bits_bytes bs) = bs"
proof (rule nth_equalityI)
  have len: "8 * (length bs div 8) = length bs" using assms by presburger
  then show "length (bytes_bits (bits_bytes bs)) = length bs" by simp
  fix i
  assume "i < length (bytes_bits (bits_bytes bs))"
  then have i: "i < length bs" using len by simp
  then have "i div 8 < length bs div 8" using len by (simp add: div_less_iff_less_mult mult.commute)
  then show "bytes_bits (bits_bytes bs) ! i = bs ! i"
    using i len by (simp add: nth_bytes_bits bit_bits_bytes)
qed

lemma bits_bytes_of_bytes: "bits_bytes (bytes_bits bs) = bs"
proof (rule nth_equalityI)
  fix i
  assume "i < length (bits_bytes (bytes_bits bs))"
  then have "i < length bs" by simp
  then show "bits_bytes (bytes_bits bs) ! i = bs ! i"
    by (intro bit_word_eqI) (simp add: bit_bits_bytes nth_bytes_bits)
qed simp

lemma bytes_bits_inject [simp]: "bytes_bits bs = bytes_bits cs \<longleftrightarrow> bs = cs"
  by (metis bits_bytes_of_bytes)

definition state_bits :: "kstate \<Rightarrow> bool list" where
  "state_bits st = map (state_bit st) [0..<1600]"

definition lanes :: "bool list \<Rightarrow> kstate" where
  "lanes bs = map (\<lambda>l. horner_sum of_bool 2 (take 64 (drop (64 * l) bs))) [0..<25]"

lemma length_state_bits [simp, enc_len]: "length (state_bits st) = 1600"
  by (simp add: state_bits_def)

lemma length_lanes [simp, enc_len]: "length (lanes bs) = 25"
  by (simp add: lanes_def)

lemma nth_state_bits: "i < 1600 \<Longrightarrow> state_bits st ! i = bit (st ! (i div 64)) (i mod 64)"
  by (simp add: state_bits_def state_bit_def bit_iff_and_drop_bit_eq_1)

lemma bit_lanes:
  assumes "length bs = 1600" "l < 25" "z < 64"
  shows "bit (lanes bs ! l) z = bs ! (64 * l + z)"
proof -
  have "64 * l + z < 1600" using assms by linarith
  then show ?thesis using assms by (simp add: lanes_def bit_horner_sum_bit_word_iff)
qed

lemma state_bits_lanes:
  assumes "length bs = 1600"
  shows "state_bits (lanes bs) = bs"
proof (rule nth_equalityI)
  fix i
  assume "i < length (state_bits (lanes bs))"
  then have "i < 1600" and "i div 64 < 25" by auto
  then show "state_bits (lanes bs) ! i = bs ! i"
    using assms by (simp add: nth_state_bits bit_lanes)
qed (simp add: assms)

lemma lanes_state_bits:
  assumes "length st = 25"
  shows "lanes (state_bits st) = st"
proof (rule nth_equalityI)
  fix l
  assume "l < length (lanes (state_bits st))"
  then have l: "l < 25" by simp
  show "lanes (state_bits st) ! l = st ! l"
  proof (rule bit_word_eqI)
    fix z
    assume z: "z < LENGTH(64)"
    with l have "64 * l + z < 1600" by simp
    with l z show "bit (lanes (state_bits st) ! l) z = bit (st ! l) z"
      by (simp add: bit_lanes nth_state_bits)
  qed
qed (simp add: assms)

text \<open>A chunk of output is a prefix of the state.\<close>

lemma chunk_bits:
  assumes "n \<le> 136"
  shows "bytes_bits (map (squeeze_byte st) [0..<n]) = take (8 * n) (state_bits st)"
proof (rule nth_equalityI)
  fix i
  assume "i < length (bytes_bits (map (squeeze_byte st) [0..<n]))"
  then have i: "i < 8 * n" by simp
  then have "i div 8 < n" by (simp add: div_less_iff_less_mult mult.commute)
  moreover have "8 * (i div 8 mod 8) + i mod 8 = i mod 64" "i div 8 div 8 = i div 64"
    using mod_mult2_eq[of i 8 8] div_mult2_eq[of i 8 8] by simp_all
  moreover have "i div 8 mod 8 < 8" by simp
  ultimately show "bytes_bits (map (squeeze_byte st) [0..<n]) ! i = take (8 * n) (state_bits st) ! i"
    using i assms
    by (simp add: nth_bytes_bits squeeze_byte_def u64_to_le_def nth_le_bytes nth_state_bits bit_simps)
qed (use assms in simp)

section \<open>The padded block\<close>

lemma bit_1f: "bit (31 :: int) k \<longleftrightarrow> k < 5"
proof -
  have m: "(31 :: int) = mask 5" by (simp add: mask_eq_exp_minus_1)
  show ?thesis unfolding m by (auto simp: bit_mask_iff)
qed

lemma bit_80: "bit (128 :: int) k \<longleftrightarrow> k = 7"
proof -
  have m: "(128 :: int) = 2 ^ 7" by simp
  show ?thesis unfolding m bit_exp_iff by auto
qed

lemma pad_block_Some:
  assumes "length m < 136"
  obtains block where "pad_single_block m = Some block" and "length block = 136"
    and "\<And>j. j < 136 \<Longrightarrow> block ! j = (if j < length m then m ! j else if j = length m then 0x1f else 0)
           XOR (if j = 135 then 0x80 else 0)"
proof -
  let ?b = "m @ replicate (136 - length m) (0::byte)"
  let ?c = "?b[length m := ?b ! length m XOR 0x1f]"
  let ?block = "?c[135 := ?c ! 135 XOR 0x80]"
  have "pad_single_block m = Some ?block"
    using assms by (simp add: pad_single_block_def RATE_BYTES_def Let_def)
  moreover have "length ?block = 136" using assms by simp
  moreover have "?block ! j = (if j < length m then m ! j else if j = length m then 0x1f else 0)
           XOR (if j = 135 then 0x80 else 0)" if "j < 136" for j
    using assms that by (auto simp: nth_list_update nth_append)
  ultimately show thesis by (rule that)
qed


lemma length_fold_xor:
  "length (fold (\<lambda>(i, l) st. st[i := st ! i XOR g l]) ps st) = length (st :: kstate)"
  by (induction ps arbitrary: st) (simp_all add: split_beta)

lemma nth_fold_xor:
  "n + length xs \<le> length st \<Longrightarrow> k < length st \<Longrightarrow>
     fold (\<lambda>(i, l) st. st[i := st ! i XOR g l]) (enumerate n xs) st ! k =
     (if n \<le> k \<and> k < n + length xs then st ! k XOR g (xs ! (k - n)) else (st ! k :: u64))"
proof (induction xs arbitrary: n st)
  case Nil
  then show ?case by auto
next
  case (Cons x xs)
  show ?case
  proof (cases "k = n")
    case True
    with Cons show ?thesis by simp
  next
    case False
    have "k - n = Suc (k - Suc n)" if "n \<le> k" using False that by linarith
    then show ?thesis using False Cons by auto
  qed
qed

lemma length_absorb_block [simp, enc_len]: "length (absorb_block st block) = length st"
  by (simp add: absorb_block_def length_fold_xor)

lemma nth_absorb_block:
  assumes "length st = 25" and "length block = 136" and "l < 25"
  shows "absorb_block st block ! l =
    st ! l XOR (if l < 17 then from_le (take 8 (drop (8 * l) block)) else 0)"
proof -
  have chunks: "fst (as_chunks 8 block) = map (\<lambda>i. take 8 (drop (8 * i) block)) [0..<17]"
    using assms by (simp add: as_chunks_def)
  show ?thesis
    using assms unfolding absorb_block_def chunks by (subst nth_fold_xor) auto
qed

lemma bit_absorb_block:
  assumes "length st = 25" and "length block = 136" and "i < 1600"
  shows "bit (absorb_block st block ! (i div 64)) (i mod 64) \<longleftrightarrow>
    bit (st ! (i div 64)) (i mod 64) \<noteq> (i < 1088 \<and> bit (block ! (i div 8)) (i mod 8))"
proof -
  have l: "i div 64 < 25" using assms(3) by auto
  have idx: "8 * (i div 64) + (i mod 64) div 8 = i div 8" "(i mod 64) mod 8 = i mod 8"
    using div_mult2_eq[of i 8 8] mod_mult2_eq[of i 8 8] by simp_all
  have lt: "i div 64 < 17 \<longleftrightarrow> i < 1088" by auto
  have "(i mod 64) div 8 < 8" by auto
  moreover have "8 \<le> 136 - 8 * (i div 64)" if "i < 1088" using lt that by linarith
  ultimately show ?thesis
    using assms l unfolding nth_absorb_block[OF assms(1,2) l]
    by (auto simp: bit_xor_iff bit_from_le lt idx min_def)
qed

text \<open>The bits the circuit starts from: the same assignments as in \<open>initial_sponge_state\<close>.\<close>

definition sponge_bits :: "bool list \<Rightarrow> bool list" where
  "sponge_bits bs =
     (let state = take 1600 bs @ drop (length bs) (replicate 1600 False);
          state = fold (\<lambda>k state. if drop_bit k (0x1f :: byte) AND 1 = 1
             then state[length bs div 8 * 8 + k := True] else state) [0..<8] state
      in state[RATE_BYTES * 8 - 1 := True])"

lemma nth_set_bits:
  "j < length st \<Longrightarrow>
     fold (\<lambda>k state. if c k then state[n + k := True] else state) ks st ! j \<longleftrightarrow>
       st ! j \<or> (\<exists>k\<in>set ks. c k \<and> j = n + k)"
proof (induction ks arbitrary: st)
  case Nil
  then show ?case by simp
next
  case (Cons k ks)
  then show ?case by (cases "n + k = j") (auto simp: nth_list_update)
qed

lemma length_set_bits:
  "length (fold (\<lambda>k state. if c k then state[n + k := v] else state) ks st) = length st"
  by (induction ks arbitrary: st) simp_all

lemma length_sponge_bits: "length bs \<le> 1600 \<Longrightarrow> length (sponge_bits bs) = 1600"
  by (simp add: sponge_bits_def Let_def length_set_bits)

lemma nth_sponge_bits:
  assumes "length bs < 1088" and "length bs mod 8 = 0" and "i < 1600"
  shows "sponge_bits bs ! i \<longleftrightarrow>
    (i < length bs \<and> bs ! i) \<or> (length bs \<le> i \<and> i < length bs + 5) \<or> i = 1087"
proof -
  have n: "length bs div 8 * 8 = length bs" using assms(2) by presburger
  have one: "drop_bit k (0x1f :: byte) AND 1 = 1 \<longleftrightarrow> k < 5" for k
    by (auto simp: bit_1f simp flip: bit_iff_and_drop_bit_eq_1)
  have ex: "(\<exists>k\<in>{0..<8}. k < 5 \<and> i = length bs + k) \<longleftrightarrow> length bs \<le> i \<and> i < length bs + 5"
    by (auto simp: Bex_def intro!: exI[of _ "i - length bs"])
  show ?thesis
    using assms unfolding sponge_bits_def Let_def n one RATE_BYTES_def
    by (auto simp: nth_list_update length_set_bits nth_set_bits ex nth_append)
qed

lemma byte_position: "i div 8 = n \<and> i mod 8 < 5 \<longleftrightarrow> 8 * n \<le> i \<and> i < 8 * n + (5::nat)"
proof -
  define q r where "q = i div 8" and "r = i mod 8"
  then have "i = 8 * q + r" and "r < 8" by simp_all
  then show ?thesis unfolding q_def[symmetric] r_def[symmetric] by presburger
qed

lemma sponge_bits_absorb:
  assumes "length m < 136" and "pad_single_block m = Some block"
  shows "sponge_bits (bytes_bits m) = state_bits (absorb_block (replicate 25 0) block)"
proof (rule nth_equalityI)
  show "length (sponge_bits (bytes_bits m)) = length (state_bits (absorb_block (replicate 25 0) block))"
    using assms(1) by (simp add: length_sponge_bits)
  fix i
  assume "i < length (sponge_bits (bytes_bits m))"
  then have i: "i < 1600" using assms(1) by (simp add: length_sponge_bits)
  obtain len: "length block = 136" and nth: "\<And>j. j < 136 \<Longrightarrow> block ! j =
      (if j < length m then m ! j else if j = length m then 0x1f else 0) XOR (if j = 135 then 0x80 else 0)"
    using assms by (metis pad_block_Some option.inject)
  have byte: "i < 1088 \<and> bit (block ! (i div 8)) (i mod 8) \<longleftrightarrow>
      (i < 8 * length m \<and> bit (m ! (i div 8)) (i mod 8)) \<or>
      (8 * length m \<le> i \<and> i < 8 * length m + 5) \<or> i = 1087"
  proof (cases "i < 1088")
    case True
    then have "i div 8 < 136" by auto
    moreover have "i div 8 < length m \<longleftrightarrow> i < 8 * length m"
      by (simp add: div_less_iff_less_mult mult.commute)
    moreover have "i div 8 = length m \<and> i mod 8 < 5 \<longleftrightarrow> 8 * length m \<le> i \<and> i < 8 * length m + 5"
      by (rule byte_position)
    moreover have "i div 8 = 135 \<and> i mod 8 = 7 \<longleftrightarrow> i = 1087"
      using div_mult_mod_eq[of i 8] by (intro iffI) (linarith, simp)
    ultimately show ?thesis
      using True assms(1) by (auto simp: nth bit_xor_iff bit_1f bit_80)
  next
    case False
    with assms(1) show ?thesis by auto
  qed
  have "i div 64 < 25" using i by auto
  then show "sponge_bits (bytes_bits m) ! i = state_bits (absorb_block (replicate 25 0) block) ! i"
    using i assms(1) byte
    by (auto simp: nth_sponge_bits nth_state_bits bit_absorb_block len nth_bytes_bits)
qed

end
