(* ===== verification/KeccakGadget.thy ===== *)
theory KeccakGadget
  imports CircuitLogic SpongeBits
begin

text \<open>
  The Keccak part of the circuits, against an evaluating backend of characteristic two: the circuit's
  round computes the bits of the native round, its sponge starts from the bits of the padded block,
  and \<open>shake_degree16\<close> holds exactly when the committed checkpoints are those of the native code.
\<close>

section \<open>Indices of the circuit's layout\<close>

lemma bit_index:
  assumes "i < (1600 :: nat)"
  shows "(i div 64) mod 5 < 5" "i div 64 div 5 < 5" "i mod 64 < 64"
    and "64 * ((i div 64) mod 5 + 5 * (i div 64 div 5)) + i mod 64 = i"
    and "i div 64 = (i div 64) mod 5 + 5 * (i div 64 div 5)"
proof -
  have "i div 64 < 25" using assms by auto
  then show "i div 64 div 5 < 5" by auto
qed simp_all

lemma block_index: "z < 64 \<Longrightarrow> (64 * t + z) div 64 = t" "z < 64 \<Longrightarrow> (64 * t + z) mod 64 = (z :: nat)"
  by simp_all

lemma state_index:
  assumes "x < 5" "y < 5" "z < (64::nat)"
  shows "64 * (x + 5 * y) + z < 1600" "(64 * (x + 5 * y) + z) div 64 = x + 5 * y"
    "(64 * (x + 5 * y) + z) mod 64 = z"
proof -
  show "64 * (x + 5 * y) + z < 1600" using assms by simp
  show "(64 * (x + 5 * y) + z) div 64 = x + 5 * y" "(64 * (x + 5 * y) + z) mod 64 = z"
    using assms(3) by (rule block_index)+
qed

lemma nth_state_bits_xyz:
  "x < 5 \<Longrightarrow> y < 5 \<Longrightarrow> z < 64 \<Longrightarrow> state_bits st ! (64 * (x + 5 * y) + z) = bit (st ! (x + 5 * y)) z"
  using state_index[of x y z] by (simp only: nth_state_bits)

lemma state_bits_eqI:
  assumes "\<And>x y z. x < 5 \<Longrightarrow> y < 5 \<Longrightarrow> z < 64 \<Longrightarrow> f (64 * (x + 5 * y) + z) = bit (st ! (x + 5 * y)) z"
  shows "map f [0..<1600] = state_bits st"
proof (rule nth_equalityI)
  fix i
  assume "i < length (map f [0..<1600])"
  then have i: "i < 1600" by simp
  note ix = bit_index[OF i]
  have "f i = bit (st ! (i div 64 mod 5 + 5 * (i div 64 div 5))) (i mod 64)"
    using assms[OF ix(1-3)] unfolding ix(4) .
  then have "f i = bit (st ! (i div 64)) (i mod 64)"
    using ix(5) by metis
  with i show "map f [0..<1600] ! i = state_bits st ! i"
    by (simp add: nth_state_bits)
qed simp

section \<open>The permutation table\<close>

definition pi_rho_source :: "nat \<Rightarrow> nat \<Rightarrow> nat \<Rightarrow> nat" where
  "pi_rho_source x y z = 64 * ((x + 3 * y) mod 5 + 5 * x) +
     (z + 64 - RHO ! ((x + 3 * y) mod 5 + 5 * x)) mod 64"

lemma pi_rho_targets:
  "map (\<lambda>(z, x, y). 64 * (y + 5 * ((2 * x + 3 * y) mod 5)) + z)
     (concat (map (\<lambda>(x, y). map (\<lambda>z. (z, x, y)) [0..<64]) xys))
   = concat (map (\<lambda>t. map (\<lambda>z. 64 * t + z) [0..<64])
       (map (\<lambda>(x, y). y + 5 * ((2 * x + 3 * y) mod 5)) xys))"
  by (induction xys) (simp_all add: split_beta)

lemma distinct_blocks:
  "distinct ts \<Longrightarrow> distinct (concat (map (\<lambda>t. map (\<lambda>z. 64 * t + z) [0..<64]) ts))"
proof (induction ts)
  case Nil
  then show ?case by simp
next
  case (Cons t ts)
  have "t = u" if "64 * t \<le> x" "x < 64 + 64 * t" "64 * u \<le> x" "x < 64 + 64 * u" for u x :: nat
    using that by linarith
  then have "t \<in> set ts" if "u \<in> set ts" "64 * t \<le> x" "x < 64 + 64 * t" "64 * u \<le> x" "x < 64 + 64 * u" for u x
    using that by metis
  with Cons show ?case by (auto simp: distinct_map inj_on_def)
qed

lemma nth_pi_rho_index:
  assumes "x < 5" and "y < 5" and "z < 64"
  shows "pi_rho_index ! (64 * (x + 5 * y) + z) = pi_rho_source x y z"
proof -
  let ?f = "\<lambda>(z, x, y). 64 * (y + 5 * ((2 * x + 3 * y) mod 5)) + z"
  let ?is = "concat (map (\<lambda>(x, y). map (\<lambda>z. (z, x, y)) [0..<64]) (rows 5 5))"
  let ?i = "(z, (x + 3 * y) mod 5, x)"
  have target: "?f ?i = 64 * (x + 5 * y) + z"
    using pi_source[OF assms(1,2)] by simp
  have "distinct (map ?f ?is)"
    unfolding pi_rho_targets by (rule distinct_blocks[OF distinct_pi_targets])
  moreover have "?i \<in> set ?is"
  proof -
    have "((x + 3 * y) mod 5, x) \<in> set (rows 5 5)" using assms by (simp add: set_rows)
    then show ?thesis using assms(3) by fastforce
  qed
  moreover have "?f ?i < length (replicate 1600 (0::nat))"
    unfolding target using state_index(1)[OF assms] by simp
  ultimately have "pi_rho_index ! ?f ?i =
      (\<lambda>(z, x, y). 64 * (x + 5 * y) + (z + 64 - RHO ! (x + 5 * y)) mod 64) ?i"
    unfolding pi_rho_index_def by (rule scatter_nth)
  then show ?thesis
    unfolding target by (simp add: pi_rho_source_def)
qed

definition theta_bits :: "kstate \<Rightarrow> bool list" where
  "theta_bits st = state_bits (keccak_theta st)"

lemma theta_bits_source:
  assumes "x < 5" and "y < 5" and "z < 64"
  shows "theta_bits st ! pi_rho_source x y z = bit (pi_lane st x y) z"
proof -
  let ?s = "(x + 3 * y) mod 5"
  have s: "?s < 5" by simp
  have w: "z + 64 - RHO ! (?s + 5 * x) = z + (64 - RHO ! (?s + 5 * x) mod 64)"
    using RHO_less[OF s assms(1)] by simp
  have "theta_bits st ! pi_rho_source x y z =
      bit (theta_lane st ?s x) ((z + 64 - RHO ! (?s + 5 * x)) mod 64)"
    unfolding theta_bits_def pi_rho_source_def
    by (subst nth_state_bits_xyz[OF s assms(1)]) (simp_all add: nth_keccak_theta[OF s assms(1)])
  then show ?thesis
    using assms(3) by (simp add: pi_lane_def bit_rotl64 w)
qed


section \<open>One round\<close>

context binary_backend
begin

lemma exec_step:
  "exec m P True \<Longrightarrow> (\<And>x. P x \<Longrightarrow> exec (f x) Q d) \<Longrightarrow> exec (State_Monad.bind m f) Q d"
  using exec_bind[of m P True f Q d] by simp

lemma exec_const_expr:
  assumes "\<And>e. eval e = c \<Longrightarrow> exec (f e) Q d"
  shows "exec (do { w \<leftarrow> constant_wire B c; e \<leftarrow> wire_expr B w; f e }) Q d"
  by (intro exec_step[OF exec_constant] exec_step[OF exec_wire_expr]) (simp add: assms)

lemma exec_bit_add:
  "eval x = of_bool a \<Longrightarrow> eval y = of_bool b \<Longrightarrow> exec (expr_add B x y) (\<lambda>e. eval e = of_bool (a \<noteq> b)) True"
  by (rule exec_weaken[OF exec_expr_add]) simp_all

lemma exec_bit_mul:
  "eval x = of_bool a \<Longrightarrow> eval y = of_bool b \<Longrightarrow> exec (expr_mul B x y) (\<lambda>e. eval e = of_bool (a \<and> b)) True"
  by (rule exec_weaken[OF exec_expr_mul]) simp_all

lemma exprs_xyz:
  "exprs es (state_bits st) \<Longrightarrow> x < 5 \<Longrightarrow> y < 5 \<Longrightarrow> z < 64 \<Longrightarrow>
     eval (es ! (64 * (x + 5 * y) + z)) = of_bool (bit (st ! (x + 5 * y)) z)"
  using exprs_nth[of es "state_bits st" "64 * (x + 5 * y) + z"] state_index[of x y z]
  by (simp only: nth_state_bits_xyz length_state_bits)

lemma exec_columns:
  assumes es: "exprs es (state_bits st)" and zero: "eval zero = 0" and i: "i < 320"
  shows "exec (loop (\<lambda>y parity. expr_add B parity (es ! (64 * (i div 64 + 5 * y) + i mod 64))) [0..<5] zero)
    (\<lambda>e. eval e = of_bool (bit (theta_columns st ! (i div 64)) (i mod 64))) True"
proof -
  let ?x = "i div 64" and ?z = "i mod 64"
  have x: "?x < 5" and z: "?z < 64" using i by auto
  have "exec (loop (\<lambda>y parity. expr_add B parity (es ! (64 * (?x + 5 * y) + ?z))) [0..<5] zero)
      (\<lambda>e. eval e = of_bool (fold (\<lambda>y v. v \<noteq> bit (st ! (?x + 5 * y)) ?z) [0..<5] False)) True"
  proof (rule exec_loop_pure[where R = "\<lambda>e v. eval e = of_bool v"])
    fix y e v
    assume "y \<in> set [0..<5]" and e: "eval e = of_bool v"
    then have "y < 5" by simp
    show "exec (expr_add B e (es ! (64 * (?x + 5 * y) + ?z)))
        (\<lambda>e. eval e = of_bool (v \<noteq> bit (st ! (?x + 5 * y)) ?z)) True"
      by (rule exec_bit_add[OF e exprs_xyz[OF es x \<open>y < 5\<close> z]])
  qed (simp add: zero)
  moreover have "fold (\<lambda>y v. v \<noteq> bit (st ! (?x + 5 * y)) ?z) [0..<5] False = bit (theta_columns st ! ?x) ?z"
    by (auto simp: nth_theta_columns[OF x] bit_xor_iff upt_rec)
  ultimately show ?thesis by simp
qed

lemma exec_keccak_linear:
  assumes es: "exprs es (state_bits st)"
  shows "exec (keccak_linear_expr B es) (\<lambda>ts. exprs ts (theta_bits st)) True"
  unfolding keccak_linear_expr_def Let_def
proof (rule exec_const_expr, rule exec_step)
  fix zero
  assume zero: "eval zero = 0"
  let ?C = "\<lambda>x z. bit (theta_columns st ! x) z"
  show "exec (State_Monad.traverse_list (\<lambda>i. loop (\<lambda>y parity. expr_add B parity
          (es ! (64 * (i div 64 + 5 * y) + i mod 64))) [0..<5] zero) [0..<5 * 64])
     (\<lambda>cs. map eval cs = map (\<lambda>i. of_bool (?C (i div 64) (i mod 64))) [0..<5 * 64]) True"
    by (rule exec_values, rule exec_columns[OF es zero]) simp
  fix cs
  assume cs: "map eval cs = map (\<lambda>i. of_bool (?C (i div 64) (i mod 64))) [0..<5 * 64]"
  have col: "eval (cs ! (64 * x + z)) = of_bool (?C x z)" if "x < 5" "z < 64" for x z
  proof -
    have "64 * x + z < 320" using that by simp
    moreover have "length cs = 320" using arg_cong[OF cs, of length] by simp
    ultimately have "eval (cs ! (64 * x + z)) = map eval cs ! (64 * x + z)" by simp
    also have "\<dots> = of_bool (?C x z)"
      unfolding cs using that \<open>64 * x + z < 320\<close> block_index[OF that(2), of x] by simp
    finally show ?thesis .
  qed
  let ?g = "\<lambda>i. bit (st ! (i div 64 mod 5 + 5 * (i div 64 div 5))) (i mod 64) \<noteq>
    (?C ((i div 64 mod 5 + 4) mod 5) (i mod 64) \<noteq> ?C ((i div 64 mod 5 + 1) mod 5) ((i mod 64 + 63) mod 64))"
  have all: "exec (State_Monad.traverse_list (\<lambda>i.
        do { delta \<leftarrow> expr_add B (cs ! (64 * ((i div 64 mod 5 + 4) mod 5) + i mod 64))
               (cs ! (64 * ((i div 64 mod 5 + 1) mod 5) + (i mod 64 + 63) mod 64));
             expr_add B (es ! (64 * (i div 64 mod 5 + 5 * (i div 64 div 5)) + i mod 64)) delta
           }) [0..<1600])
     (\<lambda>xs. map eval xs = map (\<lambda>i. of_bool (?g i)) [0..<1600]) True"
  proof (rule exec_values)
    fix i :: nat
    assume "i \<in> set [0..<1600]"
    then have "i < 1600" by simp
    note ix = bit_index(1-3)[OF this]
    show "exec (do { delta \<leftarrow> expr_add B (cs ! (64 * ((i div 64 mod 5 + 4) mod 5) + i mod 64))
               (cs ! (64 * ((i div 64 mod 5 + 1) mod 5) + (i mod 64 + 63) mod 64));
             expr_add B (es ! (64 * (i div 64 mod 5 + 5 * (i div 64 div 5)) + i mod 64)) delta
           }) (\<lambda>e. eval e = of_bool (?g i)) True"
      by (rule exec_step[OF exec_bit_add[OF col col]])
         (simp, simp, simp, simp, rule exec_bit_add[OF exprs_xyz[OF es ix]])
  qed
  have theta: "map ?g [0..<1600] = theta_bits st"
    unfolding theta_bits_def
  proof (rule state_bits_eqI)
    fix x y z :: nat
    assume xyz: "x < 5" "y < 5" "z < 64"
    note ix = state_index(2,3)[OF xyz]
    have d: "(x + 5 * y) mod 5 = x" "(x + 5 * y) div 5 = y" using xyz by simp_all
    show "?g (64 * (x + 5 * y) + z) = bit (keccak_theta st ! (x + 5 * y)) z"
      unfolding ix d nth_keccak_theta[OF xyz(1,2)] theta_lane_def
      using xyz(3) by (auto simp: bit_xor_iff bit_rotl64)
  qed
  show "exec (State_Monad.traverse_list (\<lambda>i.
        do { delta \<leftarrow> expr_add B (cs ! (64 * ((i div 64 mod 5 + 4) mod 5) + i mod 64))
               (cs ! (64 * ((i div 64 mod 5 + 1) mod 5) + (i mod 64 + 63) mod 64));
             expr_add B (es ! (64 * (i div 64 mod 5 + 5 * (i div 64 div 5)) + i mod 64)) delta
           }) [0..<1600]) (\<lambda>ts. exprs ts (theta_bits st)) True"
    using all unfolding exprs_def theta[symmetric] list.map_comp comp_def .
qed


lemma exec_keccak_round:
  assumes es: "exprs es (state_bits st)"
  shows "exec (keccak_round_expr B es rc) (\<lambda>es. exprs es (state_bits (keccak_round st rc))) True"
  unfolding keccak_round_expr_def Let_def
proof (rule exec_step[OF exec_keccak_linear[OF es]], rule exec_const_expr)
  fix ts one
  assume ts: "exprs ts (theta_bits st)" and one: "eval one = 1"
  have lane: "eval (ts ! (pi_rho_index ! (64 * (x + 5 * y) + z))) = of_bool (bit (pi_lane st x y) z)"
    if "x < 5" "y < 5" "z < 64" for x y z
  proof -
    have "pi_rho_source x y z < 1600"
      using that state_index(1)[of "(x + 3 * y) mod 5" x] by (simp add: pi_rho_source_def)
    then show ?thesis
      using exprs_nth[OF ts, of "pi_rho_source x y z"] that
      unfolding nth_pi_rho_index[OF that] theta_bits_source[OF that]
      by (simp add: theta_bits_def[THEN arg_cong[of _ _ length]])
  qed
  let ?x = "\<lambda>i. i div 64 mod 5" and ?y = "\<lambda>i. i div 64 div 5"
  let ?p = "\<lambda>k i. bit (pi_lane st ((?x i + k) mod 5) (?y i)) (i mod 64)"
  let ?rc = "\<lambda>i. i div 64 = 0 \<and> drop_bit (i mod 64) rc AND 1 = 1"
  let ?g = "\<lambda>i. (?p 0 i \<noteq> (True \<noteq> ?p 1 i \<and> ?p 2 i)) \<noteq> ?rc i"
  let ?body = "\<lambda>i. do {
      not_second \<leftarrow> expr_add B one (ts ! (pi_rho_index ! (64 * ((?x i + 1) mod 5 + 5 * ?y i) + i mod 64)));
      product \<leftarrow> expr_mul B not_second (ts ! (pi_rho_index ! (64 * ((?x i + 2) mod 5 + 5 * ?y i) + i mod 64)));
      b \<leftarrow> expr_add B (ts ! (pi_rho_index ! (64 * (?x i + 5 * ?y i) + i mod 64))) product;
      if ?rc i then expr_add B b one else ret b }"
  have all: "exec (State_Monad.traverse_list ?body [0..<1600])
     (\<lambda>xs. map eval xs = map (\<lambda>i. of_bool (?g i)) [0..<1600]) True"
  proof (rule exec_values)
    fix i :: nat
    assume "i \<in> set [0..<1600]"
    then have "i < 1600" by simp
    note ix = bit_index(1-3)[OF this]
    have m: "(k + j) mod 5 < 5" for k j :: nat by simp
    have x0: "(?x i + 0) mod 5 = ?x i" by simp
    note l0 = lane[OF ix] and l1 = lane[OF m[of "?x i" 1] ix(2,3)] and l2 = lane[OF m[of "?x i" 2] ix(2,3)]
    have one': "eval one = of_bool True" using one by simp
    show "exec (?body i) (\<lambda>e. eval e = of_bool (?g i)) True"
      unfolding x0
    proof (rule exec_step[OF exec_bit_add[OF one' l1]], rule exec_step[OF exec_bit_mul[OF _ l2]],
        assumption, rule exec_step[OF exec_bit_add[OF l0]], assumption)
      fix e
      assume e: "eval e = of_bool (bit (pi_lane st (?x i) (?y i)) (i mod 64) \<noteq> (True \<noteq> ?p 1 i \<and> ?p 2 i))"
      show "exec (if ?rc i then expr_add B e one else ret e)
         (\<lambda>e. eval e = of_bool ((bit (pi_lane st (?x i) (?y i)) (i mod 64) \<noteq> (True \<noteq> ?p 1 i \<and> ?p 2 i)) \<noteq> ?rc i)) True"
      proof (cases "?rc i")
        case True
        show ?thesis
          unfolding if_P[OF True] by (rule exec_weaken[OF exec_bit_add[OF e one']]) (use True in simp_all)
      next
        case False
        show ?thesis
          unfolding if_not_P[OF False] by (rule exec_ret) (use e False in simp)
      qed
    qed
  qed
  have round: "map ?g [0..<1600] = state_bits (keccak_round st rc)"
  proof (rule state_bits_eqI)
    fix x y z :: nat
    assume xyz: "x < 5" "y < 5" "z < 64"
    note ix = state_index(2,3)[OF xyz]
    have d: "(x + 5 * y) mod 5 = x" "(x + 5 * y) div 5 = y" "(x + 0) mod 5 = x" using xyz by simp_all
    show "?g (64 * (x + 5 * y) + z) = bit (keccak_round st rc ! (x + 5 * y)) z"
      unfolding ix d nth_keccak_round[OF xyz(1,2)] bit_iff_and_drop_bit_eq_1[symmetric]
      using xyz by (auto simp: bit_xor_iff bit_and_iff bit_not_iff)
  qed
  show "exec (State_Monad.traverse_list ?body [0..<1600])
     (\<lambda>es. exprs es (state_bits (keccak_round st rc))) True"
    using all unfolding exprs_def round[symmetric] list.map_comp comp_def .
qed


section \<open>The sponge\<close>

lemma exec_initial_sponge:
  assumes ws: "wires ws bs"
  shows "exec (initial_sponge_state B ws) (\<lambda>st. wires st (sponge_bits bs)) True"
  unfolding initial_sponge_state_def Let_def
proof (rule exec_step[OF exec_constant], rule exec_step[OF exec_constant], rule exec_ret)
  fix zero one
  assume zero: "wval zero = 0" and one: "wval one = 1"
  have start: "wires (take 1600 ws @ drop (length ws) (replicate 1600 zero))
      (take 1600 bs @ drop (length bs) (replicate 1600 False))"
    using ws wires_length[OF ws] zero by (simp add: wires_def flip: take_map)
  have set: "wires (fold (\<lambda>k st. if drop_bit k (31 :: byte) AND 1 = 1 then st[n + k := one] else st) ks us)
      (fold (\<lambda>k st. if drop_bit k (31 :: byte) AND 1 = 1 then st[n + k := True] else st) ks vs)"
    if "wires us vs" for us vs ks and n :: nat
    using that
  proof (induction ks arbitrary: us vs)
    case Nil
    then show ?case by simp
  next
    case (Cons k ks)
    then show ?case by (simp add: wires_update one)
  qed
  show "wires ((fold (\<lambda>k st. if drop_bit k (31 :: byte) AND 1 = 1
        then st[length ws div 8 * 8 + k := one] else st) [0..<8]
        (take 1600 ws @ drop (length ws) (replicate 1600 zero)))[RATE_BYTES * 8 - 1 := one]) (sponge_bits bs)"
    unfolding sponge_bits_def Let_def wires_length[OF ws]
    by (intro wires_update set) (use start wires_length[OF ws] one in simp_all)
qed

end

text \<open>The states of the permutation the circuit commits to, four rounds apart.\<close>

definition rounds4 :: "nat \<Rightarrow> kstate \<Rightarrow> kstate" where
  "rounds4 g st = fold (\<lambda>round st. keccak_round st (RC ! (4 * g + round))) [0..<4] st"

fun checkpoints :: "nat list \<Rightarrow> kstate \<Rightarrow> bool list" where
  "checkpoints [] st = []"
| "checkpoints (g # gs) st = state_bits (rounds4 g st) @ checkpoints gs (rounds4 g st)"

lemma length_rounds4 [simp]: "length (rounds4 g st) = 25"
  by (simp add: rounds4_def upt_rec)

lemma length_checkpoints [simp]: "length (checkpoints gs st) = 1600 * length gs"
  by (induction gs arbitrary: st) simp_all

lemma rounds4_upt: "rounds4 g st = fold (\<lambda>ir st. keccak_round st (RC ! ir)) [4 * g..<4 * Suc g] st"
proof -
  have "[4 * g..<4 * Suc g] = map (\<lambda>round. 4 * g + round) [0..<4]"
    using map_add_upt[of "4 * g" 4] by (simp add: add.commute)
  then show ?thesis by (simp add: rounds4_def fold_map comp_def)
qed

lemma fold_rounds4: "fold rounds4 [0..<n] st = fold (\<lambda>ir st. keccak_round st (RC ! ir)) [0..<4 * n] st"
proof (induction n)
  case 0
  then show ?case by simp
next
  case (Suc n)
  have "[0..<4 * Suc n] = [0..<4 * n] @ [4 * n..<4 * Suc n]"
    using upt_add_eq_append[of 0 "4 * n" 4] by (simp add: add.commute)
  then show ?case using Suc by (simp add: rounds4_upt del: mult_Suc_right)
qed

lemma keccak_f_rounds4: "keccak_f st = fold rounds4 [0..<6] st"
  using fold_rounds4[of 6 st] by (simp add: keccak_f_rounds)

lemma checkpoints_last:
  "gs \<noteq> [] \<Longrightarrow> drop (1600 * (length gs - 1)) (checkpoints gs st) = state_bits (fold rounds4 gs st)"
proof (induction gs arbitrary: st)
  case Nil
  then show ?case by simp
next
  case (Cons g gs)
  show ?case
  proof (cases "gs = []")
    case False
    then have "1600 * length gs = 1600 + 1600 * (length gs - 1)" by (cases gs) simp_all
    with Cons False show ?thesis by simp
  qed simp
qed

lemma checkpoints_final: "drop 8000 (checkpoints [0..<6] st) = state_bits (keccak_f st)"
  using checkpoints_last[of "[0..<6]" st] by (simp add: keccak_f_rounds4)


text \<open>The checkpoints of the native code.\<close>

definition absorbed :: "bytes \<Rightarrow> kstate" where
  "absorbed m = absorb_block (replicate 25 0) (the (pad_single_block m))"

lemma length_absorbed [simp]: "length (absorbed m) = 25"
  by (simp add: absorbed_def)

lemma native_group:
  "fold (\<lambda>i (w, st). let st = keccak_round st (RC ! i)
       in (if (i + 1) mod 4 = 0 then w @ map (state_bit st) [0..<1600] else w, st))
     [4 * g..<4 * Suc g] (w, st)
   = (w @ state_bits (rounds4 g st), rounds4 g st)"
proof -
  have "[4 * g..<4 * Suc g] = [4 * g, 4 * g + 1, 4 * g + 2, 4 * g + 3]"
    by (simp add: upt_rec)
  moreover have "(4 * g + 1) mod 4 \<noteq> 0" "(4 * g + 2) mod 4 \<noteq> 0" "(4 * g + 3) mod 4 \<noteq> 0" "(4 * g + 4) mod 4 = 0"
    by presburger+
  ultimately show ?thesis
    by (simp add: rounds4_upt state_bits_def Let_def)
qed

lemma native_groups:
  "fold (\<lambda>i (w, st). let st = keccak_round st (RC ! i)
       in (if (i + 1) mod 4 = 0 then w @ map (state_bit st) [0..<1600] else w, st))
     (concat (map (\<lambda>g. [4 * g..<4 * Suc g]) gs)) (w, st)
   = (w @ checkpoints gs st, fold rounds4 gs st)"
proof (induction gs arbitrary: w st)
  case Nil
  then show ?case by simp
next
  case (Cons g gs)
  show ?case
    unfolding list.map concat.simps fold_append comp_apply native_group Cons by simp
qed

lemma append_keccak_checkpoints_eq:
  assumes "length m < 136"
  shows "append_keccak_checkpoints w m = Some (w @ checkpoints [0..<6] (absorbed m))"
proof -
  have RC: "enumerate 0 RC = map (\<lambda>i. (i, RC ! i)) [0..<24]"
    by (simp add: enumerate_eq_zip map_nth zip_map2[symmetric] zip_same_conv_map[symmetric]
        list_eq_iff_nth_eq)
  have groups: "[0..<24] = concat (map (\<lambda>g. [4 * g..<4 * Suc g]) [0..<6])"
    by (simp add: upt_rec)
  obtain block where "pad_single_block m = Some block"
    using pad_block_Some[OF assms] by metis
  then show ?thesis
    using native_groups[of "[0..<6]" w "absorbed m"]
    unfolding append_keccak_checkpoints_def absorbed_def RC groups[symmetric] fold_map comp_def
    by (simp add: Let_def split_beta)
qed

context binary_backend
begin

lemma exec_equal_bits:
  assumes es: "exprs es as" and ws: "wires ws bs" and len: "length as = length bs"
  shows "exec (State_Monad.traverse_list (\<lambda>(computed, committed). do {
        committed \<leftarrow> wire_expr B committed;
        difference \<leftarrow> expr_add B computed committed;
        assert_expr_zero B difference }) (zip es ws)) (\<lambda>_. True) (as = bs)"
proof -
  have all: "exec (State_Monad.traverse_list (\<lambda>(computed, committed). do {
        committed \<leftarrow> wire_expr B committed;
        difference \<leftarrow> expr_add B computed committed;
        assert_expr_zero B difference }) (zip es ws)) (\<lambda>xs. list_all2 (\<lambda>_ _. True) (zip es ws) xs)
      (\<forall>i\<in>set (zip es ws). (\<lambda>(e, w). eval e = wval w) i)"
  proof (rule exec_traverse, clarify)
    fix e w
    show "exec (do { w \<leftarrow> wire_expr B w; d \<leftarrow> expr_add B e w; assert_expr_zero B d })
        (\<lambda>_. True) (eval e = wval w)"
    proof (rule exec_step[OF exec_wire_expr], rule exec_step[OF exec_expr_add])
      fix v d
      assume "eval v = wval w" and "eval d = eval e + eval v"
      then show "exec (assert_expr_zero B d) (\<lambda>_. True) (eval e = wval w)"
        by (intro exec_weaken[OF exec_assert_expr_zero]) simp_all
    qed
  qed
  have eq: "(\<forall>i\<in>set (zip es ws). (\<lambda>(e, w). eval e = wval w) i) \<longleftrightarrow> as = bs"
  proof -
    have "(\<forall>i\<in>set (zip es ws). (\<lambda>(e, w). eval e = wval w) i) \<longleftrightarrow> map eval es = map wval ws"
      using exprs_length[OF es] wires_length[OF ws] len
      by (auto simp: set_zip list_eq_iff_nth_eq)
    also have "\<dots> \<longleftrightarrow> map (of_bool :: bool \<Rightarrow> 'b) as = map of_bool bs"
      using es ws by (simp add: exprs_def wires_def)
    also have "\<dots> \<longleftrightarrow> as = bs"
      by (rule inj_map_eq_map) (auto simp: inj_def of_bool_def split: if_splits)
    finally show ?thesis .
  qed
  show ?thesis by (rule exec_weaken[OF all TrueI eq])
qed

lemma exec_wire_exprs:
  assumes "wires ws bs"
  shows "exec (State_Monad.traverse_list (wire_expr B) ws) (\<lambda>es. exprs es bs) True"
  using exec_values[of ws "wire_expr B" eval wval] exec_wire_expr assms
  by (simp add: exprs_def wires_def)

lemma execR_then:
  assumes m: "execR m n P c"
    and f: "\<And>bs x. length bs = n \<Longrightarrow> P bs x \<Longrightarrow> execR (f x) 0 (\<lambda>_. Q bs) (\<lambda>_. d bs)"
  shows "execR (try_bind m f) n Q (\<lambda>bs. c bs \<and> d bs)"
proof -
  have "execR (try_bind m f) (n + 0) (\<lambda>bs. Q (take n bs)) (\<lambda>bs. c (take n bs) \<and> d (take n bs))"
    by (rule execR_bind[OF m f])
  then show ?thesis unfolding add_0_right by (rule execR_weaken) simp_all
qed

lemma execR_group:
  assumes ws: "wires ws (state_bits st)"
  shows "execR (try_bind (alloc_bits B 1600) (\<lambda>checkpoint. do {
      expression \<leftarrow> State_Monad.traverse_list (wire_expr B) ws;
      expression \<leftarrow> loop (\<lambda>round expression. keccak_round_expr B expression (RC ! (4 * g + round)))
        [0..<4] expression;
      _ \<leftarrow> State_Monad.traverse_list (\<lambda>(computed, committed). do {
          committed \<leftarrow> wire_expr B committed;
          difference \<leftarrow> expr_add B computed committed;
          assert_expr_zero B difference
        }) (zip expression checkpoint);
      ret (Inr checkpoint) })) 1600
    (\<lambda>bs ws. wires ws (state_bits (lanes bs))) (\<lambda>bs. bs = state_bits (rounds4 g st))"
  (is "execR (try_bind _ ?rest) _ _ _")
proof -
  have rest: "execR (?rest cs) 0 (\<lambda>_ ws. wires ws bs) (\<lambda>_. bs = state_bits (rounds4 g st))"
    if cs: "wires cs bs" and len: "length bs = 1600" for cs bs
  proof -
    have loop: "exec (loop (\<lambda>round expression. keccak_round_expr B expression (RC ! (4 * g + round))) [0..<4] es)
        (\<lambda>es. exprs es (state_bits (rounds4 g st))) True" if "exprs es (state_bits st)" for es
      unfolding rounds4_def
      by (rule exec_loop_pure[where R = "\<lambda>es st. exprs es (state_bits st)"])
         (auto intro: exec_keccak_round that)
    have ret: "execR (ret (Inr cs)) 0 (\<lambda>_ ws. wires ws bs) (\<lambda>_. True)"
      using cs by (intro execR_ret)
    show ?thesis
      by (rule execR_weaken[OF execR_lift[OF exec_wire_exprs[OF ws] execR_lift[OF loop
              execR_lift[OF exec_equal_bits[where as = "state_bits (rounds4 g st)", OF _ cs] ret]]]])
         (use len in auto)
  qed
  show ?thesis
    by (rule execR_weaken[OF execR_then[OF execR_alloc_bits, where Q = "\<lambda>bs ws. wires ws bs"
            and d = "\<lambda>bs. bs = state_bits (rounds4 g st)"]])
       (auto intro: rest simp: state_bits_lanes)
qed

end


context binary_backend
begin

lemma talong_checkpoints:
  "length bs = 1600 * length gs \<Longrightarrow>
     talong (\<lambda>g st bs. bs = state_bits (rounds4 g st)) (\<lambda>g st bs. lanes bs) 1600 gs st bs
       \<longleftrightarrow> bs = checkpoints gs st"
proof (induction gs arbitrary: st bs)
  case Nil
  then show ?case by simp
next
  case (Cons g gs)
  have "talong (\<lambda>g st bs. bs = state_bits (rounds4 g st)) (\<lambda>g st bs. lanes bs) 1600 (g # gs) st bs \<longleftrightarrow>
      take 1600 bs = state_bits (rounds4 g st) \<and> drop 1600 bs = checkpoints gs (rounds4 g st)"
    using Cons by (auto simp: lanes_state_bits)
  also have "\<dots> \<longleftrightarrow> bs = checkpoints (g # gs) st"
    using append_eq_conv_conj[of "state_bits (rounds4 g st)" "checkpoints gs (rounds4 g st)" bs] by auto
  finally show ?case .
qed

lemma tfold_checkpoints:
  "length bs = 1600 * length gs \<Longrightarrow> gs \<noteq> [] \<Longrightarrow>
     tfold (\<lambda>g st bs. lanes bs) 1600 gs st bs = lanes (drop (1600 * (length gs - 1)) bs)"
proof (induction gs arbitrary: st bs)
  case Nil
  then show ?case by simp
next
  case (Cons g gs)
  show ?case
  proof (cases "gs = []")
    case False
    then have "1600 * length gs = 1600 + 1600 * (length gs - 1)" by (cases gs) simp_all
    with Cons False show ?thesis by (simp add: add.commute)
  qed (use Cons in simp)
qed

theorem execR_shake:
  assumes ws: "wires ws (bytes_bits m)" and m: "length m < 136"
  shows "execR (shake_degree16 B ws) 9600 (\<lambda>bs out. wires out (drop 8000 bs))
    (\<lambda>bs. bs = checkpoints [0..<6] (absorbed m))"
proof -
  obtain block where block: "pad_single_block m = Some block"
    using pad_block_Some[OF m] by metis
  have start: "exec (initial_sponge_state B ws) (\<lambda>st. wires st (state_bits (absorbed m))) True"
    using exec_initial_sponge[OF ws] sponge_bits_absorb[OF m block] by (simp add: absorbed_def block)
  have groups: "[0..<length RC div 4] = [0..<6]" by simp
  let ?P = "\<lambda>bs out. wires out (state_bits (tfold (\<lambda>g st bs. lanes bs) 1600 [0..<6] (absorbed m) bs))"
  let ?c = "talong (\<lambda>g st bs. bs = state_bits (rounds4 g st)) (\<lambda>g st bs. lanes bs) 1600 [0..<6] (absorbed m)"
  have "execR (shake_degree16 B ws) (length [0..<6] * 1600) ?P (\<lambda>bs. True \<and> ?c bs)"
    unfolding shake_degree16_def groups
    by (rule execR_lift[OF start], rule execR_loop[where R = "\<lambda>ws st. wires ws (state_bits st)"],
        rule execR_group) simp_all
  then have run: "execR (shake_degree16 B ws) 9600 ?P (\<lambda>bs. True \<and> ?c bs)" by simp
  show ?thesis
  proof (rule execR_weaken[OF run])
    fix bs :: "bool list" and out
    assume len: "length bs = 9600" and "?P bs out"
    then show "wires out (drop 8000 bs)"
      by (simp add: tfold_checkpoints state_bits_lanes)
  next
    fix bs :: "bool list"
    assume "length bs = 9600"
    then show "(True \<and> ?c bs) = (bs = checkpoints [0..<6] (absorbed m))"
      by (simp add: talong_checkpoints del: upt_Suc)
  qed
qed

lemma execR_hidden_output:
  assumes "wires ws (bytes_bits m)" and "length m < 136"
  shows "execR (shake_hidden_output B ws n) 9600 (\<lambda>bs out. wires out (take n (drop 8000 bs)))
    (\<lambda>bs. bs = checkpoints [0..<6] (absorbed m))"
  unfolding shake_hidden_output_def
  by (rule execR_map[OF execR_shake[OF assms]]) (rule wires_take)

lemma exec_assert_bits:
  assumes us: "wires us as" and vs: "wires vs bs" and len: "length bs \<le> length as"
  shows "exec (State_Monad.traverse_list (\<lambda>(actual, expected). do {
        difference \<leftarrow> add B actual expected;
        assert_zero B difference }) (zip us vs)) (\<lambda>_. True) (take (length bs) as = bs)"
proof -
  have all: "exec (State_Monad.traverse_list (\<lambda>(actual, expected). do {
        difference \<leftarrow> add B actual expected;
        assert_zero B difference }) (zip us vs)) (\<lambda>xs. list_all2 (\<lambda>_ _. True) (zip us vs) xs)
      (\<forall>i\<in>set (zip us vs). (\<lambda>(u, v). wval u = wval v) i)"
  proof (rule exec_traverse, clarify)
    fix u v
    show "exec (do { d \<leftarrow> add B u v; assert_zero B d }) (\<lambda>_. True) (wval u = wval v)"
    proof (rule exec_step[OF exec_add])
      fix d
      assume "wval d = wval u + wval v"
      then show "exec (assert_zero B d) (\<lambda>_. True) (wval u = wval v)"
        by (intro exec_weaken[OF exec_assert_zero]) simp_all
    qed
  qed
  have eq: "(\<forall>i\<in>set (zip us vs). (\<lambda>(u, v). wval u = wval v) i) \<longleftrightarrow> take (length bs) as = bs"
  proof -
    have "(\<forall>i\<in>set (zip us vs). (\<lambda>(u, v). wval u = wval v) i) \<longleftrightarrow>
        (\<forall>i<length bs. wval (us ! i) = wval (vs ! i))"
      using len wires_length[OF us] wires_length[OF vs] by (auto simp: set_zip)
    also have "\<dots> \<longleftrightarrow> (\<forall>i<length bs. as ! i = bs ! i)"
      using len by (auto simp: wires_nth[OF us] wires_nth[OF vs] of_bool_eq_iff)
    also have "\<dots> \<longleftrightarrow> take (length bs) as = bs"
      using len by (auto simp: list_eq_iff_nth_eq)
    finally show ?thesis .
  qed
  show ?thesis by (rule exec_weaken[OF all TrueI eq])
qed

lemma execR_assert_output:
  assumes ws: "wires ws (bytes_bits m)" and m: "length m < 136" and vs: "wires vs bs" and len: "length bs \<le> 1600"
  shows "execR (shake_assert_output B ws vs) 9600 (\<lambda>_ _. True)
    (\<lambda>cs. cs = checkpoints [0..<6] (absorbed m) \<and>
       take (length bs) (state_bits (keccak_f (absorbed m))) = bs)"
proof -
  have rest: "execR (do { _ \<leftarrow> State_Monad.traverse_list (\<lambda>(actual, expected). do {
          difference \<leftarrow> add B actual expected;
          assert_zero B difference
        }) (zip us vs); ret (Inr ()) }) 0 (\<lambda>_ _. True) (\<lambda>_. take (length bs) (drop 8000 cs) = bs)"
    if "wires us (drop 8000 cs)" and "length cs = 9600" for us cs
    using execR_lift[OF exec_assert_bits[OF that(1) vs], where f = "\<lambda>_. ret (Inr ())" and n = 0
        and Q = "\<lambda>_ _. True" and d = "\<lambda>_. True"] that(2) len
    by (simp add: execR_ret)
  have "execR (shake_assert_output B ws vs) 9600 (\<lambda>_ _. True)
      (\<lambda>cs. cs = checkpoints [0..<6] (absorbed m) \<and> take (length bs) (drop 8000 cs) = bs)"
    unfolding shake_assert_output_def
    by (rule execR_then[OF execR_shake[OF ws m]]) (rule rest)
  then show ?thesis
    by (rule execR_weaken) (auto simp: checkpoints_final simp del: upt_Suc)
qed

end

end
