(* ===== verification/CircuitGadgets.thy ===== *)
theory CircuitGadgets
  imports KeccakGadget Codec
begin

text \<open>
  The other gadgets of the circuits: hash outputs, messages, packed field elements, the embedding of
  nibbles, and the comparison with the presentation limit, each with the native function it mirrors.
\<close>

section \<open>The native hash on one block\<close>

lemma shake256_short:
  assumes "length m < 136"
  shows "shake256 m n = squeeze (keccak_f (absorbed m)) n"
proof -
  obtain block where "pad_single_block m = Some block"
    using pad_block_Some[OF assms] by metis
  then show ?thesis
    using assms by (simp add: shake256_def as_chunks_def RATE_BYTES_def absorbed_def)
qed

lemma squeeze_bits: "n < 136 \<Longrightarrow> bytes_bits (squeeze st n) = take (8 * n) (state_bits st)"
  by (subst squeeze.simps) (simp add: RATE_BYTES_def chunk_bits)

lemma shake256_bits:
  "length m < 136 \<Longrightarrow> n < 136 \<Longrightarrow>
     take (8 * n) (state_bits (keccak_f (absorbed m))) = bytes_bits (shake256 m n)"
  by (simp add: shake256_short squeeze_bits)

lemma length_shake256_short: "length m < 136 \<Longrightarrow> n < 136 \<Longrightarrow> length (shake256 m n) = n"
  using shake256_bits[of m n, THEN arg_cong, of length] by simp

section \<open>Messages\<close>

definition pad8 :: "bool list \<Rightarrow> bool list" where
  "pad8 bs = bs @ replicate ((8 - length bs mod 8) mod 8) False"

context binary_backend
begin

lemma exec_constant_bits:
  "exec (State_Monad.traverse_list (constant_bit B) bs) (\<lambda>ws. wires ws bs) True"
  using exec_values[of bs "constant_bit B" wval of_bool] exec_constant
  by (simp add: wires_def constant_bit_def of_bool_def)

lemma exec_constant_bytes: "exec (constant_bytes B bs) (\<lambda>ws. wires ws (bytes_bits bs)) True"
  by (simp add: constant_bytes_def exec_constant_bits)

lemma exec_target_bits:
  "exec (target_constant_bits B G target) (\<lambda>ws. wires ws (gf16_bits G target)) True"
  by (simp add: target_constant_bits_def exec_constant_bits)

lemma exec_credential_wires:
  assumes "wires ss (bytes_bits secret)" and "wires hs (bytes_bits hiding_nonce)"
  shows "exec (credential_wires B scope ss hs)
    (\<lambda>ws. wires ws (bytes_bits (credential_message scope secret hiding_nonce))) True"
  unfolding credential_wires_def
  by (intro exec_step[OF exec_constant_bytes] exec_ret)
     (simp add: credential_message_def wires_append assms)

lemma exec_tag_wires:
  assumes "wires ss (bytes_bits secret)" and "wires ns (bytes_bits (u32_to_le nonce))"
  shows "exec (tag_wires B ss scope ns)
    (\<lambda>ws. wires ws (bytes_bits (tag_message secret scope nonce))) True"
  unfolding tag_wires_def Let_def
  by (intro exec_step[OF exec_constant_bytes] exec_ret)
     (simp add: tag_message_def wires_append assms)

lemma exec_pad_to_byte:
  "wires ws bs \<Longrightarrow> exec (pad_to_byte B ws) (\<lambda>ws. wires ws (pad8 bs)) True"
proof (induction "(8 - length bs mod 8) mod 8" arbitrary: ws bs)
  case 0
  have "length bs mod 8 = 0"
  proof (rule ccontr)
    assume "length bs mod 8 \<noteq> 0"
    moreover have "length bs mod 8 < 8" by simp
    ultimately have "(8 - length bs mod 8) mod 8 = 8 - length bs mod 8" by simp
    with 0 \<open>length bs mod 8 < 8\<close> show False by simp
  qed
  with 0 show ?case
    by (subst pad_to_byte.simps) (auto simp: pad8_def wires_length intro: exec_ret)
next
  case (Suc n)
  have ne: "length bs mod 8 \<noteq> 0"
  proof
    assume "length bs mod 8 = 0"
    with Suc(2) show False by simp
  qed
  then have n: "n = (8 - Suc (length bs) mod 8) mod 8"
    using Suc(2) by (cases "length bs mod 8 = 7") (auto simp: mod_Suc)
  have pad: "pad8 bs = pad8 (bs @ [False])"
    unfolding pad8_def by (simp flip: Suc(2) add: n[symmetric])
  have step: "exec (pad_to_byte B (ws @ [w])) (\<lambda>ws. wires ws (pad8 bs)) True" if "wval w = 0" for w
    unfolding pad using Suc(1)[of "bs @ [False]" "ws @ [w]"] wires_append[OF Suc(3), of "[w]" "[False]"] n that
    by (simp add: wires_Nil)
  show ?case
    using ne wires_length[OF Suc(3)]
    by (subst pad_to_byte.simps)
       (auto intro!: exec_step[OF exec_constant] step simp: constant_bit_def)
qed

end


section \<open>Field elements and their bits\<close>

definition bits_gf16 :: "('g, 'z) gf16_ops_scheme \<Rightarrow> bool list \<Rightarrow> 'g list" where
  "bits_gf16 G bs = map (\<lambda>i. gf16_new G (horner_sum of_bool 2 (take 4 (drop (4 * i) bs)))) [0..<length bs div 4]"

lemma length_bits_gf16 [simp]: "length (bits_gf16 G bs) = length bs div 4"
  by (simp add: bits_gf16_def)

lemma length_gf16_bits [simp]: "length (gf16_bits G vs) = 4 * length vs"
  by (simp add: gf16_bits_def length_concat_blocks)

lemma nth_gf16_bits: "i < 4 * length vs \<Longrightarrow> gf16_bits G vs ! i = bit (gf16_to_u8 G (vs ! (i div 4))) (i mod 4)"
  by (simp add: gf16_bits_def concat_blocks bit_iff_and_drop_bit_eq_1)

lemma nibble_bits_less: "length bs \<le> 4 \<Longrightarrow> (horner_sum of_bool 2 bs :: byte) < 16"
  by (simp add: less_16_iff bit_horner_sum_bit_word_iff)

lemma gf16_bits_of_bits:
  assumes "gf16_laws G" and "length bs mod 4 = 0"
  shows "gf16_bits G (bits_gf16 G bs) = bs"
proof (rule nth_equalityI)
  have len: "4 * (length bs div 4) = length bs" using assms by presburger
  then show "length (gf16_bits G (bits_gf16 G bs)) = length bs" by simp
  fix i
  assume "i < length (gf16_bits G (bits_gf16 G bs))"
  then have i: "i < length bs" using len by simp
  then have j: "i div 4 < length bs div 4" using len by (simp add: div_less_iff_less_mult mult.commute)
  have to: "gf16_to_u8 G (bits_gf16 G bs ! (i div 4)) = horner_sum of_bool 2 (take 4 (drop (4 * (i div 4)) bs))"
    using j gf16_lawsD(1)[OF assms(1) nibble_bits_less] by (simp add: bits_gf16_def)
  show "gf16_bits G (bits_gf16 G bs) ! i = bs ! i"
    using i len j by (simp add: nth_gf16_bits to bit_horner_sum_bit_word_iff)
qed

lemma bits_gf16_of_gf16:
  assumes "gf16_laws G"
  shows "bits_gf16 G (gf16_bits G vs) = vs"
proof (rule nth_equalityI)
  show "length (bits_gf16 G (gf16_bits G vs)) = length vs" by simp
  fix j
  assume "j < length (bits_gf16 G (gf16_bits G vs))"
  then have j: "j < length vs" by simp
  have "horner_sum of_bool 2 (take 4 (drop (4 * j) (gf16_bits G vs))) = gf16_to_u8 G (vs ! j)"
  proof (rule bit_word_eqI)
    fix k
    assume "k < LENGTH(8)"
    have "4 * j + k < 4 * length vs" "(4 * j + k) div 4 = j" "(4 * j + k) mod 4 = k" if "k < 4"
      using j that by simp_all
    then show "bit (horner_sum of_bool 2 (take 4 (drop (4 * j) (gf16_bits G vs))) :: byte) k
        = bit (gf16_to_u8 G (vs ! j)) k"
      using gf16_lawsD(2)[OF assms, of "vs ! j"] \<open>k < LENGTH(8)\<close> j
      by (auto simp: bit_horner_sum_bit_word_iff nth_gf16_bits less_16_iff)
  qed
  then show "bits_gf16 G (gf16_bits G vs) ! j = vs ! j"
    using j gf16_lawsD(3)[OF assms] by (simp add: bits_gf16_def)
qed

lemma gf16_bits_inject: "gf16_laws G \<Longrightarrow> gf16_bits G us = gf16_bits G vs \<longleftrightarrow> us = vs"
  by (metis bits_gf16_of_gf16)

lemma gf16_bits_append: "gf16_bits G (us @ vs) = gf16_bits G us @ gf16_bits G vs"
  by (simp add: gf16_bits_def)

text \<open>The nibbles of a hash output and the packed bytes, as bits.\<close>

lemma gf16_bits_output_nibbles:
  assumes "gf16_laws S" and "length out = div_ceil (P_M (mp S)) 2"
  shows "gf16_bits S (output_nibbles S out) = take (4 * P_M (mp S)) (bytes_bits out)"
proof (rule nth_equalityI)
  have "4 * P_M (mp S) \<le> 8 * length out"
    using assms(2) by (auto simp: div_ceil_def; presburger)
  then show "length (gf16_bits S (output_nibbles S out)) = length (take (4 * P_M (mp S)) (bytes_bits out))"
    by (simp add: output_nibbles_def)
  fix i
  assume "i < length (gf16_bits S (output_nibbles S out))"
  then have i: "i < 4 * P_M (mp S)" by (simp add: output_nibbles_def)
  then have j: "i div 4 < P_M (mp S)" by (simp add: div_less_iff_less_mult mult.commute)
  have idx: "4 * (i div 4 mod 2) + i mod 4 = i mod 8" "i div 4 div 2 = i div 8"
    using mod_mult2_eq[of i 4 2] div_mult2_eq[of i 4 2] by simp_all
  have to: "gf16_to_u8 S (output_nibbles S out ! (i div 4)) =
      drop_bit (4 * (i div 4 mod 2)) (out ! (i div 4 div 2)) AND 0x0f"
    using j gf16_lawsD(1)[OF assms(1) low_nibble_less] by (simp add: output_nibbles_def)
  show "gf16_bits S (output_nibbles S out) ! i = take (4 * P_M (mp S)) (bytes_bits out) ! i"
    using i \<open>4 * P_M (mp S) \<le> 8 * length out\<close> less_trans[OF mod_less_divisor[of 4 i], of 8]
    by (simp add: nth_gf16_bits output_nibbles_def[THEN arg_cong[of _ _ length]] to nth_bytes_bits
        bit_and_iff bit_0f bit_drop_bit_eq idx)
qed

lemma upt_4: "[0..<4] = [0, 1, 2, 3]" and upt_8: "[0..<8] = [0, 1, 2, 3, 4, 5, 6, 7]"
  by (simp_all add: upt_rec numeral_eq_Suc)

lemma byte_of_nibbles:
  assumes "(a :: byte) < 16" and "(b :: byte) < 16"
  shows "bytes_bits [a OR push_bit 4 b] =
    [bit a 0, bit a 1, bit a 2, bit a 3, bit b 0, bit b 1, bit b 2, bit b 3]"
proof -
  have "\<not> bit a k" if "4 \<le> k" for k using assms(1) that by (auto simp: less_16_iff)
  then show ?thesis
    by (simp add: bytes_bits_def upt_8 bit_or_iff bit_push_bit_iff flip: bit_iff_and_drop_bit_eq_1)
qed

lemma replicate_4: "replicate 4 x = [x, x, x, x]"
  by (simp add: numeral_eq_Suc)

lemma bytes_bits_pack_gf16:
  assumes "gf16_laws G"
  shows "bytes_bits (pack_gf16 G vs) = pad8 (gf16_bits G vs)"
  using assms
proof (induction G vs rule: pack_gf16.induct)
  case (1 G)
  then show ?case by (simp add: bytes_bits_def gf16_bits_def pad8_def)
next
  case (2 G v)
  have "gf16_bits G [v] = [bit (gf16_to_u8 G v) 0, bit (gf16_to_u8 G v) 1, bit (gf16_to_u8 G v) 2, bit (gf16_to_u8 G v) 3]"
    by (simp add: gf16_bits_def upt_4 flip: bit_iff_and_drop_bit_eq_1)
  then show ?case
    using byte_of_nibbles[of "gf16_to_u8 G v" 0] gf16_lawsD(2)[OF 2, of v]
    by (simp add: pad8_def replicate_4)
next
  case (3 G v w vs)
  have two: "gf16_bits G (v # w # vs) = bytes_bits [gf16_to_u8 G v OR push_bit 4 (gf16_to_u8 G w)] @ gf16_bits G vs"
    unfolding byte_of_nibbles[OF gf16_lawsD(2)[OF 3(2)] gf16_lawsD(2)[OF 3(2)]]
    by (simp add: gf16_bits_def upt_4 flip: bit_iff_and_drop_bit_eq_1)
  have "pad8 (bytes_bits [b] @ bs) = bytes_bits [b] @ pad8 bs" for b bs
    by (simp add: pad8_def)
  moreover have "bytes_bits (pack_gf16 G (v # w # vs)) =
      bytes_bits [gf16_to_u8 G v OR push_bit 4 (gf16_to_u8 G w)] @ bytes_bits (pack_gf16 G vs)"
    using bytes_bits_append[of "[gf16_to_u8 G v OR push_bit 4 (gf16_to_u8 G w)]" "pack_gf16 G vs"] by simp
  ultimately show ?case
    unfolding two using 3 by simp
qed


text \<open>The embedding of the nibbles into the field is additive: the value of a nibble is the sum of the
  values of its bits.\<close>

definition embed_additive :: "('g, 'z) gf16_ops_scheme \<Rightarrow> ('g \<Rightarrow> 'f::comm_ring_1) \<Rightarrow> bool" where
  "embed_additive G emb \<longleftrightarrow>
     (\<forall>b < 16. emb (gf16_new G b) =
        of_bool (bit b 0) * emb (gf16_new G 1) + of_bool (bit b 1) * emb (gf16_new G 2) +
        of_bool (bit b 2) * emb (gf16_new G 4) + of_bool (bit b 3) * emb (gf16_new G 8))"

lemma embed_additiveD:
  "embed_additive G emb \<Longrightarrow> b < 16 \<Longrightarrow> emb (gf16_new G b) =
     of_bool (bit b 0) * emb (gf16_new G 1) + of_bool (bit b 1) * emb (gf16_new G 2) +
     of_bool (bit b 2) * emb (gf16_new G 4) + of_bool (bit b 3) * emb (gf16_new G 8)"
  unfolding embed_additive_def by blast

lemma traverse_map: "State_Monad.traverse_list f (map g xs) = State_Monad.traverse_list (f \<circ> g) xs"
  by (induction xs) simp_all

lemma chunks4_eq:
  "length bs mod 4 = 0 \<Longrightarrow> chunks4 bs = map (\<lambda>i. take 4 (drop (4 * i) bs)) [0..<length bs div 4]"
proof (induction bs rule: chunks4.induct)
  case (1 a b c d rest)
  have "length (a # b # c # d # rest) div 4 = Suc (length rest div 4)" by simp
  then have "[0..<length (a # b # c # d # rest) div 4] = 0 # map Suc [0..<length rest div 4]"
    by (simp only: map_Suc_upt upt_conv_Cons zero_less_Suc One_nat_def)
  moreover have "length rest mod 4 = 0"
    using 1(2) by simp
  moreover have "drop (4 * Suc i) (a # b # c # d # rest) = drop (4 * i) rest" for i
  proof -
    have "4 * Suc i = Suc (Suc (Suc (Suc (4 * i))))" by simp
    then show ?thesis by (simp only: drop_Suc_Cons)
  qed
  ultimately show ?case using 1(1) by (simp add: comp_def del: mult_Suc_right)
qed simp_all

context binary_backend
begin

lemma exec_lift_gf16:
  assumes ws: "wires ws bs" and len: "length bs = 4" and emb: "embed_additive G emb"
  shows "exec (lift_gf16 B G emb ws) (\<lambda>w. wval w = emb (gf16_new G (horner_sum of_bool 2 bs))) True"
proof -
  let ?g = "\<lambda>(k, w) v. v + emb (gf16_new G (push_bit k 1)) * wval w"
  have loop: "exec (loop (\<lambda>(k, b) acc. do {
        term \<leftarrow> scale B (emb (gf16_new G (push_bit k 1))) b;
        add B acc term }) (enumerate 0 ws) acc) (\<lambda>w. wval w = fold ?g (enumerate 0 ws) 0) True"
    if "wval acc = 0" for acc
    by (rule exec_loop_pure[where R = "\<lambda>w v. wval w = v"])
       (auto intro!: exec_step[OF exec_scale] exec_weaken[OF exec_add] that)
  obtain w0 w1 w2 w3 where four: "ws = [w0, w1, w2, w3]"
    using wires_length[OF ws] len by (auto simp: numeral_eq_Suc length_Suc_conv)
  obtain b0 b1 b2 b3 where bits: "bs = [b0, b1, b2, b3]"
    using len by (auto simp: numeral_eq_Suc length_Suc_conv)
  have b: "bit (horner_sum of_bool 2 bs :: byte) 0 = b0" "bit (horner_sum of_bool 2 bs :: byte) 1 = b1"
      "bit (horner_sum of_bool 2 bs :: byte) 2 = b2" "bit (horner_sum of_bool 2 bs :: byte) 3 = b3"
    by (simp_all add: bits bit_horner_sum_bit_word_iff numeral_eq_Suc)
  have "fold ?g (enumerate 0 ws) 0 = emb (gf16_new G (horner_sum of_bool 2 bs))"
    unfolding embed_additiveD[OF emb nibble_bits_less[OF eq_refl[OF len]]] b
    using ws by (simp add: four bits mult.commute)
  then show ?thesis
    unfolding lift_gf16_def by (intro exec_step[OF exec_constant]) (use loop in simp)
qed

lemma exec_lift_nibbles:
  assumes ws: "wires ws bs" and len: "length bs mod 4 = 0" and emb: "embed_additive G emb"
  shows "exec (lift_nibbles B G emb ws) (\<lambda>vs. map wval vs = map emb (bits_gf16 G bs)) True"
proof -
  have ws_len: "length ws mod 4 = 0" "length ws = length bs"
    using len wires_length[OF ws] by simp_all
  have "exec (State_Monad.traverse_list (lift_gf16 B G emb \<circ> (\<lambda>i. take 4 (drop (4 * i) ws)))
        [0..<length bs div 4])
      (\<lambda>vs. map wval vs = map (\<lambda>i. emb (gf16_new G (horner_sum of_bool 2 (take 4 (drop (4 * i) bs)))))
         [0..<length bs div 4]) True"
  proof (rule exec_values)
    fix i
    assume "i \<in> set [0..<length bs div 4]"
    then have "4 * i + 4 \<le> length bs" by auto
    then show "exec ((lift_gf16 B G emb \<circ> (\<lambda>i. take 4 (drop (4 * i) ws))) i)
        (\<lambda>w. wval w = emb (gf16_new G (horner_sum of_bool 2 (take 4 (drop (4 * i) bs))))) True"
      unfolding comp_apply
      by (intro exec_lift_gf16[OF wires_take[OF wires_drop[OF ws]] _ emb]) simp
  qed
  then show ?thesis
    unfolding lift_nibbles_def chunks4_eq[OF ws_len(1)] ws_len(2) traverse_map
    by (simp add: bits_gf16_def comp_def)
qed

end


section \<open>The comparison\<close>

text \<open>The carry out of the low \<open>n\<close> bits of \<open>v + NOT limit + 1\<close>.\<close>

definition maj :: "bool \<Rightarrow> bool \<Rightarrow> bool \<Rightarrow> bool" where
  "maj a b c \<longleftrightarrow> (a \<and> b) \<or> (a \<and> c) \<or> (b \<and> c)"

fun carry :: "u32 \<Rightarrow> u32 \<Rightarrow> nat \<Rightarrow> bool" where
  "carry v limit 0 \<longleftrightarrow> True"
| "carry v limit (Suc n) \<longleftrightarrow> maj (bit v n) (n < 32 \<and> \<not> bit limit n) (carry v limit n)"

lemma carry_take_bit:
  "n \<le> 32 \<Longrightarrow> carry v limit n \<longleftrightarrow> take_bit n (unat limit) \<le> take_bit n (unat v)"
proof (induction n)
  case 0
  then show ?case by simp
next
  case (Suc n)
  have step: "take_bit (Suc n) (unat w) = take_bit n (unat w) + (if bit w n then 2 ^ n else 0)" for w :: u32
    by (simp add: take_bit_Suc_from_most bit_unsigned_iff)
  define x y P where "x = take_bit n (unat v)" and "y = take_bit n (unat limit)" and "P = (2 ^ n :: nat)"
  have "x < P" and "y < P" by (simp_all add: x_def y_def P_def)
  moreover have "carry v limit n \<longleftrightarrow> y \<le> x" using Suc by (simp add: x_def y_def)
  ultimately show ?case
    using Suc(2) unfolding step x_def[symmetric] y_def[symmetric] P_def[symmetric]
    by (auto simp: maj_def)
qed

lemma carry_32: "carry v limit 32 \<longleftrightarrow> limit \<le> v"
proof -
  have "take_bit 32 (unat w) = unat w" for w :: u32
    using unsigned_less[of w, where 'a = nat] by (simp add: take_bit_nat_eq_self)
  then show ?thesis by (simp add: carry_take_bit word_le_nat_alt)
qed

definition carries :: "u32 \<Rightarrow> u32 \<Rightarrow> bool list" where
  "carries v limit = map (\<lambda>k. carry v limit (Suc k)) [0..<32]"

lemma length_carries [simp]: "length (carries v limit) = 32"
  by (simp add: carries_def)

lemma word_bit_step:
  assumes "k < 32"
  shows "((drop_bit k v AND 1) AND (drop_bit k (NOT limit) AND 1)) OR ((drop_bit k v AND 1) AND of_bool c)
      OR ((drop_bit k (NOT limit) AND 1) AND of_bool c)
    = (of_bool (maj (bit v k) (\<not> bit limit k) c) :: u32)"
proof (rule bit_word_eqI)
  fix n
  show "bit (((drop_bit k v AND 1) AND (drop_bit k (NOT limit) AND 1)) OR ((drop_bit k v AND 1) AND of_bool c)
      OR ((drop_bit k (NOT limit) AND 1) AND of_bool c)) n
    = bit (of_bool (maj (bit v k) (\<not> bit limit k) c) :: u32) n"
    using assms
    by (cases n) (auto simp: bit_and_iff bit_or_iff bit_drop_bit_eq bit_not_iff bit_1_iff maj_def of_bool_def)
qed

lemma carry_step_eq:
  assumes "k < 32"
  shows "carry_step v limit k (out, of_bool c) =
    (out @ [maj (bit v k) (\<not> bit limit k) c], of_bool (maj (bit v k) (\<not> bit limit k) c))"
  unfolding carry_step_def Let_def split word_bit_step[OF assms] by simp

lemma native_carries:
  "n \<le> 32 \<Longrightarrow> fold (carry_step v limit) [0..<n] (out, 1) =
     (out @ map (\<lambda>k. carry v limit (Suc k)) [0..<n], of_bool (carry v limit n))"
proof (induction n)
  case 0
  then show ?case by simp
next
  case (Suc n)
  then show ?case
    using carry_step_eq[of n v limit _ "carry v limit n"] by simp
qed

lemma append_less_than_carries_eq: "append_less_than_carries out v limit = out @ carries v limit"
  by (simp add: append_less_than_carries_def PRESENTATION_NONCE_BITS_def native_carries carries_def)

context binary_backend
begin

lemma along_carries:
  assumes "length cs = 32"
  shows "m + n = 32 \<Longrightarrow> along (\<lambda>k c. cs ! k = maj (bit v k) (\<not> bit limit k) c) (\<lambda>k c. cs ! k) [m..<32] (carry v limit m)
    \<longleftrightarrow> drop m cs = drop m (carries v limit)"
proof (induction n arbitrary: m)
  case 0
  then show ?case using assms by simp
next
  case (Suc n)
  then have m: "m < 32" by simp
  then have upt: "[m..<32] = m # [Suc m..<32]" by (rule upt_conv_Cons)
  have tail: "drop m xs = xs ! m # drop (Suc m) xs" if "length xs = 32" for xs :: "bool list"
    using m that by (simp add: Cons_nth_drop_Suc)
  have nth: "carries v limit ! m = carry v limit (Suc m)"
    using m by (simp add: carries_def del: carry.simps)
  have c: "carry v limit (Suc m) = maj (bit v m) (\<not> bit limit m) (carry v limit m)"
    using m by simp
  show ?case
    using Suc.IH[of "Suc m"] Suc.prems
    unfolding upt along.simps tail[OF assms] tail[OF length_carries] nth c
    by (auto simp: c simp del: carry.simps)
qed

lemma exec_less_than:
  assumes vs: "wires vs (map (bit v) [0..<32])" and ws: "wires ws cs" and len: "length cs = 32"
  shows "exec (assert_u32_less_than B vs ws limit) (\<lambda>_. True) (cs = carries v limit \<and> v < limit)"
proof -
  have b: "drop_bit k (NOT limit) AND 1 = 1 \<longleftrightarrow> \<not> bit limit k" if "k < 32" for k
    using that by (simp add: bit_not_iff flip: bit_iff_and_drop_bit_eq_1)
  have body: "exec (do {
      a \<leftarrow> wire_expr B (vs ! k);
      carry \<leftarrow> wire_expr B carry_in;
      equation \<leftarrow> wire_expr B (ws ! k);
      let b = (drop_bit k (NOT limit) AND 1 = 1);
      equation \<leftarrow> (if b then expr_add B equation a else ret equation);
      a_times_carry \<leftarrow> expr_mul B a carry;
      equation \<leftarrow> expr_add B equation a_times_carry;
      equation \<leftarrow> (if b then expr_add B equation carry else ret equation);
      _ \<leftarrow> assert_expr_zero B equation;
      ret (ws ! k) }) (\<lambda>w. wval w = of_bool (cs ! k)) (cs ! k = maj (bit v k) (\<not> bit limit k) c)"
    if k: "k < 32" and c: "wval carry_in = of_bool c" for k carry_in c
  proof -
    have a: "wval (vs ! k) = of_bool (bit v k)" using wires_nth[OF vs] k by simp
    have e: "wval (ws ! k) = of_bool (cs ! k)" using wires_nth[OF ws] k len by simp
    let ?a = "bit v k" and ?b = "\<not> bit limit k" and ?e = "cs ! k"
    have if_add: "exec (if ?b then expr_add B x y else ret x) (\<lambda>z. eval z = of_bool (p \<noteq> (?b \<and> q))) True"
      if "eval x = of_bool p" "eval y = of_bool q" for x y p q
      using that by (auto intro: exec_bit_add exec_ret exec_weaken[OF exec_bit_add])
    have final: "exec (do { _ \<leftarrow> assert_expr_zero B z; ret (ws ! k) }) (\<lambda>w. wval w = of_bool ?e) (\<not> p)"
      if "eval z = of_bool p" for z p
      by (rule exec_weaken[OF exec_bind[OF exec_assert_expr_zero exec_ret]]) (use that e in simp_all)
    show ?thesis
      unfolding Let_def b[OF k]
    proof (rule exec_step[OF exec_wire_expr], rule exec_step[OF exec_wire_expr], rule exec_step[OF exec_wire_expr])
      fix xa xc xe
      assume "eval xa = wval (vs ! k)" "eval xc = wval carry_in" "eval xe = wval (ws ! k)"
      then have xa: "eval xa = of_bool ?a" and xc: "eval xc = of_bool c" and xe: "eval xe = of_bool ?e"
        using a c e by simp_all
      show "exec (do {
          equation \<leftarrow> (if ?b then expr_add B xe xa else ret xe);
          a_times_carry \<leftarrow> expr_mul B xa xc;
          equation \<leftarrow> expr_add B equation a_times_carry;
          equation \<leftarrow> (if ?b then expr_add B equation xc else ret equation);
          _ \<leftarrow> assert_expr_zero B equation;
          ret (ws ! k) }) (\<lambda>w. wval w = of_bool ?e) (?e = maj ?a ?b c)"
        by (rule exec_step[OF if_add[OF xe xa]], rule exec_step[OF exec_bit_mul[OF xa xc]],
            rule exec_step[OF exec_bit_add], assumption, assumption,
            rule exec_step[OF if_add[OF _ xc]], assumption, rule exec_weaken[OF final])
           (auto simp: maj_def)
    qed
  qed
  have loop: "exec (loop (\<lambda>k carry_in. do {
      a \<leftarrow> wire_expr B (vs ! k);
      carry \<leftarrow> wire_expr B carry_in;
      equation \<leftarrow> wire_expr B (ws ! k);
      let b = (drop_bit k (NOT limit) AND 1 = 1);
      equation \<leftarrow> (if b then expr_add B equation a else ret equation);
      a_times_carry \<leftarrow> expr_mul B a carry;
      equation \<leftarrow> expr_add B equation a_times_carry;
      equation \<leftarrow> (if b then expr_add B equation carry else ret equation);
      _ \<leftarrow> assert_expr_zero B equation;
      ret (ws ! k) }) [0..<32] one)
     (\<lambda>w. wval w = of_bool (fold (\<lambda>k c. cs ! k) [0..<32] True))
     (along (\<lambda>k c. cs ! k = maj (bit v k) (\<not> bit limit k) c) (\<lambda>k c. cs ! k) [0..<32] True)"
    if "wval one = 1" for one
    by (rule exec_loop[where R = "\<lambda>w c. wval w = of_bool c"]) (rule body, simp_all add: that)
  have "[0..<32] = [0..<31] @ [31 :: nat]" by code_simp
  then have last: "fold (\<lambda>k c. cs ! k) [0..<32] True = cs ! 31"
    by (simp only: fold_append fold.simps comp_apply id_apply)
  have all: "along (\<lambda>k c. cs ! k = maj (bit v k) (\<not> bit limit k) c) (\<lambda>k c. cs ! k) [0..<32] True
      \<longleftrightarrow> cs = carries v limit"
    using along_carries[OF len, of 0 32] by simp
  have final: "carries v limit ! 31 \<longleftrightarrow> limit \<le> v"
    using carry_32[of v limit] by (simp add: carries_def del: carry.simps)
  have zero: "exec (assert_zero B w) (\<lambda>_. True) (\<not> cs ! 31)" if "wval w = of_bool (fold (\<lambda>k c. cs ! k) [0..<32] True)" for w
    by (rule exec_weaken[OF exec_assert_zero]) (use that last in simp_all)
  have "exec (assert_u32_less_than B vs ws limit) (\<lambda>_. True)
      (along (\<lambda>k c. cs ! k = maj (bit v k) (\<not> bit limit k) c) (\<lambda>k c. cs ! k) [0..<32] True \<and> \<not> cs ! 31)"
    unfolding assert_u32_less_than_def PRESENTATION_NONCE_BITS_def
    by (rule exec_step[OF exec_constant], rule exec_bind[OF loop zero])
  then show ?thesis
    by (rule exec_weaken) (use all final in auto)
qed

end

section \<open>Properties\<close>

text \<open>The carry chain of \<open>append_less_than_carries\<close> appends 32 bits, and the last one, the carry out of
  \<open>v + NOT limit + 1\<close>, is set exactly when the value is not below the limit.\<close>

lemma less_than_carries_decide:
  "\<exists>cs. append_less_than_carries out v limit = out @ cs \<and> length cs = 32 \<and> (last cs \<longleftrightarrow> \<not> v < limit)"
proof -
  have "last (carries v limit) \<longleftrightarrow> limit \<le> v"
    using carry_32[of v limit] by (simp add: carries_def last_conv_nth del: carry.simps)
  then show ?thesis by (auto simp: append_less_than_carries_eq not_less)
qed

text \<open>C24: the circuit's round, run on expressions that carry the bits of any state, returns expressions
  that carry the bits of the native \<open>round\<close> applied to that state, takes no witness bit and asserts
  nothing: its table \<open>pi_rho_index\<close> moves every bit where the native rotations and lane permutation do.\<close>

theorem circuit_round_is_native_round:
  assumes "(1 :: 'f::comm_ring_1) + 1 = 0"
    and "es = map of_bool (map (state_bit st) [0..<1600])"
  shows "run_state (keccak_round_expr (check_backend system_holds) es rc) s =
    (map (of_bool :: bool \<Rightarrow> 'f) (map (state_bit (keccak_round st rc)) [0..<1600]), s)"
proof -
  have "check.exprs es (state_bits st)"
    using assms(2) by (simp add: check.exprs_def state_bits_def)
  then have "check.exec (keccak_round_expr (check_backend system_holds) es rc)
      (\<lambda>es. check.exprs es (state_bits (keccak_round st rc))) True"
    by (rule binary_backend.exec_keccak_round[OF check_binary[OF assms(1)]])
  then show ?thesis
    unfolding check.exec_def check.exprs_def state_bits_def by (auto dest!: spec[of _ s])
qed

theorem circuit_round_is_native_round_witness:
  "run_state (keccak_round_expr (check_backend (\<lambda>_ (_ :: unit) _. True))
       (map of_bool (map (state_bit (replicate 25 7)) [0..<1600]) :: bits4 list) 5) \<lparr>ck_witness = [], ck_satisfied = True\<rparr> =
     (map of_bool (map (state_bit (keccak_round (replicate 25 7) 5)) [0..<1600]), \<lparr>ck_witness = [], ck_satisfied = True\<rparr>)"
  by (rule circuit_round_is_native_round[OF bits4_char2 refl])

end
