(* ===== verification/Relations.thy ===== *)
theory Relations
  imports CircuitGadgets
begin

text \<open>
  What the two circuits state: a backend that evaluates accepts a witness exactly when it is the one
  the native code builds from some secrets, and these secrets satisfy the relation computed natively.
\<close>

section \<open>Lengths\<close>

lemma length_domains [simp, enc_len]:
  "length CREDENTIAL_DOMAIN = 22" "length SIGNED_CREDENTIAL_DOMAIN = 18" "length TAG_DOMAIN = 15"
  by (simp_all add: CREDENTIAL_DOMAIN_def SIGNED_CREDENTIAL_DOMAIN_def TAG_DOMAIN_def)

lemma length_credential_message [enc_len]:
  "length (credential_message scope secret hiding_nonce) = 22 + length scope + length secret + length hiding_nonce"
  by (simp add: credential_message_def)

lemma length_tag_message [enc_len]:
  "length (tag_message secret scope nonce) = 19 + length secret + length scope"
  by (simp add: tag_message_def)

lemma length_pack_gf16 [simp, enc_len]: "length (pack_gf16 G vs) = (length vs + 1) div 2"
  by (induction G vs rule: pack_gf16.induct) auto

lemma div_ceil_2: "div_ceil n 2 = (n + 1) div 2"
  by (auto simp: div_ceil_def; presburger)

lemma length_signed_message [enc_len]:
  "length (signed_credential_message S commitment salt) = 18 + div_ceil (length commitment) 2 + length salt"
  by (simp add: signed_credential_message_def div_ceil_2)

lemma length_output_nibbles [simp]: "length (output_nibbles S out) = P_M (mp S)"
  by (simp add: output_nibbles_def)

lemma length_credential_target [simp]: "length (credential_target S scope secret hiding_nonce) = P_M (mp S)"
  by (simp add: credential_target_def Let_def)

lemma length_signed_target [simp]: "length (signed_credential_target S commitment salt) = P_M (mp S)"
  by (simp add: signed_credential_target_def Let_def)

section \<open>Bits of the native witness\<close>

lemma append_bits:
  "append_bytes_bits out bs = out @ bytes_bits bs"
  "append_gf16_bits G out vs = out @ gf16_bits G vs"
  by (simp_all add: append_bytes_bits_def bytes_bits_def append_gf16_bits_def gf16_bits_def)

lemma append_u32_bits_eq: "append_u32_bits out v = out @ map (bit v) [0..<32]"
  by (simp add: append_u32_bits_def PRESENTATION_NONCE_BITS_def flip: bit_iff_and_drop_bit_eq_1)

lemma bytes_bits_u32: "bytes_bits (u32_to_le v) = map (bit v) [0..<32]"
proof (rule nth_equalityI)
  fix i
  assume "i < length (bytes_bits (u32_to_le v))"
  then have i: "i < 32" by simp
  then have "i div 8 < 4" by auto
  with i show "bytes_bits (u32_to_le v) ! i = map (bit v) [0..<32] ! i"
    by (simp add: nth_bytes_bits u32_to_le_def nth_le_bytes bit_simps)
qed simp

lemma u32_of_bits:
  assumes "length bs = 32"
  shows "map (bit (horner_sum of_bool 2 bs :: u32)) [0..<32] = bs"
  by (rule nth_equalityI) (simp_all add: assms bit_horner_sum_bit_word_iff)

lemma target_of_state:
  assumes "gf16_laws S" and "length m < 136" and "div_ceil (P_M (mp S)) 2 < 136"
  shows "take (4 * P_M (mp S)) (state_bits (keccak_f (absorbed m))) =
    gf16_bits S (output_nibbles S (shake256 m (div_ceil (P_M (mp S)) 2)))"
proof -
  let ?n = "div_ceil (P_M (mp S)) 2"
  have "4 * P_M (mp S) \<le> 8 * ?n" by (simp add: div_ceil_2)
  then have "take (4 * P_M (mp S)) (state_bits (keccak_f (absorbed m))) =
      take (4 * P_M (mp S)) (take (8 * ?n) (state_bits (keccak_f (absorbed m))))"
    by (simp add: min_def)
  then show ?thesis
    using gf16_bits_output_nibbles[OF assms(1), of "shake256 m ?n"] length_shake256_short[OF assms(2,3)]
    by (simp add: shake256_bits assms(2,3))
qed

section \<open>The phases of the presentation circuit\<close>

text \<open>The build function is the composition of these parts, named here for the proofs.\<close>

definition tag_phase ::
  "('s, 'f::{zero,one}, 'w, 'e, 'sys) backend \<Rightarrow> 'sys presentation_circuit \<Rightarrow> 'w list \<Rightarrow> 'w list \<Rightarrow>
     ('s, vole_error + unit) state" where
  "tag_phase B C ss ns = do {
     tag_message \<leftarrow> tag_wires B ss (pc_presentation_scope C) ns;
     expected_tag \<leftarrow> constant_bytes B (pc_tag C);
     shake_assert_output B tag_message expected_tag }"

definition signed_phase ::
  "('s, 'f::{zero,one}, 'w, 'e, 'sys) backend \<Rightarrow> ('g, 'z) suite_scheme \<Rightarrow> ('g \<Rightarrow> 'f) \<Rightarrow>
     'sys presentation_circuit \<Rightarrow> 'w list \<Rightarrow> 'w list \<Rightarrow> 'w list \<Rightarrow> 'w list \<Rightarrow> 'w list \<Rightarrow>
     ('s, vole_error + unit) state" where
  "signed_phase B S emb C sig ss ts ns commitment_bits = do {
     signed_message \<leftarrow> signed_credential_wires B commitment_bits ts;
     try_bind (shake_hidden_output B signed_message (4 * P_M (mp S))) (\<lambda>signed_target_bits. do {
       signed_target \<leftarrow> lift_nibbles B S emb signed_target_bits;
       _ \<leftarrow> assert_quad_form_system B sig (forms (pc_mayo_system C)) signed_target;
       tag_phase B C ss ns }) }"

definition commit_phase ::
  "('s, 'f::{zero,one}, 'w, 'e, 'sys) backend \<Rightarrow> ('g, 'z) suite_scheme \<Rightarrow> ('g \<Rightarrow> 'f) \<Rightarrow>
     'sys presentation_circuit \<Rightarrow> 'w list \<Rightarrow> 'w list \<Rightarrow> 'w list \<Rightarrow> 'w list \<Rightarrow> 'w list \<Rightarrow> 'w list \<Rightarrow>
     ('s, vole_error + unit) state" where
  "commit_phase B S emb C sig ss hs ts ns cs = do {
     _ \<leftarrow> assert_u32_less_than B ns cs (pc_presentation_limit C);
     credential_message \<leftarrow> credential_wires B (pc_credential_scope C) ss hs;
     try_bind (shake_hidden_output B credential_message (4 * P_M (mp S))) (signed_phase B S emb C sig ss ts ns) }"

definition circuit_ok :: "('g, 'z) suite_scheme \<Rightarrow> 'sys presentation_circuit \<Rightarrow> bool" where
  "circuit_ok S C \<longleftrightarrow> pc_presentation_limit C \<noteq> 0 \<and>
     length SIGNED_CREDENTIAL_DOMAIN + div_ceil (P_M (mp S)) 2 + SALT_BYTES < RATE_BYTES"

lemma presentation_build_phases:
  "presentation_build B S emb C =
     (if \<not> circuit_ok S C then ret (Inl InvalidParameters)
      else try_bind (alloc_bits B (4 * P_KN (mp S))) (\<lambda>signature_bits. do {
        signature \<leftarrow> lift_nibbles B S emb signature_bits;
        try_bind (alloc_bits B (32 * 8)) (\<lambda>secret.
        try_bind (alloc_bits B (32 * 8)) (\<lambda>hiding_nonce.
        try_bind (alloc_bits B (32 * 8)) (\<lambda>salt.
        try_bind (alloc_bits B 32) (\<lambda>presentation_nonce.
        try_bind (alloc_bits B 32) (\<lambda>carries.
          commit_phase B S emb C signature secret hiding_nonce salt presentation_nonce carries))))) }))"
  unfolding presentation_build_def circuit_ok_def commit_phase_def signed_phase_def tag_phase_def
    SECRET_BYTES_def HIDING_NONCE_BYTES_def SALT_BYTES_def PRESENTATION_NONCE_BITS_def
  by (simp add: not_less)

lemma circuit_ok_bounds:
  assumes "circuit_ok S C"
  shows "div_ceil (P_M (mp S)) 2 < 86" and "P_M (mp S) \<le> 172"
  using assms by (auto simp: circuit_ok_def RATE_BYTES_def SALT_BYTES_def div_ceil_2)

section \<open>The witness and the relation of a presentation\<close>

definition presentation_bits ::
  "('g, 'z) suite_scheme \<Rightarrow> 'sys presentation_circuit \<Rightarrow> 'g presentation_secrets \<Rightarrow> bool list" where
  "presentation_bits S C P =
     gf16_bits S (ps_signature P) @ bytes_bits (ps_secret P) @ bytes_bits (ps_hiding_nonce P) @
     bytes_bits (ps_salt P) @ map (bit (ps_presentation_nonce P)) [0..<32] @
     carries (ps_presentation_nonce P) (pc_presentation_limit C) @
     checkpoints [0..<6] (absorbed (credential_message (pc_credential_scope C) (ps_secret P) (ps_hiding_nonce P))) @
     checkpoints [0..<6] (absorbed (signed_credential_message S
       (credential_target S (pc_credential_scope C) (ps_secret P) (ps_hiding_nonce P)) (ps_salt P))) @
     checkpoints [0..<6] (absorbed (tag_message (ps_secret P) (pc_presentation_scope C) (ps_presentation_nonce P)))"

text \<open>What the later parts state, for the secrets the earlier parts read.\<close>

definition tag_relation :: "'sys presentation_circuit \<Rightarrow> bytes \<Rightarrow> u32 \<Rightarrow> bool list \<Rightarrow> bool" where
  "tag_relation C k v bs \<longleftrightarrow>
     bs = checkpoints [0..<6] (absorbed (tag_message k (pc_presentation_scope C) v)) \<and>
     derive_tag k (pc_presentation_scope C) v = pc_tag C"

definition signed_relation ::
  "('g, 'z) suite_scheme \<Rightarrow> ('g list \<Rightarrow> 'g list \<Rightarrow> bool) \<Rightarrow> 'sys presentation_circuit \<Rightarrow> 'g list \<Rightarrow> 'g list \<Rightarrow>
     bytes \<Rightarrow> bytes \<Rightarrow> u32 \<Rightarrow> bool list \<Rightarrow> bool" where
  "signed_relation S signs C sig com k t v bs \<longleftrightarrow>
     (\<exists>b. bs = checkpoints [0..<6] (absorbed (signed_credential_message S com t)) @ b \<and>
        signs sig (signed_credential_target S com t) \<and> tag_relation C k v b)"

definition commit_relation ::
  "('g, 'z) suite_scheme \<Rightarrow> ('g list \<Rightarrow> 'g list \<Rightarrow> bool) \<Rightarrow> 'sys presentation_circuit \<Rightarrow> 'g list \<Rightarrow>
     bytes \<Rightarrow> bytes \<Rightarrow> bytes \<Rightarrow> u32 \<Rightarrow> bool list \<Rightarrow> bool" where
  "commit_relation S signs C sig k h t v bs \<longleftrightarrow> v < pc_presentation_limit C \<and>
     (\<exists>b. bs = checkpoints [0..<6] (absorbed (credential_message (pc_credential_scope C) k h)) @ b \<and>
        signed_relation S signs C sig (credential_target S (pc_credential_scope C) k h) k t v b)"

lemma presentation_bits_split:
  "(\<exists>b1. bs = gf16_bits S sig @ b1 \<and> (\<exists>b2. b1 = bytes_bits k @ b2 \<and> (\<exists>b3. b2 = bytes_bits h @ b3 \<and>
     (\<exists>b4. b3 = bytes_bits t @ b4 \<and> (\<exists>b5. b4 = map (bit v) [0..<32] @ b5 \<and>
     (\<exists>b6. b5 = carries v (pc_presentation_limit C) @ b6 \<and> commit_relation S signs C sig k h t v b6)))))) \<longleftrightarrow>
   bs = presentation_bits S C \<lparr>ps_signature = sig, ps_secret = k, ps_hiding_nonce = h, ps_salt = t,
          ps_presentation_nonce = v\<rparr> \<and>
   v < pc_presentation_limit C \<and>
   signs sig (signed_credential_target S (credential_target S (pc_credential_scope C) k h) t) \<and>
   derive_tag k (pc_presentation_scope C) v = pc_tag C"
  unfolding commit_relation_def signed_relation_def tag_relation_def presentation_bits_def
    presentation_secrets.simps append_assoc
  by auto

context binary_backend
begin

section \<open>Sequences\<close>

lemma execR_seq:
  assumes "execR m n P c"
    and "\<And>b x. length b = n \<Longrightarrow> P b x \<Longrightarrow> execR (f x) k (\<lambda>_ _. True) (d b)"
  shows "execR (try_bind m f) (n + k) (\<lambda>_ _. True) (\<lambda>bs. \<exists>b b'. bs = b @ b' \<and> length b = n \<and> c b \<and> d b b')"
proof (rule execR_weaken[OF execR_bind[OF assms(1), where Q = "\<lambda>_ _ _. True" and d = d and k = k]])
  fix bs :: "bool list"
  assume "length bs = n + k"
  then show "(c (take n bs) \<and> d (take n bs) (drop n bs)) = (\<exists>b b'. bs = b @ b' \<and> length b = n \<and> c b \<and> d b b')"
    by (intro iffI exI[of _ "take n bs"] exI[of _ "drop n bs"]) auto
qed (use assms(2) in auto)

lemma execR_alloc_bytes:
  assumes "\<And>k ws. length k = n \<Longrightarrow> wires ws (bytes_bits k) \<Longrightarrow> execR (f ws) j (\<lambda>_ _. True) (d k)"
  shows "execR (try_bind (alloc_bits B (n * 8)) f) (n * 8 + j) (\<lambda>_ _. True)
    (\<lambda>bs. \<exists>k b'. bs = bytes_bits k @ b' \<and> length k = n \<and> d k b')"
proof (rule execR_weaken[OF execR_seq[OF execR_alloc_bits, where d = "\<lambda>b. d (bits_bytes b)"]])
  fix b ws
  assume b: "length b = n * 8" and ws: "wires ws b"
  then have "wires ws (bytes_bits (bits_bytes b))" by (simp add: bytes_bits_of_bits)
  then show "execR (f ws) j (\<lambda>_ _. True) (d (bits_bytes b))" using b by (intro assms) simp_all
next
  fix bs :: "bool list"
  show "(\<exists>b b'. bs = b @ b' \<and> length b = n * 8 \<and> True \<and> d (bits_bytes b) b') =
      (\<exists>k b'. bs = bytes_bits k @ b' \<and> length k = n \<and> d k b')"
  proof safe
    fix b b'
    assume "length b = n * 8" "d (bits_bytes b) b'"
    then show "\<exists>k b'a. b @ b' = bytes_bits k @ b'a \<and> length k = n \<and> d k b'a"
      by (intro exI[of _ "bits_bytes b"] exI[of _ b']) (simp add: bytes_bits_of_bits)
  next
    fix k b'
    assume "d k b'"
    then show "\<exists>b b'a. bytes_bits k @ b' = b @ b'a \<and> length b = length k * 8 \<and> True \<and> d (bits_bytes b) b'a"
      by (intro exI[of _ "bytes_bits k"] exI[of _ b']) (simp add: bits_bytes_of_bytes)
  qed
qed simp

lemma execR_alloc_u32:
  assumes "\<And>v ws. wires ws (map (bit v) [0..<32]) \<Longrightarrow> execR (f ws) j (\<lambda>_ _. True) (d v)"
  shows "execR (try_bind (alloc_bits B 32) f) (32 + j) (\<lambda>_ _. True)
    (\<lambda>bs. \<exists>(v :: u32) b'. bs = map (bit v) [0..<32] @ b' \<and> d v b')"
proof (rule execR_weaken[OF execR_seq[OF execR_alloc_bits, where d = "\<lambda>b. d (horner_sum of_bool 2 b)"]])
  fix b ws
  assume "length b = 32" and "wires ws b"
  then show "execR (f ws) j (\<lambda>_ _. True) (d (horner_sum of_bool 2 b))"
    by (intro assms) (simp add: u32_of_bits)
next
  fix bs :: "bool list"
  show "(\<exists>b b'. bs = b @ b' \<and> length b = 32 \<and> True \<and> d (horner_sum of_bool 2 b) b') =
      (\<exists>(v :: u32) b'. bs = map (bit v) [0..<32] @ b' \<and> d v b')"
  proof safe
    fix b b'
    assume "length b = 32" "d (horner_sum of_bool 2 b) b'"
    then show "\<exists>(v :: u32) b'a. b @ b' = map (bit v) [0..<32] @ b'a \<and> d v b'a"
      by (intro exI[of _ "horner_sum of_bool 2 b"] exI[of _ b']) (simp add: u32_of_bits)
  next
    fix v :: u32 and b'
    assume "d v b'"
    moreover have "horner_sum of_bool 2 (map (bit v) [0..<32]) = v"
      by (rule bit_word_eqI) (simp add: bit_horner_sum_bit_word_iff)
    ultimately show "\<exists>b b'a. map (bit v) [0..<32] @ b' = b @ b'a \<and> length b = 32 \<and> True \<and>
        d (horner_sum of_bool 2 b) b'a"
      by (intro exI[of _ "map (bit v) [0..<32]"] exI[of _ b']) simp
  qed
qed simp

lemma execR_alloc_gf16:
  assumes laws: "gf16_laws G"
    and "\<And>vs ws. length vs = n \<Longrightarrow> wires ws (gf16_bits G vs) \<Longrightarrow> execR (f ws) j (\<lambda>_ _. True) (d vs)"
  shows "execR (try_bind (alloc_bits B (4 * n)) f) (4 * n + j) (\<lambda>_ _. True)
    (\<lambda>bs. \<exists>vs b'. bs = gf16_bits G vs @ b' \<and> length vs = n \<and> d vs b')"
proof (rule execR_weaken[OF execR_seq[OF execR_alloc_bits, where d = "\<lambda>b. d (bits_gf16 G b)"]])
  fix b ws
  assume b: "length b = 4 * n" and ws: "wires ws b"
  then have "wires ws (gf16_bits G (bits_gf16 G b))" by (simp add: gf16_bits_of_bits laws)
  then show "execR (f ws) j (\<lambda>_ _. True) (d (bits_gf16 G b))" using b by (intro assms) simp_all
next
  fix bs :: "bool list"
  show "(\<exists>b b'. bs = b @ b' \<and> length b = 4 * n \<and> True \<and> d (bits_gf16 G b) b') =
      (\<exists>vs b'. bs = gf16_bits G vs @ b' \<and> length vs = n \<and> d vs b')"
  proof safe
    fix b b'
    assume "length b = 4 * n" "d (bits_gf16 G b) b'"
    then show "\<exists>vs b'a. b @ b' = gf16_bits G vs @ b'a \<and> length vs = n \<and> d vs b'a"
      by (intro exI[of _ "bits_gf16 G b"] exI[of _ b']) (simp add: gf16_bits_of_bits laws)
  next
    fix vs b'
    assume "d vs b'"
    then show "\<exists>b b'a. gf16_bits G vs @ b' = b @ b'a \<and> length b = 4 * length vs \<and> True \<and> d (bits_gf16 G b) b'a"
      by (intro exI[of _ "gf16_bits G vs"] exI[of _ b']) (simp add: bits_gf16_of_gf16 laws)
  qed
qed simp

section \<open>The issuance relation\<close>

lemma execR_issue:
  assumes laws: "gf16_laws S" and M: "div_ceil (P_M (mp S)) 2 < 136"
    and scope: "length (ic_credential_scope C) = 32" and target: "length (ic_target C) = P_M (mp S)"
  shows "execR (issue_build B S C) 10112 (\<lambda>_ _. True)
    (\<lambda>bs. \<exists>secret hiding_nonce. length secret = 32 \<and> length hiding_nonce = 32 \<and>
       bs = bytes_bits secret @ bytes_bits hiding_nonce @
         checkpoints [0..<6] (absorbed (credential_message (ic_credential_scope C) secret hiding_nonce)) \<and>
       credential_target S (ic_credential_scope C) secret hiding_nonce = ic_target C)"
proof -
  let ?m = "credential_message (ic_credential_scope C)"
  have body: "execR (do {
        message \<leftarrow> credential_wires B (ic_credential_scope C) ss hs;
        target \<leftarrow> target_constant_bits B S (ic_target C);
        shake_assert_output B message target }) 9600 (\<lambda>_ _. True)
      (\<lambda>cs. cs = checkpoints [0..<6] (absorbed (?m k h)) \<and>
        credential_target S (ic_credential_scope C) k h = ic_target C)"
    if "length k = 32" "wires ss (bytes_bits k)" "length h = 32" "wires hs (bytes_bits h)" for k h ss hs
  proof (rule execR_weaken[OF execR_lift[OF exec_credential_wires[OF that(2,4)] execR_lift[OF exec_target_bits
          execR_assert_output]]])
    have m: "length (?m k h) < 136" by (simp add: enc_len scope that)
    show "length (?m k h) < 136" by (rule m)
    have four: "length (gf16_bits S (ic_target C)) = 4 * P_M (mp S)" by (simp add: target)
    then show "length (gf16_bits S (ic_target C)) \<le> 1600" using M by (simp add: div_ceil_2)
    show "(True \<and> True \<and> cs = checkpoints [0..<6] (absorbed (?m k h)) \<and>
        take (length (gf16_bits S (ic_target C))) (state_bits (keccak_f (absorbed (?m k h)))) = gf16_bits S (ic_target C)) =
      (cs = checkpoints [0..<6] (absorbed (?m k h)) \<and>
        credential_target S (ic_credential_scope C) k h = ic_target C)" for cs
      unfolding four target_of_state[OF laws m M] gf16_bits_inject[OF laws]
      by (simp add: credential_target_def Let_def)
  qed
  have "execR (issue_build B S C) (32 * 8 + (32 * 8 + 9600)) (\<lambda>_ _. True)
    (\<lambda>bs. \<exists>k b'. bs = bytes_bits k @ b' \<and> length k = 32 \<and>
      (\<exists>h b''. b' = bytes_bits h @ b'' \<and> length h = 32 \<and>
        b'' = checkpoints [0..<6] (absorbed (?m k h)) \<and>
        credential_target S (ic_credential_scope C) k h = ic_target C))"
    unfolding issue_build_def SECRET_BYTES_def HIDING_NONCE_BYTES_def target
    by (simp only: refl not_True_eq_False if_False) (intro execR_alloc_bytes body)
  then show ?thesis
    by (auto elim!: execR_weaken)
qed


section \<open>The presentation relation\<close>

lemma exec_signed_wires:
  assumes laws: "gf16_laws S" and cs: "wires cs (gf16_bits S commitment)" and ss: "wires ss (bytes_bits salt)"
  shows "exec (signed_credential_wires B cs ss)
    (\<lambda>ws. wires ws (bytes_bits (signed_credential_message S commitment salt))) True"
proof -
  have pad: "pad8 (bytes_bits d @ bs) = bytes_bits d @ pad8 bs" for d bs
    by (simp add: pad8_def)
  show ?thesis
    unfolding signed_credential_wires_def Let_def
  proof (rule exec_step[OF exec_constant_bytes], rule exec_step[OF exec_pad_to_byte[OF wires_append[OF _ cs]]],
      assumption, rule exec_ret)
    fix ws
    assume "wires ws (pad8 (bytes_bits SIGNED_CREDENTIAL_DOMAIN @ gf16_bits S commitment))"
    from wires_append[OF this ss] show "wires (ws @ ss) (bytes_bits (signed_credential_message S commitment salt))"
      by (simp add: pad signed_credential_message_def Let_def bytes_bits_pack_gf16[OF laws])
  qed
qed

lemma execR_tag_phase:
  assumes ss: "wires ss (bytes_bits k)" "length k = 32" and ns: "wires ns (map (bit v) [0..<32])"
    and scope: "length (pc_presentation_scope C) = 32" and tag: "length (pc_tag C) = 32"
  shows "execR (tag_phase B C ss ns) 9600 (\<lambda>_ _. True) (tag_relation C k v)"
  unfolding tag_phase_def
proof (rule execR_weaken[OF execR_lift[OF exec_tag_wires[OF ss(1) ns[folded bytes_bits_u32]]
        execR_lift[OF exec_constant_bytes execR_assert_output]]])
  let ?m = "tag_message k (pc_presentation_scope C) v"
  have m: "length ?m < 136" by (simp add: enc_len scope ss)
  then show "length ?m < 136" .
  show "length (bytes_bits (pc_tag C)) \<le> 1600" by (simp add: tag)
  have "take (length (bytes_bits (pc_tag C))) (state_bits (keccak_f (absorbed ?m))) =
      bytes_bits (derive_tag k (pc_presentation_scope C) v)"
    using shake256_bits[OF m, of 32] by (simp add: tag derive_tag_def)
  then show "(True \<and> True \<and> bs = checkpoints [0..<6] (absorbed ?m) \<and>
        take (length (bytes_bits (pc_tag C))) (state_bits (keccak_f (absorbed ?m))) = bytes_bits (pc_tag C)) =
      tag_relation C k v bs" for bs
    by (simp add: tag_relation_def)
qed

lemma execR_lift_system:
  assumes laws: "gf16_laws S" and emb: "embed_additive S emb" and M: "P_M (mp S) \<le> 400"
    and b: "length b = 9600" and ws: "wires ws (take (4 * P_M (mp S)) (drop 8000 b))"
    and sig: "map wval sig_wires = map emb sig" and rest: "execR rest n (\<lambda>_ _. True) c"
  shows "execR (do {
      signed_target \<leftarrow> lift_nibbles B S emb ws;
      _ \<leftarrow> assert_quad_form_system B sig_wires sys signed_target;
      rest }) n (\<lambda>_ _. True)
    (\<lambda>b'. system_holds (map emb sig) sys (map emb (bits_gf16 S (take (4 * P_M (mp S)) (drop 8000 b)))) \<and> c b')"
proof -
  have "length (take (4 * P_M (mp S)) (drop 8000 b)) = 4 * P_M (mp S)" using b M by simp
  then have "length (take (4 * P_M (mp S)) (drop 8000 b)) mod 4 = 0" by simp
  note lift = exec_lift_nibbles[OF ws this emb]
  have system: "exec (assert_quad_form_system B sig_wires sys vs) (\<lambda>_. True)
      (system_holds (map emb sig) sys (map emb (bits_gf16 S (take (4 * P_M (mp S)) (drop 8000 b)))))"
    if "map wval vs = map emb (bits_gf16 S (take (4 * P_M (mp S)) (drop 8000 b)))" for vs
    using exec_assert_system[of sig_wires sys vs] by (simp add: sig that)
  show ?thesis
    by (rule execR_weaken[OF execR_lift[OF lift execR_lift[OF system rest]]]) simp_all
qed

text \<open>The quadratic system on the embedded elements.\<close>

definition signs :: "('g \<Rightarrow> 'b) \<Rightarrow> 'e presentation_circuit \<Rightarrow> 'g list \<Rightarrow> 'g list \<Rightarrow> bool" where
  "signs emb C sig target \<longleftrightarrow> system_holds (map emb sig) (forms (pc_mayo_system C)) (map emb target)"

lemma execR_signed_phase:
  assumes laws: "gf16_laws S" and emb: "embed_additive S emb" and ok: "circuit_ok S C"
    and cs: "wires cs (gf16_bits S com)" "length com = P_M (mp S)"
    and ss: "wires ss (bytes_bits k)" "length k = 32" and ts: "wires ts (bytes_bits t)" "length t = 32"
    and ns: "wires ns (map (bit v) [0..<32])" and sig: "map wval sig_wires = map emb sig"
    and lens: "length (pc_presentation_scope C) = 32" "length (pc_tag C) = 32"
  shows "execR (signed_phase B S emb C sig_wires ss ts ns cs) 19200 (\<lambda>_ _. True)
    (signed_relation S (signs emb C) C sig com k t v)"
proof -
  let ?m = "signed_credential_message S com t"
  note M = circuit_ok_bounds[OF ok]
  have m: "length ?m < 136" using M by (simp add: enc_len cs ts)
  have hash: "bits_gf16 S (take (4 * P_M (mp S)) (drop 8000 (checkpoints [0..<6] (absorbed ?m)))) =
      signed_credential_target S com t"
    using target_of_state[OF laws m] M
    unfolding checkpoints_final by (simp add: signed_credential_target_def Let_def bits_gf16_of_gf16[OF laws])
  note tag = execR_tag_phase[OF ss ns lens]
  have "execR (signed_phase B S emb C sig_wires ss ts ns cs) (9600 + 9600) (\<lambda>_ _. True)
      (\<lambda>bs. True \<and> (\<exists>b b'. bs = b @ b' \<and> length b = 9600 \<and> b = checkpoints [0..<6] (absorbed ?m) \<and>
        (system_holds (map emb sig) (forms (pc_mayo_system C))
          (map emb (bits_gf16 S (take (4 * P_M (mp S)) (drop 8000 b)))) \<and> tag_relation C k v b')))"
    unfolding signed_phase_def
    by (rule execR_lift[OF exec_signed_wires[OF laws cs(1) ts(1)]
          execR_seq[OF execR_hidden_output[OF _ m] execR_lift_system[OF laws emb _ _ _ sig tag]]])
       (use M in auto)
  then show ?thesis
    by (auto elim!: execR_weaken simp: hash signed_relation_def signs_def simp del: upt_Suc)
qed

lemma execR_commit_phase:
  assumes laws: "gf16_laws S" and emb: "embed_additive S emb" and ok: "circuit_ok S C"
    and sig: "map wval sig_wires = map emb sig"
    and ss: "length k = 32" "wires ss (bytes_bits k)" and hs: "length h = 32" "wires hs (bytes_bits h)"
    and ts: "length t = 32" "wires ts (bytes_bits t)" and ns: "wires ns (map (bit v) [0..<32])"
    and cs: "wires ws cs" "length cs = 32"
    and lens: "length (pc_credential_scope C) = 32" "length (pc_presentation_scope C) = 32" "length (pc_tag C) = 32"
  shows "execR (commit_phase B S emb C sig_wires ss hs ts ns ws) 28800 (\<lambda>_ _. True)
    (\<lambda>bs. cs = carries v (pc_presentation_limit C) \<and> commit_relation S (signs emb C) C sig k h t v bs)"
proof -
  let ?m = "credential_message (pc_credential_scope C) k h"
  let ?com = "\<lambda>b. bits_gf16 S (take (4 * P_M (mp S)) (drop 8000 b))"
  note M = circuit_ok_bounds[OF ok]
  have m: "length ?m < 136" by (simp add: enc_len lens ss hs)
  have hash: "?com (checkpoints [0..<6] (absorbed ?m)) = credential_target S (pc_credential_scope C) k h"
    using target_of_state[OF laws m] M
    unfolding checkpoints_final by (simp add: credential_target_def Let_def bits_gf16_of_gf16[OF laws])
  have signed: "execR (signed_phase B S emb C sig_wires ss ts ns us) 19200 (\<lambda>_ _. True)
      (signed_relation S (signs emb C) C sig (?com b) k t v)"
    if "length b = 9600" and "wires us (take (4 * P_M (mp S)) (drop 8000 b))" for b us
  proof -
    have len: "length (take (4 * P_M (mp S)) (drop 8000 b)) = 4 * P_M (mp S)" using that(1) M by simp
    show ?thesis
      by (rule execR_signed_phase[OF laws emb ok _ _ ss(2,1) ts(2,1) ns sig lens(2,3)])
         (use that(2) len in \<open>simp_all add: gf16_bits_of_bits[OF laws]\<close>)
  qed
  have "execR (commit_phase B S emb C sig_wires ss hs ts ns ws) (9600 + 19200) (\<lambda>_ _. True)
      (\<lambda>bs. (cs = carries v (pc_presentation_limit C) \<and> v < pc_presentation_limit C) \<and> True \<and>
        (\<exists>b b'. bs = b @ b' \<and> length b = 9600 \<and> b = checkpoints [0..<6] (absorbed ?m) \<and>
           signed_relation S (signs emb C) C sig (?com b) k t v b'))"
    unfolding commit_phase_def
    by (rule execR_lift[OF exec_less_than[OF ns cs] execR_lift[OF exec_credential_wires[OF ss(2) hs(2)]
          execR_seq[OF execR_hidden_output[OF _ m] signed]]])
  then show ?thesis
    by (auto elim!: execR_weaken simp: hash commit_relation_def simp del: upt_Suc)
qed

lemma execR_presentation_split:
  assumes laws: "gf16_laws S" and emb: "embed_additive S emb" and ok: "circuit_ok S C"
    and lens: "length (pc_credential_scope C) = 32" "length (pc_presentation_scope C) = 32" "length (pc_tag C) = 32"
  shows "execR (presentation_build B S emb C)
      (4 * P_KN (mp S) + (32 * 8 + (32 * 8 + (32 * 8 + (32 + (32 + 28800)))))) (\<lambda>_ _. True)
    (\<lambda>bs. \<exists>sig b1. bs = gf16_bits S sig @ b1 \<and> length sig = P_KN (mp S) \<and> (True \<and>
      (\<exists>k b2. b1 = bytes_bits k @ b2 \<and> length k = 32 \<and>
      (\<exists>h b3. b2 = bytes_bits h @ b3 \<and> length h = 32 \<and>
      (\<exists>t b4. b3 = bytes_bits t @ b4 \<and> length t = 32 \<and>
      (\<exists>(v :: u32) b5. b4 = map (bit v) [0..<32] @ b5 \<and>
      (\<exists>b6. b5 = carries v (pc_presentation_limit C) @ b6 \<and>
         commit_relation S (signs emb C) C sig k h t v b6)))))))"
proof -
  have carries: "execR (try_bind (alloc_bits B 32) (commit_phase B S emb C sig_wires ss hs ts ns)) (32 + 28800)
      (\<lambda>_ _. True)
      (\<lambda>bs. \<exists>b. bs = carries v (pc_presentation_limit C) @ b \<and> commit_relation S (signs emb C) C sig k h t v b)"
    if "map wval sig_wires = map emb sig"
      and "length k = 32" "wires ss (bytes_bits k)" and "length h = 32" "wires hs (bytes_bits h)"
      and "length t = 32" "wires ts (bytes_bits t)" and "wires ns (map (bit v) [0..<32])"
    for sig_wires sig k ss h hs t ts v ns
    by (rule execR_weaken[OF execR_seq[OF execR_alloc_bits execR_commit_phase[OF laws emb ok that _ _ lens]]]) auto
  have lift: "exec (lift_nibbles B S emb ws) (\<lambda>vs. map wval vs = map emb sig) True"
    if "wires ws (gf16_bits S sig)" for ws sig
    using exec_lift_nibbles[OF that _ emb] by (simp add: bits_gf16_of_gf16[OF laws])
  have "\<not> \<not> circuit_ok S C" using ok by simp
  then show ?thesis
    unfolding presentation_build_phases if_not_P[OF \<open>\<not> \<not> circuit_ok S C\<close>]
    by (intro execR_alloc_gf16[OF laws] execR_lift[OF lift] execR_alloc_bytes execR_alloc_u32 carries)
qed

lemma execR_presentation:
  assumes laws: "gf16_laws S" and emb: "embed_additive S emb" and ok: "circuit_ok S C"
    and lens: "length (pc_credential_scope C) = 32" "length (pc_presentation_scope C) = 32" "length (pc_tag C) = 32"
  shows "execR (presentation_build B S emb C) (4 * P_KN (mp S) + 29632) (\<lambda>_ _. True)
    (\<lambda>bs. \<exists>sig k h t v. length sig = P_KN (mp S) \<and> length k = 32 \<and> length h = 32 \<and> length t = 32 \<and>
       bs = presentation_bits S C \<lparr>ps_signature = sig, ps_secret = k, ps_hiding_nonce = h, ps_salt = t,
              ps_presentation_nonce = v\<rparr> \<and>
       v < pc_presentation_limit C \<and>
       signs emb C sig (signed_credential_target S (credential_target S (pc_credential_scope C) k h) t) \<and>
       derive_tag k (pc_presentation_scope C) v = pc_tag C)"
proof -
  have "4 * P_KN (mp S) + (32 * 8 + (32 * 8 + (32 * 8 + (32 + (32 + 28800))))) = 4 * P_KN (mp S) + 29632"
    by simp
  from execR_presentation_split[OF assms, unfolded this] show ?thesis
  proof (rule execR_weaken)
    fix bs :: "bool list"
    show "(\<exists>sig b1. bs = gf16_bits S sig @ b1 \<and> length sig = P_KN (mp S) \<and> (True \<and>
        (\<exists>k b2. b1 = bytes_bits k @ b2 \<and> length k = 32 \<and>
        (\<exists>h b3. b2 = bytes_bits h @ b3 \<and> length h = 32 \<and>
        (\<exists>t b4. b3 = bytes_bits t @ b4 \<and> length t = 32 \<and>
        (\<exists>(v :: u32) b5. b4 = map (bit v) [0..<32] @ b5 \<and>
        (\<exists>b6. b5 = carries v (pc_presentation_limit C) @ b6 \<and>
           commit_relation S (signs emb C) C sig k h t v b6))))))) \<longleftrightarrow>
      (\<exists>sig k h t v. length sig = P_KN (mp S) \<and> length k = 32 \<and> length h = 32 \<and> length t = 32 \<and>
       bs = presentation_bits S C \<lparr>ps_signature = sig, ps_secret = k, ps_hiding_nonce = h, ps_salt = t,
              ps_presentation_nonce = v\<rparr> \<and>
       v < pc_presentation_limit C \<and>
       signs emb C sig (signed_credential_target S (credential_target S (pc_credential_scope C) k h) t) \<and>
       derive_tag k (pc_presentation_scope C) v = pc_tag C)"
      unfolding presentation_bits_split[symmetric] by blast
  qed simp
qed

end

section \<open>The native witness\<close>

lemma issue_witness_eq:
  assumes "length (ic_credential_scope C) = 32" and "length k = 32" and "length h = 32"
  shows "issue_witness C k h = Some (bytes_bits k @ bytes_bits h @
    checkpoints [0..<6] (absorbed (credential_message (ic_credential_scope C) k h)))"
  using assms
  by (simp add: issue_witness_def Let_def append_bits append_keccak_checkpoints_eq enc_len)

lemma presentation_witness_eq:
  assumes ok: "circuit_ok S C"
    and "length (pc_credential_scope C) = 32" "length (pc_presentation_scope C) = 32"
    and "length (ps_secret P) = 32" "length (ps_hiding_nonce P) = 32" "length (ps_salt P) = 32"
  shows "presentation_witness S C P = Some (presentation_bits S C P)"
  using assms circuit_ok_bounds[OF ok]
  by (simp add: presentation_witness_def presentation_bits_def Let_def append_bits append_u32_bits_eq
      append_less_than_carries_eq append_keccak_checkpoints_eq enc_len del: upt_Suc)

lemma ex_secrets:
  "(\<exists>P. Q P) \<longleftrightarrow> (\<exists>sig k h t v. Q \<lparr>ps_signature = sig, ps_secret = k, ps_hiding_nonce = h,
     ps_salt = t, ps_presentation_nonce = v\<rparr>)"
proof safe
  fix P
  assume "Q P"
  then show "\<exists>sig k h t v. Q \<lparr>ps_signature = sig, ps_secret = k, ps_hiding_nonce = h,
     ps_salt = t, ps_presentation_nonce = v\<rparr>"
    by (cases P) blast
qed blast

section \<open>A concrete suite\<close>

text \<open>The code's own SHAKE256, 4-bit words as field elements, and a small parameter set.\<close>

definition demo_params :: mayo_params where
  "demo_params = \<lparr>P_N = 6, P_M = 4, P_O = 2, P_K = 2, P_KN = 12, P_NAME = ascii ''demo'', P_WIRE_ID = 1\<rparr>"

definition demo_suite :: "(4 word) suite" where
  "demo_suite = \<lparr>gf16_new = ucast, gf16_to_u8 = ucast, sha3 = shake256, mp = demo_params,
     gf16_slice_as_bytes = map ucast\<rparr>"

definition demo_embed :: "4 word \<Rightarrow> bits4" where
  "demo_embed w = Bits4 (bit w 0) (bit w 1) (bit w 2) (bit w 3)"

lemma demo_laws: "gf16_laws demo_suite"
  using word_gf16_laws by (simp add: gf16_laws_def demo_suite_def word_gf16_def)

lemma demo_embed_additive: "embed_additive demo_suite demo_embed"
  unfolding embed_additive_def
  by (auto simp: demo_suite_def demo_embed_def plus_bits4_def times_bits4_def zero_bits4_def one_bits4_def
      of_bool_def bit_simps)

lemma demo_mp [simp]: "mp demo_suite = demo_params"
  by (simp add: demo_suite_def)

lemma demo_bounds: "div_ceil (P_M (mp demo_suite)) 2 = 2"
  by (simp add: demo_params_def div_ceil_def)

section \<open>What the circuits accept\<close>

text \<open>
  The relation of the issuance circuit: the witness is the native one of a secret and a hiding nonce
  that open the target. The relation of the presentation circuit, for one assignment of the secrets:
  the signature is a preimage of the salted commitment, the tag is the derived one, and the counter is
  below the limit.
\<close>

definition issue_relation :: "('g, 'z) suite_scheme \<Rightarrow> 'g issue_circuit \<Rightarrow> bool list \<Rightarrow> bool" where
  "issue_relation S C ws \<longleftrightarrow>
    length (ic_target C) = P_M (mp S) \<and>
    (\<exists>secret hiding_nonce. length secret = 32 \<and> length hiding_nonce = 32 \<and>
       issue_witness C secret hiding_nonce = Some ws \<and>
       credential_target S (ic_credential_scope C) secret hiding_nonce = ic_target C)"

definition presentation_relation ::
  "('g, 'z) suite_scheme \<Rightarrow> ('g \<Rightarrow> 'f) \<Rightarrow> ('f list \<Rightarrow> 'sys \<Rightarrow> 'f list \<Rightarrow> bool) \<Rightarrow> 'sys presentation_circuit \<Rightarrow>
     bool list \<Rightarrow> 'g presentation_secrets \<Rightarrow> bool" where
  "presentation_relation S emb system_holds C ws P \<longleftrightarrow>
     length (ps_signature P) = P_KN (mp S) \<and> length (ps_secret P) = 32 \<and>
     length (ps_hiding_nonce P) = 32 \<and> length (ps_salt P) = 32 \<and>
     presentation_witness S C P = Some ws \<and>
     ps_presentation_nonce P < pc_presentation_limit C \<and>
     system_holds (map emb (ps_signature P)) (forms (pc_mayo_system C))
       (map emb (signed_credential_target S
          (credential_target S (pc_credential_scope C) (ps_secret P) (ps_hiding_nonce P)) (ps_salt P))) \<and>
     derive_tag (ps_secret P) (pc_presentation_scope C) (ps_presentation_nonce P) = pc_tag C"

lemma issue_accepts_iff:
  fixes S :: "('g, 'z) suite_scheme" and C :: "'g issue_circuit"
    and system_holds :: "'f::comm_ring_1 list \<Rightarrow> 'sys \<Rightarrow> 'f list \<Rightarrow> bool"
  assumes "gf16_laws S" and "(1 :: 'f) + 1 = 0" and "div_ceil (P_M (mp S)) 2 < 136"
    and "length (ic_credential_scope C) = 32"
  shows "accepts (issue_build (check_backend system_holds) S C) ws \<longleftrightarrow> issue_relation S C ws"
proof (cases "length (ic_target C) = P_M (mp S)")
  case False
  then show ?thesis by (simp add: issue_build_def accepts_def issue_relation_def)
next
  case True
  note run = binary_backend.execR_issue[OF check_binary[OF assms(2)] assms(1,3,4) True]
  have eq: "(length k = 32 \<and> length h = 32 \<and> issue_witness C k h = Some ws \<and>
       credential_target S (ic_credential_scope C) k h = ic_target C) \<longleftrightarrow>
    length ws = 10112 \<and> length k = 32 \<and> length h = 32 \<and>
      ws = bytes_bits k @ bytes_bits h @
         checkpoints [0..<6] (absorbed (credential_message (ic_credential_scope C) k h)) \<and>
      credential_target S (ic_credential_scope C) k h = ic_target C" for k h
    by (auto simp: issue_witness_eq[OF assms(4)] simp del: upt_Suc)
  show ?thesis
    using True unfolding accepts_execR[OF run] issue_relation_def eq
    by (simp only: ex_simps simp_thms)
qed

lemma presentation_accepts_iff:
  fixes S :: "('g, 'z) suite_scheme" and C :: "'sys presentation_circuit"
    and system_holds :: "'f::comm_ring_1 list \<Rightarrow> 'sys \<Rightarrow> 'f list \<Rightarrow> bool"
  assumes "gf16_laws S" and "(1 :: 'f) + 1 = 0" and "embed_additive S emb"
    and "length (pc_credential_scope C) = 32" and "length (pc_presentation_scope C) = 32"
    and "length (pc_tag C) = 32"
  shows "accepts (presentation_build (check_backend system_holds) S emb C) ws \<longleftrightarrow>
    circuit_ok S C \<and> (\<exists>P. presentation_relation S emb system_holds C ws P)"
proof (cases "circuit_ok S C")
  case False
  then show ?thesis by (simp add: presentation_build_phases accepts_def)
next
  case True
  note run = binary_backend.execR_presentation[OF check_binary[OF assms(2)] assms(1,3) True assms(4-6)]
  have length_bits: "length (presentation_bits S C P) = 4 * P_KN (mp S) + 29632"
    if "length (ps_signature P) = P_KN (mp S)" "length (ps_secret P) = 32" "length (ps_hiding_nonce P) = 32"
      "length (ps_salt P) = 32" for P
    using that by (simp add: presentation_bits_def)
  have eq: "presentation_relation S emb system_holds C ws P \<longleftrightarrow> length ws = 4 * P_KN (mp S) + 29632 \<and>
      length (ps_signature P) = P_KN (mp S) \<and> length (ps_secret P) = 32 \<and>
      length (ps_hiding_nonce P) = 32 \<and> length (ps_salt P) = 32 \<and> ws = presentation_bits S C P \<and>
      ps_presentation_nonce P < pc_presentation_limit C \<and>
      system_holds (map emb (ps_signature P)) (forms (pc_mayo_system C))
         (map emb (signed_credential_target S
            (credential_target S (pc_credential_scope C) (ps_secret P) (ps_hiding_nonce P)) (ps_salt P))) \<and>
      derive_tag (ps_secret P) (pc_presentation_scope C) (ps_presentation_nonce P) = pc_tag C" for P
    using presentation_witness_eq[OF True assms(4,5)] length_bits by (auto simp: presentation_relation_def)
  then show ?thesis
    unfolding accepts_execR[OF run] binary_backend.signs_def[OF check_binary[OF assms(2)]] eq
    by (simp only: ex_secrets presentation_secrets.simps simp_thms True ex_simps)
qed

section \<open>Properties\<close>

text \<open>C5: the issuance circuit. A witness is accepted (the circuit runs to its end, uses the witness up
  and every assertion holds) exactly when the statement's target has the right length and the witness
  is the one \<open>IssueCircuit::witness\<close> builds from some 32-byte secret and hiding nonce whose
  commitment under the credential scope is the target.\<close>

theorem issue_circuit_relation:
  fixes S :: "('g, 'z) suite_scheme" and C :: "'g issue_circuit"
    and system_holds :: "'f::comm_ring_1 list \<Rightarrow> 'sys \<Rightarrow> 'f list \<Rightarrow> bool"
  assumes "gf16_laws S" and "(1 :: 'f) + 1 = 0" and "div_ceil (P_M (mp S)) 2 < 136"
    and "length (ic_credential_scope C) = 32"
  shows "accepts (issue_build (check_backend system_holds) S C) ws \<longleftrightarrow>
    length (ic_target C) = P_M (mp S) \<and>
    (\<exists>secret hiding_nonce. length secret = 32 \<and> length hiding_nonce = 32 \<and>
       issue_witness C secret hiding_nonce = Some ws \<and>
       credential_target S (ic_credential_scope C) secret hiding_nonce = ic_target C)"
  using issue_accepts_iff[OF assms] by (simp add: issue_relation_def)

theorem issue_circuit_relation_witness:
  "let C = \<lparr>ic_credential_scope = replicate 32 1,
            ic_target = credential_target demo_suite (replicate 32 1) (replicate 32 2) (replicate 32 3)\<rparr>
   in \<exists>ws. issue_witness C (replicate 32 2) (replicate 32 3) = Some ws \<and>
        accepts (issue_build (check_backend (\<lambda>(xs :: bits4 list) () ts. xs = ts)) demo_suite C) ws"
proof -
  define C where "C = \<lparr>ic_credential_scope = replicate 32 (1 :: byte), ic_target =
    credential_target demo_suite (replicate 32 1) (replicate 32 2) (replicate 32 3)\<rparr>"
  have "length (ic_credential_scope C) = 32" and "div_ceil (P_M (mp demo_suite)) 2 < 136"
    by (simp_all add: C_def demo_bounds del: demo_mp)
  note rel = issue_circuit_relation[OF demo_laws bits4_char2 this(2,1),
      of "\<lambda>(xs :: bits4 list) () ts. xs = ts"]
  obtain ws where "issue_witness C (replicate 32 2) (replicate 32 3) = Some ws"
    by (simp add: issue_witness_eq C_def)
  moreover have "length (ic_target C) = P_M (mp demo_suite)"
    and "credential_target demo_suite (ic_credential_scope C) (replicate 32 2) (replicate 32 3) = ic_target C"
    by (simp_all add: C_def)
  ultimately show ?thesis
    unfolding Let_def C_def[symmetric] rel by (metis length_replicate)
qed

text \<open>C4: the presentation circuit. A witness is accepted exactly when the limit is nonzero, the parameter
  set fits one block, and the witness is the one \<open>PresentationCircuit::witness\<close> builds from some
  signature, secret, hiding nonce, salt and counter such that the signature solves the issuer's
  quadratic system for the salted commitment of the secret, the tag is the one derived from the secret,
  the presentation scope and the counter, and the counter is below the presentation limit.\<close>

theorem presentation_circuit_relation:
  fixes S :: "('g, 'z) suite_scheme" and C :: "'sys presentation_circuit"
    and system_holds :: "'f::comm_ring_1 list \<Rightarrow> 'sys \<Rightarrow> 'f list \<Rightarrow> bool"
  assumes "gf16_laws S" and "(1 :: 'f) + 1 = 0" and "embed_additive S emb"
    and "length (pc_credential_scope C) = 32" and "length (pc_presentation_scope C) = 32"
    and "length (pc_tag C) = 32"
  shows "accepts (presentation_build (check_backend system_holds) S emb C) ws \<longleftrightarrow>
    circuit_ok S C \<and>
    (\<exists>P. length (ps_signature P) = P_KN (mp S) \<and> length (ps_secret P) = 32 \<and>
       length (ps_hiding_nonce P) = 32 \<and> length (ps_salt P) = 32 \<and>
       presentation_witness S C P = Some ws \<and>
       ps_presentation_nonce P < pc_presentation_limit C \<and>
       system_holds (map emb (ps_signature P)) (forms (pc_mayo_system C))
         (map emb (signed_credential_target S
            (credential_target S (pc_credential_scope C) (ps_secret P) (ps_hiding_nonce P)) (ps_salt P))) \<and>
       derive_tag (ps_secret P) (pc_presentation_scope C) (ps_presentation_nonce P) = pc_tag C)"
  using presentation_accepts_iff[OF assms] by (simp add: presentation_relation_def)

theorem presentation_circuit_relation_witness:
  "let P = \<lparr>ps_signature = replicate 12 1, ps_secret = replicate 32 2, ps_hiding_nonce = replicate 32 3,
            ps_salt = replicate 32 4, ps_presentation_nonce = 4\<rparr>;
       C = \<lparr>pc_mayo_system = MayoFormSystem (), pc_credential_scope = replicate 32 5,
            pc_presentation_scope = replicate 32 6, pc_presentation_limit = 5,
            pc_tag = derive_tag (replicate 32 2) (replicate 32 6) 4\<rparr>
   in \<exists>ws. presentation_witness demo_suite C P = Some ws \<and>
        accepts (presentation_build (check_backend (\<lambda>xs (_ :: unit) ts. length xs = 12 \<and> length ts = 4))
          demo_suite demo_embed C) ws"
proof -
  define P :: "4 word presentation_secrets" where "P = \<lparr>ps_signature = replicate 12 1,
    ps_secret = replicate 32 2, ps_hiding_nonce = replicate 32 3, ps_salt = replicate 32 4, ps_presentation_nonce = 4\<rparr>"
  define C where "C = \<lparr>pc_mayo_system = MayoFormSystem (), pc_credential_scope = replicate 32 5,
    pc_presentation_scope = replicate 32 6, pc_presentation_limit = 5,
    pc_tag = derive_tag (replicate 32 2) (replicate 32 6) 4\<rparr>"
  have lens: "length (pc_credential_scope C) = 32" "length (pc_presentation_scope C) = 32" "length (pc_tag C) = 32"
    by (simp_all add: C_def derive_tag_def length_shake256_short enc_len)
  have ok: "circuit_ok demo_suite C"
    by (simp add: circuit_ok_def C_def demo_bounds SALT_BYTES_def RATE_BYTES_def del: demo_mp)
  note rel = presentation_circuit_relation[OF demo_laws bits4_char2 demo_embed_additive lens]
  have "presentation_witness demo_suite C P = Some (presentation_bits demo_suite C P)"
    by (rule presentation_witness_eq[OF ok lens(1,2)]) (simp_all add: P_def)
  moreover have "length (ps_signature P) = P_KN (mp demo_suite)" "length (ps_secret P) = 32"
      "length (ps_hiding_nonce P) = 32" "length (ps_salt P) = 32"
      "ps_presentation_nonce P < pc_presentation_limit C"
      "derive_tag (ps_secret P) (pc_presentation_scope C) (ps_presentation_nonce P) = pc_tag C"
    by (simp_all add: P_def C_def demo_params_def)
  moreover have "(\<lambda>xs (_ :: unit) ts. length xs = 12 \<and> length ts = 4) (map demo_embed (ps_signature P))
      (forms (pc_mayo_system C)) (map demo_embed (signed_credential_target demo_suite
         (credential_target demo_suite (pc_credential_scope C) (ps_secret P) (ps_hiding_nonce P)) (ps_salt P)))"
    by (simp add: P_def demo_params_def)
  ultimately show ?thesis
    using ok unfolding Let_def C_def[symmetric] P_def[symmetric] rel by blast
qed

end
