(* ===== verification/CircuitDegree.thy ===== *)
theory CircuitDegree
  imports Relations
begin

text \<open>
  The degree of the circuits of \<open>src/src/circuit.rs\<close>: \<open>degree_backend\<close> counts degrees instead of
  evaluating, \<open>degs\<close> is the logic of what a computation asserts at most on it. Four rounds of Keccak
  between two checkpoints multiply the degree by 16; nothing else comes near.
\<close>

section \<open>A backend that counts degrees\<close>

text \<open>A wire has degree one, a sum the larger degree, a product the sum of the degrees; the state is the
  largest degree asserted so far. Witness bits are always available.\<close>

definition degree_backend :: "(nat, 'f, unit, nat, 'sys) backend" where
  "degree_backend = \<lparr>
     witness_bit = State_Monad.State (\<lambda>m. (Inr (), m)),
     constant_wire = \<lambda>c. State_Monad.State (\<lambda>m. ((), m)),
     add = \<lambda>u v. State_Monad.State (\<lambda>m. ((), m)),
     scale = \<lambda>c v. State_Monad.State (\<lambda>m. ((), m)),
     assert_zero = \<lambda>v. State_Monad.State (\<lambda>m. ((), max m 1)),
     wire_expr = \<lambda>v. State_Monad.State (\<lambda>m. (1, m)),
     expr_add = \<lambda>x y. State_Monad.State (\<lambda>m. (max x y, m)),
     expr_mul = \<lambda>x y. State_Monad.State (\<lambda>m. (x + y, m)),
     assert_expr_zero = \<lambda>x. State_Monad.State (\<lambda>m. ((), max m x)),
     assert_quad_form_system = \<lambda>vs sys ts. State_Monad.State (\<lambda>m. ((), max m 2))\<rparr>"

text \<open>\<open>degs m Q k\<close>: the computation returns a value in \<open>Q\<close>, and \<open>k\<close> is the largest degree it asserts.\<close>

definition degs :: "(nat, 'a) state \<Rightarrow> ('a \<Rightarrow> bool) \<Rightarrow> nat \<Rightarrow> bool" where
  "degs m Q k \<longleftrightarrow> (\<forall>s. \<exists>x. run_state m s = (x, max s k) \<and> Q x)"

abbreviation DB :: "(nat, 'f, unit, nat, 'sys) backend" where
  "DB \<equiv> degree_backend"

named_theorems degree

lemma degs_ret [degree]: "Q x \<Longrightarrow> degs (ret x) Q 0"
  by (simp add: degs_def)

lemma degs_bind [degree]:
  assumes "degs m P k" and "\<And>x. P x \<Longrightarrow> degs (f x) Q l"
  shows "degs (State_Monad.bind m f) Q (max k l)"
  unfolding degs_def
proof
  fix s
  from assms(1) obtain x where x: "run_state m s = (x, max s k)" "P x" unfolding degs_def by blast
  from assms(2)[OF x(2)] obtain y where "run_state (f x) (max s k) = (y, max (max s k) l)" "Q y"
    unfolding degs_def by blast
  with x show "\<exists>y. run_state (State_Monad.bind m f) s = (y, max s (max k l)) \<and> Q y"
    by (simp add: max.assoc)
qed

lemma degs_weaken: "degs m P k \<Longrightarrow> (\<And>x. P x \<Longrightarrow> Q x) \<Longrightarrow> k = l \<Longrightarrow> degs m Q l"
  unfolding degs_def by blast

lemma degs_try:
  assumes "degs m (\<lambda>r. \<exists>x. r = Inr x \<and> P x) k" and "\<And>x. P x \<Longrightarrow> degs (f x) Q l"
  shows "degs (try_bind m f) Q (max k l)"
  unfolding try_bind_def using assms by (auto intro!: degs_bind)

lemma degs_traverse:
  assumes "\<And>x. x \<in> set xs \<Longrightarrow> degs (f x) Q k"
  shows "degs (State_Monad.traverse_list f xs) (\<lambda>ys. length ys = length xs \<and> (\<forall>y\<in>set ys. Q y))
    (if xs = [] then 0 else k)"
  using assms
proof (induction xs)
  case Nil
  then show ?case by (simp add: degs_ret)
next
  case (Cons x xs)
  have "degs (State_Monad.traverse_list f (x # xs)) (\<lambda>ys. length ys = length (x # xs) \<and> (\<forall>y\<in>set ys. Q y))
      (max k (max (if xs = [] then 0 else k) 0))"
    unfolding traverse_list.simps
    by (rule degs_bind[where P = Q], use Cons in simp)
       (rule degs_bind[OF Cons.IH], use Cons in simp, rule degs_ret, simp)
  then show ?case by (auto elim: degs_weaken)
qed

lemma degs_loop:
  assumes "\<And>i a. i \<in> set is \<Longrightarrow> I a \<Longrightarrow> degs (f i a) I k" and "I a"
  shows "degs (loop f is a) I (if is = [] then 0 else k)"
  using assms
proof (induction "is" arbitrary: a)
  case Nil
  then show ?case by (simp add: degs_ret)
next
  case (Cons i "is")
  have "degs (loop f (i # is) a) I (max k (if is = [] then 0 else k))"
    unfolding loop.simps by (rule degs_bind[where P = I]) (use Cons in simp_all)
  then show ?case by (auto elim: degs_weaken)
qed

lemma degs_try_loop:
  assumes "\<And>i a. i \<in> set is \<Longrightarrow> I a \<Longrightarrow> degs (f i a) (\<lambda>r. \<exists>x. r = Inr x \<and> I x) k" and "I a"
  shows "degs (try_loop f is a) (\<lambda>r. \<exists>x. r = Inr x \<and> I x) (if is = [] then 0 else k)"
  using assms
proof (induction "is" arbitrary: a)
  case Nil
  then show ?case by (simp add: degs_ret)
next
  case (Cons i "is")
  have "degs (try_loop f (i # is) a) (\<lambda>r. \<exists>x. r = Inr x \<and> I x) (max k (if is = [] then 0 else k))"
    unfolding try_loop.simps by (rule degs_try[where P = I]) (use Cons in simp_all)
  then show ?case by (auto elim: degs_weaken)
qed

lemma degs_ops:
  "degs (witness_bit DB) (\<lambda>r. \<exists>x. r = Inr x) 0"
  "degs (constant_wire DB c) (\<lambda>_. True) 0" "degs (add DB u v) (\<lambda>_. True) 0" "degs (scale DB c' v) (\<lambda>_. True) 0"
  "degs (assert_zero DB v) (\<lambda>_. True) 1" "degs (wire_expr DB v) (\<lambda>e. e = 1) 0"
  "degs (expr_add DB x y) (\<lambda>e. e = max x y) 0" "degs (expr_mul DB x y) (\<lambda>e. e = x + y) 0"
  "degs (assert_expr_zero DB x) (\<lambda>_. True) x" "degs (assert_quad_form_system DB vs sys ts) (\<lambda>_. True) 2"
  by (simp_all add: degs_def degree_backend_def)

section \<open>The gadgets\<close>

text \<open>All expressions of a Keccak state have the same degree.\<close>

definition uniform :: "nat \<Rightarrow> nat list \<Rightarrow> bool" where
  "uniform d es \<longleftrightarrow> length es = 1600 \<and> (\<forall>e\<in>set es. e = d)"

lemma uniform_nth: "uniform d es \<Longrightarrow> i < 1600 \<Longrightarrow> es ! i = d"
  by (simp add: uniform_def)

lemma degs_linear:
  assumes "uniform d es" and "1 \<le> d"
  shows "degs (keccak_linear_expr DB es) (uniform d) 0"
proof -
  have column: "degs (let x = i div 64; z = i mod 64 in
         loop (\<lambda>y parity. expr_add DB parity (es ! (64 * (x + 5 * y) + z))) [0..<5] 1) (\<lambda>e. e = d) 0"
    if i: "i \<in> set [0..<5 * 64]" for i
  proof -
    have "es ! (64 * (i div 64 + 5 * y) + i mod 64) = d" if "y < 5" for y
    proof (rule uniform_nth[OF assms(1)])
      have "i div 64 < 5" using i by auto
      then have "i div 64 + 5 * y \<le> 24" using that by linarith
      then have "64 * (i div 64 + 5 * y) \<le> 64 * 24" by (rule mult_le_mono2)
      then show "64 * (i div 64 + 5 * y) + i mod 64 < 1600" using mod_less_divisor[of 64 i] by linarith
    qed
    from this[of 0] this[of 1] this[of 2] this[of 3] this[of 4] show ?thesis
      using assms(2) by (simp add: degs_def degree_backend_def upt_rec)
  qed
  have cell: "degs (let x = (i div 64) mod 5; y = (i div 64) div 5; z = i mod 64;
             left = columns ! (64 * ((x + 4) mod 5) + z);
             right = columns ! (64 * ((x + 1) mod 5) + (z + 63) mod 64)
         in do {
           delta \<leftarrow> expr_add DB left right;
           expr_add DB (es ! (64 * (x + 5 * y) + z)) delta
         }) (\<lambda>e. e = d) 0"
    if i: "i \<in> set [0..<1600]" and columns: "length columns = 320 \<and> (\<forall>e\<in>set columns. e = d)" for i columns
  proof -
    have c: "columns ! (64 * (a mod 5) + b mod 64) = d" for a b
    proof -
      have "64 * (a mod 5) + b mod 64 < 320"
        using mod_less_divisor[of 5 a] mod_less_divisor[of 64 b] by linarith
      then show ?thesis using columns by simp
    qed
    have "i div 64 mod 5 + 5 * (i div 64 div 5) = i div 64" by simp
    then have "64 * (i div 64 mod 5 + 5 * (i div 64 div 5)) + i mod 64 < 1600" using i by simp
    with assms(1) have "es ! (64 * (i div 64 mod 5 + 5 * (i div 64 div 5)) + i mod 64) = d"
      by (rule uniform_nth)
    with c show ?thesis
      unfolding Let_def by (simp only: degs_def degree_backend_def) simp
  qed
  show ?thesis
    unfolding keccak_linear_expr_def uniform_def
    by (rule degs_weaken[OF degs_bind[OF degs_ops(2) degs_bind[OF degs_ops(6) degs_bind[OF
          degs_traverse[where Q = "\<lambda>e. e = d" and k = 0] degs_traverse[where Q = "\<lambda>e. e = d" and k = 0]]]]])
       (use column cell in simp_all)
qed

lemma pi_rho_index_bound:
  assumes "x < 5" and "y < 5" and "z < 64"
  shows "pi_rho_index ! (64 * (x + 5 * y) + z) < 1600"
  using state_index(1)[of "(x + 3 * y) mod 5" x] assms
  unfolding nth_pi_rho_index[OF assms] by (simp add: pi_rho_source_def)

lemma degs_round:
  assumes "uniform d es" and "1 \<le> d"
  shows "degs (keccak_round_expr DB es rc) (uniform (2 * d)) 0"
proof -
  have cell: "degs (let lane = i div 64; z = i mod 64; x = lane mod 5; y = lane div 5;
             first = theta ! (pi_rho_index ! (64 * (x + 5 * y) + z));
             second = theta ! (pi_rho_index ! (64 * ((x + 1) mod 5 + 5 * y) + z));
             third = theta ! (pi_rho_index ! (64 * ((x + 2) mod 5 + 5 * y) + z))
         in do {
           not_second \<leftarrow> expr_add DB one second;
           product \<leftarrow> expr_mul DB not_second third;
           b \<leftarrow> expr_add DB first product;
           if lane = 0 \<and> drop_bit z rc AND 1 = 1 then expr_add DB b one else ret b
         }) (\<lambda>e. e = 2 * d) 0"
    if i: "i \<in> set [0..<1600]" and theta: "uniform d theta" and one: "one = 1" for i theta one
  proof -
    have t: "theta ! (pi_rho_index ! (64 * (a mod 5 + 5 * (i div 64 div 5)) + i mod 64)) = d" for a
    proof (rule uniform_nth[OF theta pi_rho_index_bound])
      show "i div 64 div 5 < 5" using i by simp
    qed simp_all
    show ?thesis
      using assms(2) unfolding Let_def t one
      by (simp add: degs_def degree_backend_def)
  qed
  show ?thesis
    unfolding keccak_round_expr_def uniform_def[of "2 * d"] Let_def
    by (rule degs_weaken[OF degs_bind[OF degs_linear[OF assms] degs_bind[OF degs_ops(2) degs_bind[OF degs_ops(6)
          degs_traverse[where Q = "\<lambda>e. e = 2 * d" and k = 0]]]]])
       (use cell[unfolded Let_def] in simp_all)
qed

lemma length_initial_state: "degs (initial_sponge_state DB message) (\<lambda>st. length st = 1600) 0"
proof -
  have "length (fold (\<lambda>k state. if drop_bit k (0x1f :: byte) AND 1 = 1 then state[n * 8 + k := one] else state)
     ks st) = length (st :: unit list)" for n ks st one
    by (induction ks arbitrary: st) simp_all
  then show ?thesis
    by (simp add: initial_sponge_state_def degs_def degree_backend_def Let_def min_def)
qed

lemma degs_alloc: "degs (alloc_bits DB n) (\<lambda>r. \<exists>ws. r = Inr ws \<and> length ws = n) 0"
proof (induction n)
  case 0
  then show ?case by (simp add: degs_ret)
next
  case (Suc n)
  show ?case
    unfolding alloc_bits.simps
    by (rule degs_weaken[OF degs_try[where P = "\<lambda>_. True", OF _ degs_try[OF Suc.IH degs_ret]]])
       (use degs_ops(1) in auto)
qed

lemma degs_shake:
  "degs (shake_degree16 DB message) (\<lambda>r. \<exists>ws. r = Inr ws \<and> length ws = 1600) 16"
proof -
  have rounds: "degs (loop (\<lambda>round expression. keccak_round_expr DB expression (RC ! (4 * group + round)))
      [0..<4] es) (uniform 16) 0" if "uniform 1 es" for group es
  proof -
    have four: "[0..<4] = [0, 1, 2, 3 :: nat]" by (simp add: upt_rec)
    show ?thesis
      unfolding four loop.simps
      by (rule degs_weaken[OF degs_bind[OF degs_round[of 1] degs_bind[OF degs_round[of 2]
          degs_bind[OF degs_round[of 4] degs_bind[OF degs_round[of 8] degs_ret]]]]]) (use that in simp_all)
  qed
  have cell: "degs ((\<lambda>(computed, committed). do {
               committed \<leftarrow> wire_expr DB committed;
               difference \<leftarrow> expr_add DB computed committed;
               assert_expr_zero DB difference
             }) p) (\<lambda>_. True) 16" if "p \<in> set (zip es checkpoint)" "uniform 16 es" for p es checkpoint
  proof -
    obtain a b where p: "p = (a, b)" by (cases p)
    with that have "a = 16" unfolding uniform_def by (metis set_zip_leftD)
    then show ?thesis by (simp add: p degs_def degree_backend_def)
  qed
  have checked: "degs (State_Monad.traverse_list (\<lambda>(computed, committed). do {
               committed \<leftarrow> wire_expr DB committed;
               difference \<leftarrow> expr_add DB computed committed;
               assert_expr_zero DB difference
             }) (zip es checkpoint)) (\<lambda>_. True) 16" if "uniform 16 es" "length checkpoint = 1600" for es checkpoint
  proof -
    have "zip es checkpoint \<noteq> []" using that by (auto simp: uniform_def)
    then show ?thesis
      by (intro degs_weaken[OF degs_traverse[where Q = "\<lambda>_. True" and k = 16]]) (use cell that in auto)
  qed
  have start: "degs (State_Monad.traverse_list (wire_expr DB) st) (uniform 1) 0" if "length st = 1600" for st
    by (rule degs_weaken[OF degs_traverse[where Q = "\<lambda>e. e = 1" and k = 0]])
       (use that degs_ops(6) in \<open>auto simp: uniform_def\<close>)
  have ret_ok: "degs (ret (Inr ws)) (\<lambda>r. \<exists>ws. r = Inr ws \<and> length ws = 1600) 0" if "length ws = 1600" for ws :: "unit list"
    by (rule degs_ret) (use that in auto)
  have body: "degs (try_bind (alloc_bits DB 1600) (\<lambda>checkpoint. do {
           expression \<leftarrow> State_Monad.traverse_list (wire_expr DB) st;
           expression \<leftarrow> loop (\<lambda>round expression. keccak_round_expr DB expression (RC ! (4 * group + round)))
             [0..<4] expression;
           _ \<leftarrow> State_Monad.traverse_list (\<lambda>(computed, committed). do {
               committed \<leftarrow> wire_expr DB committed;
               difference \<leftarrow> expr_add DB computed committed;
               assert_expr_zero DB difference
             }) (zip expression checkpoint);
           ret (Inr checkpoint)
         })) (\<lambda>r. \<exists>ws. r = Inr ws \<and> length ws = 1600) 16" if "length st = 1600" for st group
    by (rule degs_weaken[OF degs_try[OF degs_alloc degs_bind[OF start[OF that] degs_bind[OF rounds
          degs_bind[OF checked ret_ok]]]]]) simp_all
  show ?thesis
    unfolding shake_degree16_def
    by (rule degs_weaken[OF degs_bind[OF length_initial_state degs_try_loop[where I = "\<lambda>st. length st = 1600" and k = 16]]])
       (use body in simp_all)
qed

section \<open>The circuits\<close>

text \<open>Computations that assert nothing.\<close>

abbreviation free :: "(nat, 'a) state \<Rightarrow> bool" where
  "free m \<equiv> degs m (\<lambda>_. True) 0"

lemma free_bind: "free m \<Longrightarrow> (\<And>x. free (f x)) \<Longrightarrow> free (State_Monad.bind m f)"
  using degs_bind[of m "\<lambda>_. True" 0 f "\<lambda>_. True" 0] by simp

lemma free_traverse: "(\<And>x. free (f x)) \<Longrightarrow> free (State_Monad.traverse_list f xs)"
  by (rule degs_weaken[OF degs_traverse[where Q = "\<lambda>_. True" and k = 0]]) simp_all

lemma free_loop: "(\<And>i a. free (f i a)) \<Longrightarrow> free (loop f is a)"
  by (rule degs_weaken[OF degs_loop[where I = "\<lambda>_. True" and k = 0]]) simp_all

lemma free_constants: "free (constant_bit DB b)" "free (constant_bytes DB bs)" "free (target_constant_bits DB S ts)"
  by (simp_all add: constant_bit_def constant_bytes_def target_constant_bits_def degs_ops free_traverse)

lemma free_lift: "free (lift_nibbles DB S emb ws)"
  unfolding lift_nibbles_def lift_gf16_def
  by (intro free_traverse free_bind free_loop degs_ops) (auto intro: free_bind degs_ops split: prod.split)

lemma free_pad: "free (pad_to_byte DB ws)"
proof (induction "DB :: (nat, 'f::{zero,one}, unit, nat, 'sys) backend" ws rule: pad_to_byte.induct)
  case (1 ws)
  then show ?case
    by (subst pad_to_byte.simps) (auto intro: degs_ret free_bind free_constants)
qed

lemma free_messages:
  "free (credential_wires DB sc k h)" "free (signed_credential_wires DB c t)" "free (tag_wires DB k sc n)"
  unfolding credential_wires_def signed_credential_wires_def tag_wires_def Let_def
  by (intro free_bind free_constants free_pad degs_ret TrueI)+

lemma degs_hidden: "degs (shake_hidden_output DB message n) (\<lambda>r. \<exists>ws. r = Inr ws \<and> True) 16"
  unfolding shake_hidden_output_def
  by (rule degs_weaken[OF degs_try[OF degs_shake degs_ret]]) auto

lemma degs_output: "degs (shake_assert_output DB message expected) (\<lambda>r. r = Inr ()) 16"
proof -
  have one: "degs ((\<lambda>(actual, expected). do {
       difference \<leftarrow> add DB actual expected;
       assert_zero DB difference
     }) p) (\<lambda>_. True) 1" for p
    by (cases p) (simp add: degs_def degree_backend_def)
  have all: "degs (State_Monad.traverse_list (\<lambda>(actual, expected). do {
       difference \<leftarrow> add DB actual expected;
       assert_zero DB difference
     }) (zip st expected)) (\<lambda>_. True) (if expected = [] then 0 else 1)" if "length st = 1600" for st
  proof -
    have "zip st expected = [] \<longleftrightarrow> expected = []" using that by auto
    then show ?thesis
      by (intro degs_weaken[OF degs_traverse[where Q = "\<lambda>_. True" and k = 1, OF one]]) simp_all
  qed
  show ?thesis
    unfolding shake_assert_output_def
    by (rule degs_weaken[OF degs_try[OF degs_shake degs_bind[OF all degs_ret[where Q = "\<lambda>r. r = Inr ()"]]]]) simp_all
qed

lemma degs_less_than: "degs (assert_u32_less_than DB v cs limit) (\<lambda>_. True) 2"
proof -
  have step: "degs (do {
         a \<leftarrow> wire_expr DB (v ! k);
         carry \<leftarrow> wire_expr DB carry_in;
         equation \<leftarrow> wire_expr DB (cs ! k);
         let b = (drop_bit k (NOT limit) AND 1 = 1);
         equation \<leftarrow> (if b then expr_add DB equation a else ret equation);
         a_times_carry \<leftarrow> expr_mul DB a carry;
         equation \<leftarrow> expr_add DB equation a_times_carry;
         equation \<leftarrow> (if b then expr_add DB equation carry else ret equation);
         _ \<leftarrow> assert_expr_zero DB equation;
         ret (cs ! k)
       }) (\<lambda>_. True) 2" for k carry_in
    by (simp add: degs_def degree_backend_def Let_def numeral_2_eq_2)
  show ?thesis
    unfolding assert_u32_less_than_def
    by (rule degs_weaken[OF degs_bind[OF degs_ops(2) degs_bind[OF degs_loop[where I = "\<lambda>_. True" and k = 2, OF step]
          degs_ops(5)]]]) (simp_all add: PRESENTATION_NONCE_BITS_def)
qed

lemma degs_issue:
  assumes "length (ic_target C) = P_M (mp S)"
  shows "degs (issue_build DB S C) (\<lambda>r. r = Inr ()) 16"
  using assms unfolding issue_build_def
  by (simp only: not_not if_False simp_thms)
     (rule degs_weaken[OF degs_try[OF degs_alloc degs_try[OF degs_alloc degs_bind[OF free_messages(1)
        degs_bind[OF free_constants(3) degs_output]]]]]; simp)

lemma degs_presentation:
  assumes "circuit_ok S C"
  shows "degs (presentation_build DB S emb C) (\<lambda>r. r = Inr ()) 16"
proof -
  have guard: "\<not> (pc_presentation_limit C = 0 \<or>
      length SIGNED_CREDENTIAL_DOMAIN + div_ceil (P_M (mp S)) 2 + SALT_BYTES \<ge> RATE_BYTES)"
    using assms by (simp add: circuit_ok_def)
  show ?thesis
    unfolding presentation_build_def if_not_P[OF guard]
    by (rule degs_weaken[OF degs_try[OF degs_alloc degs_bind[OF free_lift degs_try[OF degs_alloc degs_try[OF degs_alloc
          degs_try[OF degs_alloc degs_try[OF degs_alloc degs_try[OF degs_alloc degs_bind[OF degs_less_than
          degs_bind[OF free_messages(1) degs_try[OF degs_hidden degs_bind[OF free_messages(2) degs_try[OF degs_hidden
          degs_bind[OF free_lift degs_bind[OF degs_ops(10) degs_bind[OF free_messages(3) degs_bind[OF free_constants(2)
          degs_output]]]]]]]]]]]]]]]]]) simp_all
qed

section \<open>Properties\<close>

text \<open>C38: every assertion of the circuits has degree at most 16, the degree the proof system is run at. On a
  backend that counts degrees, building the presentation circuit asserts a largest degree of exactly 16
  and building the issuance circuit too, for every statement they accept; a statement they reject
  asserts nothing.\<close>

theorem circuits_have_degree_16:
  "run_state (presentation_build degree_backend S emb C) 0 =
     (if circuit_ok S C then (Inr (), 16) else (Inl InvalidParameters, 0)) \<and>
   run_state (issue_build degree_backend S I) 0 =
     (if length (ic_target I) = P_M (mp S) then (Inr (), 16) else (Inl InvalidParameters, 0))"
proof
  show "run_state (presentation_build degree_backend S emb C) 0 =
     (if circuit_ok S C then (Inr (), 16) else (Inl InvalidParameters, 0))"
  proof (cases "circuit_ok S C")
    case True
    from degs_presentation[OF this, of emb] have "run_state (presentation_build degree_backend S emb C) 0 = (Inr (), max 0 16)"
      unfolding degs_def by metis
    with True show ?thesis by simp
  qed (simp add: presentation_build_phases)
  show "run_state (issue_build degree_backend S I) 0 =
     (if length (ic_target I) = P_M (mp S) then (Inr (), 16) else (Inl InvalidParameters, 0))"
  proof (cases "length (ic_target I) = P_M (mp S)")
    case True
    from degs_issue[OF this] have "run_state (issue_build degree_backend S I) 0 = (Inr (), max 0 16)"
      unfolding degs_def by metis
    with True show ?thesis by simp
  qed (simp add: issue_build_def)
qed

end
