(* ===== verification/ShakeSpec.thy ===== *)
theory ShakeSpec
  imports SpongeBits
begin

text \<open>
  The sponge of the crate against its standard: \<open>shake256\<close> of \<open>src/src/keccak.rs\<close> never panics, is an
  extendable-output function, and is SHAKE256 as FIPS 202 defines it on bit strings, for messages and
  outputs of every length (the circuits only need one block; the native code does not stop there).
\<close>

section \<open>Totality and prefixes\<close>

lemma remainder_short: "length (snd (as_chunks RATE_BYTES m)) < RATE_BYTES"
proof -
  have "length m - RATE_BYTES * (length m div RATE_BYTES) = length m mod RATE_BYTES"
    by (simp add: minus_mult_div_eq_mod)
  moreover have "length m mod RATE_BYTES < RATE_BYTES"
    by (rule mod_less_divisor) (simp add: RATE_BYTES_def)
  ultimately show ?thesis by (simp add: as_chunks_def)
qed

lemma shake256_pad_total: "\<exists>final_block. pad_single_block (snd (as_chunks RATE_BYTES m)) = Some final_block"
  using remainder_short[of m] by (simp add: pad_single_block_def Let_def)

lemma length_squeeze [simp]: "length (squeeze state n) = n"
proof (induction state n rule: squeeze.induct)
  case (1 state n)
  then show ?case by (subst squeeze.simps) simp
qed

lemma length_shake256 [simp]: "length (shake256 m n) = n"
  using shake256_pad_total[of m] by (auto simp: shake256_def split: prod.split)

lemma take_squeeze: "n \<le> k \<Longrightarrow> take n (squeeze state k) = squeeze state n"
proof (induction state k arbitrary: n rule: squeeze.induct)
  case (1 state k)
  show ?case
  proof (cases "n = 0")
    case True
    then show ?thesis by (simp add: squeeze.simps[of state 0])
  next
    case n: False
    with \<open>n \<le> k\<close> have k: "k \<noteq> 0" by simp
    show ?thesis
    proof (cases "k < RATE_BYTES")
      case True
      with \<open>n \<le> k\<close> n show ?thesis
        by (simp add: squeeze.simps[of state k] squeeze.simps[of state n] take_map)
    next
      case False
      with "1.IH"[OF k False, of "n - RATE_BYTES"] \<open>n \<le> k\<close> n k show ?thesis
        by (cases "n < RATE_BYTES")
           (simp_all add: squeeze.simps[of state k] squeeze.simps[of state n] take_map)
    qed
  qed
qed

section \<open>FIPS 202: the sponge\<close>

text \<open>Section 3.1: a string of 1600 bits as a state array and back; the permutation on strings.\<close>

definition fips_array :: "bool list \<Rightarrow> array3" where
  "fips_array S x y z = S ! (64 * (5 * y + x) + z)"

definition fips_string :: "array3 \<Rightarrow> bool list" where
  "fips_string A = map (\<lambda>i. A (i div 64 mod 5) (i div 320) (i mod 64)) [0..<1600]"

definition fips_f :: "bool list \<Rightarrow> bool list" where
  "fips_f S = fips_string (fips_permutation (fips_array S))"

text \<open>Algorithm 9, \<open>pad10*1\<close>, and algorithm 8, the sponge, with rate 1088 and capacity 512.\<close>

definition fips_pad :: "nat \<Rightarrow> nat \<Rightarrow> bool list" where
  "fips_pad x m = [True] @ replicate (nat ((- int m - 2) mod int x)) False @ [True]"

definition fips_blocks :: "bool list \<Rightarrow> bool list list" where
  "fips_blocks P = map (\<lambda>i. take 1088 (drop (1088 * i) P)) [0..<length P div 1088]"

definition fips_absorb :: "bool list \<Rightarrow> bool list list \<Rightarrow> bool list" where
  "fips_absorb S blocks = fold (\<lambda>P S. fips_f (map2 (\<noteq>) S (P @ replicate 512 False))) blocks S"

function fips_squeeze :: "bool list \<Rightarrow> nat \<Rightarrow> bool list" where
  "fips_squeeze S d = (if d \<le> 1088 then take d S else take 1088 S @ fips_squeeze (fips_f S) (d - 1088))"
  by pat_completeness auto
termination
  by (relation "measure snd") auto

declare fips_squeeze.simps [simp del]

text \<open>Section 6.2: \<open>SHAKE256(M, d)\<close> is the sponge on \<open>M\<close> with the suffix \<open>1111\<close>.\<close>

definition fips_shake256 :: "bool list \<Rightarrow> nat \<Rightarrow> bool list" where
  "fips_shake256 M d =
     (let N = M @ [True, True, True, True];
          P = N @ fips_pad 1088 (length N)
      in fips_squeeze (fips_absorb (replicate 1600 False) (fips_blocks P)) d)"

section \<open>The permutation on strings\<close>

lemma fips_permutation_agree: "agree A B \<Longrightarrow> agree (fips_permutation A) (fips_permutation B)"
proof -
  have "agree (fold fips_round irs A) (fold fips_round irs B)" if "agree A B" for irs A B
    using that by (induction irs arbitrary: A B) (simp_all add: agree_round)
  then show "agree A B \<Longrightarrow> ?thesis" by (simp add: fips_permutation_def)
qed

lemma string_index: "i < 1600 \<Longrightarrow> i div 64 mod 5 + 5 * (i div 320) = i div 64 \<and> i div 320 < 5 \<and> i div 64 mod 5 < (5::nat)"
  using div_mult2_eq[of i 64 5] by auto

lemma abs_state_array: "agree (abs_state st) (fips_array (state_bits st))"
  unfolding agree_def
proof (intro allI impI)
  fix x y z :: nat
  assume "x < 5" "y < 5" and z: "z < 64"
  then have "5 * y + x \<le> 24" by linarith
  then have "64 * (5 * y + x) \<le> 64 * 24" by (rule mult_le_mono2)
  then have "64 * (5 * y + x) + z < 1600" using z by simp
  then have "fips_array (state_bits st) x y z = bit (st ! (5 * y + x)) z"
    using z unfolding fips_array_def by (subst nth_state_bits) (simp_all del: distrib_left distrib_left_numeral)
  then show "abs_state st x y z = fips_array (state_bits st) x y z"
    by (simp add: abs_state_def add.commute)
qed

lemma state_bits_keccak_f: "state_bits (keccak_f st) = fips_f (state_bits st)"
proof (rule nth_equalityI)
  fix i
  assume "i < length (state_bits (keccak_f st))"
  then have i: "i < 1600" by simp
  have "agree (abs_state (keccak_f st)) (fips_permutation (fips_array (state_bits st)))"
    using keccak_f_agrees[of st] fips_permutation_agree[OF abs_state_array[of st]] by (simp add: agree_def)
  then have "abs_state (keccak_f st) (i div 64 mod 5) (i div 320) (i mod 64) =
      fips_permutation (fips_array (state_bits st)) (i div 64 mod 5) (i div 320) (i mod 64)"
    using string_index[OF i] by (intro agreeD) simp_all
  then show "state_bits (keccak_f st) ! i = fips_f (state_bits st) ! i"
    using i string_index[OF i] by (simp add: nth_state_bits fips_f_def fips_string_def abs_state_def)
qed (simp add: fips_f_def fips_string_def)

section \<open>Absorbing\<close>

lemma state_bits_absorb:
  assumes "length st = 25" and "length block = 136"
  shows "state_bits (absorb_block st block) =
    map2 (\<noteq>) (state_bits st) (bytes_bits block @ replicate 512 False)"
proof (rule nth_equalityI)
  fix i
  assume "i < length (state_bits (absorb_block st block))"
  then have i: "i < 1600" by simp
  then show "state_bits (absorb_block st block) ! i =
      map2 (\<noteq>) (state_bits st) (bytes_bits block @ replicate 512 False) ! i"
    using assms by (auto simp: nth_state_bits bit_absorb_block nth_append nth_bytes_bits)
qed (simp add: assms)

lemma fold_absorb:
  "length st = 25 \<Longrightarrow> \<forall>b\<in>set blocks. length b = 136 \<Longrightarrow>
     state_bits (fold (\<lambda>block st. keccak_f (absorb_block st block)) blocks st) =
       fips_absorb (state_bits st) (map bytes_bits blocks)"
  by (induction blocks arbitrary: st) (simp_all add: fips_absorb_def state_bits_keccak_f state_bits_absorb)

lemma split_bytes_bits: "bytes_bits bs = bytes_bits (take n bs) @ bytes_bits (drop n bs)"
  by (simp flip: bytes_bits_append)

lemma take_bytes_bits: "take (8 * n) (bytes_bits bs) = bytes_bits (take n bs)"
  by (subst split_bytes_bits[of bs n], cases "n \<le> length bs") simp_all

lemma drop_bytes_bits: "drop (8 * n) (bytes_bits bs) = bytes_bits (drop n bs)"
  by (subst split_bytes_bits[of bs n], cases "n \<le> length bs") simp_all

section \<open>Padding\<close>

lemma pad_bits:
  assumes "length m < 136" and "pad_single_block m = Some block"
  shows "bytes_bits block =
    bytes_bits m @ [True, True, True, True] @ [True] @ replicate (1082 - 8 * length m) False @ [True]"
proof -
  have len: "length block = 136"
    using assms by (metis pad_block_Some option.inject)
  have bits: "bytes_bits block ! i = sponge_bits (bytes_bits m) ! i" if "i < 1088" for i
  proof -
    have "i div 64 < 25" using that by auto
    then have "state_bits (absorb_block (replicate 25 0) block) ! i = bytes_bits block ! i"
      using that len by (simp add: nth_state_bits bit_absorb_block nth_bytes_bits)
    then show ?thesis using sponge_bits_absorb[OF assms] by simp
  qed
  show ?thesis
  proof (rule nth_equalityI)
    fix i
    assume "i < length (bytes_bits block)"
    then have i: "i < 1088" using len by simp
    then show "bytes_bits block ! i = (bytes_bits m @ [True, True, True, True] @ [True] @
        replicate (1082 - 8 * length m) False @ [True]) ! i"
      using assms(1) by (auto simp: bits nth_sponge_bits nth_append nth_Cons')
  qed (use assms len in simp)
qed

lemma fips_pad_length:
  assumes "r < 136"
  shows "fips_pad 1088 (8 * (136 * q + r) + 4) = [True] @ replicate (1082 - 8 * r) False @ [True]"
proof -
  have "(- int (8 * (136 * q + r) + 4) - 2) mod int 1088 = (int (1082 - 8 * r) + (- int q - 1) * 1088) mod 1088"
    using assms by (intro arg_cong2[of _ _ _ _ "(mod)"]) simp_all
  also have "\<dots> = int (1082 - 8 * r)" by (simp only: mod_mult_self1) simp
  finally show ?thesis by (simp add: fips_pad_def)
qed

section \<open>Squeezing\<close>

lemma fips_blocks_bytes:
  assumes "length bs = 136 * n"
  shows "fips_blocks (bytes_bits bs) = map (\<lambda>i. bytes_bits (take 136 (drop (136 * i) bs))) [0..<n]"
proof -
  have "take 1088 (drop (1088 * i) (bytes_bits bs)) = bytes_bits (take 136 (drop (136 * i) bs))" for i
    using drop_bytes_bits[of "136 * i" bs] take_bytes_bits[of 136 "drop (136 * i) bs"] by (simp add: mult.assoc)
  moreover have "length (bytes_bits bs) div 1088 = n" using assms by simp
  ultimately show ?thesis by (simp add: fips_blocks_def)
qed

lemma squeeze_fips: "bytes_bits (squeeze st n) = fips_squeeze (state_bits st) (8 * n)"
proof (induction st n rule: squeeze.induct)
  case (1 st n)
  consider "n = 0" | "0 < n" "n < 136" | "n = 136" | "136 < n" by linarith
  then show ?case
  proof cases
    case 4
    then show ?thesis
      using 1 chunk_bits[of 136 st]
      by (simp add: squeeze.simps[of st n] fips_squeeze.simps[of "state_bits st" "8 * n"] RATE_BYTES_def
          state_bits_keccak_f diff_mult_distrib2)
  qed (use chunk_bits[of n st] in \<open>simp_all add: squeeze.simps[of st n] squeeze.simps[of _ 0] squeeze.simps[of st 136]
         fips_squeeze.simps[of _ 0] fips_squeeze.simps[of _ 1088] fips_squeeze.simps[of _ "8 * n"] RATE_BYTES_def\<close>)
qed

section \<open>The whole function\<close>

lemma shake256_fips: "bytes_bits (shake256 m n) = fips_shake256 (bytes_bits m) (8 * n)"
proof -
  define q where "q = length m div 136"
  define rem where "rem = drop (136 * q) m"
  have m: "m = take (136 * q) m @ rem" by (simp add: rem_def)
  have lenq: "136 * q \<le> length m" by (simp add: q_def)
  have r: "length rem < 136"
    using mod_less_divisor[of 136 "length m"] by (simp add: rem_def q_def minus_mult_div_eq_mod)
  have len: "length m = 136 * q + length rem" using lenq by (simp add: rem_def)
  obtain block where block: "pad_single_block rem = Some block" "length block = 136"
    using pad_block_Some[OF r] by metis
  let ?full = "map (\<lambda>i. take 136 (drop (136 * i) m)) [0..<q]"
  have chunks: "as_chunks RATE_BYTES m = (?full, rem)"
    by (simp add: as_chunks_def RATE_BYTES_def q_def rem_def)
  have padded: "bytes_bits m @ [True, True, True, True] @ fips_pad 1088 (8 * length m + 4) =
      bytes_bits (take (136 * q) m @ block)"
    by (subst m) (simp only: bytes_bits_append pad_bits[OF r block(1)] len fips_pad_length[OF r] append_assoc)
  have "length (take (136 * q) m @ block) = 136 * Suc q"
    using lenq block(2) by simp
  from fips_blocks_bytes[OF this]
  have blocks: "fips_blocks (bytes_bits (take (136 * q) m @ block)) = map bytes_bits (?full @ [block])"
    using lenq block(2) by (simp add: min_def take_drop)
  have "136 \<le> length m - 136 * i" if "i < q" for i
    using that lenq mult_le_mono2[of "Suc i" q 136] by simp
  then have "\<forall>b\<in>set (?full @ [block]). length b = 136"
    using block(2) by (auto simp: min_def intro!: le_antisym)
  from fold_absorb[OF _ this, of "replicate 25 0"]
  have "state_bits (fold (\<lambda>block st. keccak_f (absorb_block st block)) (?full @ [block]) (replicate 25 0)) =
      fips_absorb (state_bits (replicate 25 0)) (map bytes_bits (?full @ [block]))"
    by simp
  moreover have "state_bits (replicate 25 0) = replicate 1600 False"
    using map_replicate_const[of False "[0..<1600]"]
    by (intro nth_equalityI) (auto simp: nth_state_bits)
  moreover have N: "length (bytes_bits m @ [True, True, True, True]) = 8 * length m + 4"
    by simp
  have "fips_shake256 (bytes_bits m) (8 * n) =
      fips_squeeze (fips_absorb (replicate 1600 False) (map bytes_bits (?full @ [block]))) (8 * n)"
    unfolding fips_shake256_def Let_def N append_assoc padded blocks ..
  ultimately show ?thesis
    by (simp add: shake256_def chunks block(1) squeeze_fips)
qed

section \<open>Properties\<close>

text \<open>C23: the crate's own \<open>shake256\<close> is SHAKE256 of FIPS 202. For every message and every output length,
  the bits of its output are those the standard's sponge (the permutation above, \<open>pad10*1\<close>, rate 1088,
  suffix 1111) gives on the bits of the message.\<close>

theorem shake256_implements_fips202:
  "bytes_bits (shake256 message n) = fips_shake256 (bytes_bits message) (8 * n)"
  by (rule shake256_fips)

text \<open>\<open>shake256\<close> is an extendable-output function: for every message, also beyond one block, it
  returns as many bytes as were asked for, its padding never panics, and a shorter output is a prefix
  of every longer one.\<close>

lemma shake256_extendable:
  "length (shake256 m n) = n \<and> pad_single_block (snd (as_chunks RATE_BYTES m)) \<noteq> None \<and>
     take n (shake256 m (n + k)) = shake256 m n"
proof -
  obtain final_block where "pad_single_block (snd (as_chunks RATE_BYTES m)) = Some final_block"
    using shake256_pad_total by blast
  then show ?thesis
    by (auto simp: shake256_def take_squeeze split: prod.split)
qed

end
