(* ===== verification/Protocol.thy ===== *)
theory Protocol
  imports CircuitNative Store OrderedMap
begin

text \<open>
  \<open>src/src/protocol.rs\<close>: issuance, presentation and verification. The record \<open>deps\<close> extends the
  suite by what the source takes from other crates: the trapdoor functions of \<open>mayo\<close>, the proof
  system of \<open>voleith\<close>, which is handed the circuit as a value of \<open>relation_circuit\<close>, and the
  caller's random generator, whose state is threaded through every operation that draws from it. An
  operation that can panic returns an option (\<open>None\<close> is the panic); an operation on \<open>&mut self\<close>
  returns the new state. \<open>PhantomData\<close> is left out, and so is the explicit zeroization of local buffers; the
  accessors, the \<open>Debug\<close> implementations and \<open>Drop\<close> are in theory Confinement.
\<close>

section \<open>Constants\<close>

definition ISSUE_STATEMENT :: bytes where
  "ISSUE_STATEMENT = ascii ''VOLE-ARC/issue-statement/v1''"

definition PRESENTATION_STATEMENT :: bytes where
  "PRESENTATION_STATEMENT = ascii ''VOLE-ARC/presentation-statement/v1''"

definition MAX_APPLICATION_CONTEXT_BYTES :: nat where
  "MAX_APPLICATION_CONTEXT_BYTES = 4096"

definition MAX_PRESENTATION_CONTEXTS :: nat where
  "MAX_PRESENTATION_CONTEXTS = 4096"

section \<open>The other crates\<close>

datatype ('g, 'sys) relation_circuit =
    Issuance "'g issue_circuit"
  | Presenting "'sys presentation_circuit"

datatype proof_decode_error = ProofTooLarge | ProofInvalidEncoding | ProofUnsupportedVersion

record ('g, 'pk, 'sk, 'sys, 'proof, 'rng) deps = "'g suite" +
  fill_bytes :: "nat \<Rightarrow> 'rng \<Rightarrow> bytes \<times> 'rng"
  trapgen :: "'rng \<Rightarrow> ('sk \<times> 'pk) \<times> 'rng"
  mayo_eval :: "'pk \<Rightarrow> 'g list \<Rightarrow> 'g list option"
  spre :: "'sk \<Rightarrow> 'g list \<Rightarrow> 'rng \<Rightarrow> 'g list option \<times> 'rng"
  visit_forms :: "'pk \<Rightarrow> 'sys \<times> 'g list list"
  pk_to_bytes :: "'pk \<Rightarrow> bytes"
  pk_from_bytes :: "bytes \<Rightarrow> 'pk option"
  sk_to_bytes :: "'sk \<Rightarrow> bytes"
  sk_from_bytes :: "bytes \<Rightarrow> 'sk option"
  sk_public_key :: "'sk \<Rightarrow> 'pk"
  vole :: vole_suite
  vole_prove :: "vole_params \<Rightarrow> bytes \<Rightarrow> ('g, 'sys) relation_circuit \<Rightarrow> bool list \<Rightarrow> 'rng \<Rightarrow>
     (vole_error + 'proof) \<times> 'rng"
  vole_verify :: "vole_params \<Rightarrow> bytes \<Rightarrow> ('g, 'sys) relation_circuit \<Rightarrow> 'proof \<Rightarrow> vole_error + unit"
  proof_to_bytes :: "'proof \<Rightarrow> bytes"
  proof_from_bytes :: "bytes \<Rightarrow> proof_decode_error + 'proof"

section \<open>Data\<close>

record ('pk, 'sys) public_key =
  pub_mayo :: 'pk
  pub_mayo_system :: "'sys mayo_form_system"
  pub_context :: bytes
  pub_profile :: performance_profile
  pub_application_context :: bytes

record ('pk, 'sk, 'sys) issuer =
  iss_secret :: 'sk
  iss_public :: "('pk, 'sys) public_key"

text \<open>The key of a counter: the derived order of \<open>CounterKey\<close> is that of its bytes, and so is the order of
  what it borrows as.\<close>

datatype counter_key = CounterKey (key_bytes: bytes)

instantiation counter_key :: linorder
begin

definition less_eq_counter_key :: "counter_key \<Rightarrow> counter_key \<Rightarrow> bool" where
  "less_eq_counter_key k l \<longleftrightarrow> key_bytes k \<le> key_bytes l"

definition less_counter_key :: "counter_key \<Rightarrow> counter_key \<Rightarrow> bool" where
  "less_counter_key k l \<longleftrightarrow> key_bytes k < key_bytes l"

instance
  by standard (auto simp: less_eq_counter_key_def less_counter_key_def intro: counter_key.expand)

end

lemma counter_key_order [simp]:
  "CounterKey a \<le> CounterKey b \<longleftrightarrow> a \<le> b"
  "CounterKey a < CounterKey b \<longleftrightarrow> a < b"
  by (simp_all add: less_eq_counter_key_def less_counter_key_def)

record 'g pending_issue =
  pend_issuer_context :: bytes
  pend_credential_context :: credential_context
  pend_secret :: bytes
  pend_hiding_nonce :: bytes
  pend_commitment :: "'g list"

record ('g, 'proof) issue_request =
  req_commitment :: "'g list"
  req_proof :: 'proof

record 'g issue_response =
  resp_signature :: "'g list"
  resp_salt :: bytes

record 'g credential =
  cred_issuer_context :: bytes
  cred_credential_context :: credential_context
  cred_signature :: "'g list"
  cred_secret :: bytes
  cred_hiding_nonce :: bytes
  cred_salt :: bytes
  cred_next_nonces :: "(counter_key, u32) btree"

record 'proof presentation =
  pres_tag :: bytes
  pres_proof :: 'proof

record verified_presentation =
  vp_scope :: bytes
  vp_tag :: bytes

record ('pk, 'sys, 's) verifier =
  ver_public :: "('pk, 'sys) public_key"
  ver_store :: 's

section \<open>Statements\<close>

definition encode_bytes :: "bytes \<Rightarrow> bytes \<Rightarrow> bytes" where
  "encode_bytes bs output = output @ len_u64 bs @ bs"

definition encode_target :: "('g, 'z) gf16_ops_scheme \<Rightarrow> 'g list \<Rightarrow> bytes \<Rightarrow> bytes" where
  "encode_target G target output = output @ len_u64 target @ map (gf16_to_u8 G) target"

definition issue_statement :: "('g, 'z) suite_scheme \<Rightarrow> bytes \<Rightarrow> bytes \<Rightarrow> 'g list \<Rightarrow> bytes" where
  "issue_statement S issuer_context credential_context commitment =
     (let output = ISSUE_STATEMENT;
          output = encode_bytes (P_NAME (mp S)) output;
          output = output @ issuer_context;
          output = output @ credential_context
      in encode_target S commitment output)"

definition presentation_statement ::
  "('g, 'z) suite_scheme \<Rightarrow> bytes \<Rightarrow> presentation_challenge \<Rightarrow> bytes \<Rightarrow> bytes" where
  "presentation_statement S issuer_context challenge tag =
     (let output = PRESENTATION_STATEMENT;
          output = encode_bytes (P_NAME (mp S)) output;
          output = output @ issuer_context;
          output = output @ credential_digest (ch_credential_context challenge);
          output = output @ presentation_digest (ch_presentation_context challenge);
          output = output @ u32_to_le (ch_limit challenge);
          output = output @ binding_digest (ch_binding challenge)
      in output @ tag)"

definition issuer_context_message ::
  "('g, 'pk, 'sk, 'sys, 'proof, 'rng, 'z) deps_scheme \<Rightarrow> bytes \<Rightarrow> bytes \<Rightarrow> performance_profile \<Rightarrow> bytes" where
  "issuer_context_message D application_context public_key_hash profile =
     (let hash = ascii ''VOLE-ARC/issuer-context/v1'';
          hash = hash @ len_u64 application_context;
          hash = hash @ application_context;
          hash = hash @ public_key_hash;
          hash = hash @ P_NAME (mp D);
          hash = hash @ u64_to_le 32;
          params = profile_params (vole D) profile;
          hash = hash @ u64_to_le (vp_tau params)
      in hash @ u64_to_le (vp_k params))"

definition derive_issuer_context ::
  "('g, 'pk, 'sk, 'sys, 'proof, 'rng, 'z) deps_scheme \<Rightarrow> bytes \<Rightarrow> bytes \<Rightarrow> performance_profile \<Rightarrow> bytes" where
  "derive_issuer_context D application_context public_key_hash profile =
     sha3 D (issuer_context_message D application_context public_key_hash profile) 32"

definition gf16_slices_equal :: "('g, 'z) suite_scheme \<Rightarrow> 'g list \<Rightarrow> 'g list \<Rightarrow> bool" where
  "gf16_slices_equal S left right \<longleftrightarrow>
     length left = length right \<and> gf16_slice_as_bytes S left = gf16_slice_as_bytes S right"

section \<open>Issuers\<close>

definition public_of ::
  "('g, 'pk, 'sk, 'sys, 'proof, 'rng, 'z) deps_scheme \<Rightarrow> bytes \<Rightarrow> performance_profile \<Rightarrow> 'pk \<Rightarrow>
     ('pk, 'sys) public_key" where
  "public_of D application_context profile mayo =
     (let (mayo_system, public_key_hash) = mayo_system_and_hash D (visit_forms D) mayo;
          context = derive_issuer_context D application_context public_key_hash profile
      in \<lparr>pub_mayo = mayo, pub_mayo_system = mayo_system, pub_context = context,
          pub_profile = profile, pub_application_context = application_context\<rparr>)"

definition generate_with_profile ::
  "('g, 'pk, 'sk, 'sys, 'proof, 'rng, 'z) deps_scheme \<Rightarrow> bytes \<Rightarrow> performance_profile \<Rightarrow> 'rng \<Rightarrow>
     (('pk, 'sk, 'sys) issuer \<times> 'rng) option" where
  "generate_with_profile D application_context profile rng =
     (if length application_context \<le> MAX_APPLICATION_CONTEXT_BYTES then
        let ((secret, mayo), rng) = trapgen D rng
        in Some (\<lparr>iss_secret = secret, iss_public = public_of D application_context profile mayo\<rparr>, rng)
      else None)"

definition generate ::
  "('g, 'pk, 'sk, 'sys, 'proof, 'rng, 'z) deps_scheme \<Rightarrow> bytes \<Rightarrow> 'rng \<Rightarrow>
     (('pk, 'sk, 'sys) issuer \<times> 'rng) option" where
  "generate D application_context rng = generate_with_profile D application_context Balanced rng"

section \<open>Issuance\<close>

text \<open>\<open>prepare_issue\<close>: the error path drops the secrets; the generator has advanced on both.\<close>

definition prepare_issue ::
  "('g, 'pk, 'sk, 'sys, 'proof, 'rng, 'z) deps_scheme \<Rightarrow> ('pk, 'sys) public_key \<Rightarrow> credential_context \<Rightarrow>
     'rng \<Rightarrow> ((error + 'g pending_issue \<times> ('g, 'proof) issue_request) \<times> 'rng) option" where
  "prepare_issue D public cctx rng =
     (let (secret, rng) = fill_bytes D 32 rng;
          (hiding_nonce, rng) = fill_bytes D 32 rng;
          scope = credential_scope (sha3 D) (pub_context public) (credential_digest cctx);
          commitment = credential_target D scope secret hiding_nonce;
          circuit = \<lparr>ic_credential_scope = scope, ic_target = commitment\<rparr>
      in Option.bind (issue_witness circuit secret hiding_nonce) (\<lambda>witness.
        let statement = issue_statement D (pub_context public) (credential_digest cctx) commitment;
            (proof_result, rng) =
              vole_prove D (profile_params (vole D) (pub_profile public)) statement (Issuance circuit) witness rng
        in Some (rbind (map_err proof_error proof_result) (\<lambda>proof.
             Inr (\<lparr>pend_issuer_context = pub_context public, pend_credential_context = cctx,
                   pend_secret = secret, pend_hiding_nonce = hiding_nonce, pend_commitment = commitment\<rparr>,
                  \<lparr>req_commitment = commitment, req_proof = proof\<rparr>)), rng)))"

definition issue ::
  "('g, 'pk, 'sk, 'sys, 'proof, 'rng, 'z) deps_scheme \<Rightarrow> ('pk, 'sk, 'sys) issuer \<Rightarrow>
     ('g, 'proof) issue_request \<Rightarrow> credential_context \<Rightarrow> 'rng \<Rightarrow> (error + 'g issue_response) \<times> 'rng" where
  "issue D issuer request cctx rng =
     (if length (req_commitment request) \<noteq> P_M (mp D) then (Inl InvalidRequest, rng)
      else
        let public = iss_public issuer;
            scope = credential_scope (sha3 D) (pub_context public) (credential_digest cctx);
            circuit = \<lparr>ic_credential_scope = scope, ic_target = req_commitment request\<rparr>;
            statement = issue_statement D (pub_context public) (credential_digest cctx) (req_commitment request)
        in case map_err proof_error
                  (vole_verify D (profile_params (vole D) (pub_profile public)) statement (Issuance circuit)
                     (req_proof request)) of
             Inl e \<Rightarrow> (Inl e, rng)
           | Inr _ \<Rightarrow>
               let (salt, rng) = fill_bytes D SALT_BYTES rng;
                   target = signed_credential_target D (req_commitment request) salt;
                   (preimage, rng) = spre D (iss_secret issuer) target rng
               in (rbind (ok_or SigningFailed preimage) (\<lambda>signature.
                     Inr \<lparr>resp_signature = signature, resp_salt = salt\<rparr>), rng))"

definition finish ::
  "('g, 'pk, 'sk, 'sys, 'proof, 'rng, 'z) deps_scheme \<Rightarrow> 'g pending_issue \<Rightarrow> ('pk, 'sys) public_key \<Rightarrow>
     ('g, 'proof) issue_request \<Rightarrow> 'g issue_response \<Rightarrow> error + 'g credential" where
  "finish D pending public request response =
     (if pend_issuer_context pending \<noteq> pub_context public then Inl WrongIssuer
      else if req_commitment request \<noteq> pend_commitment pending then Inl InvalidRequest
      else
        let target = signed_credential_target D (pend_commitment pending) (resp_salt response)
        in rbind (ok_or InvalidSignature (mayo_eval D (pub_mayo public) (resp_signature response)))
           (\<lambda>evaluated.
             if \<not> gf16_slices_equal D evaluated target then Inl InvalidSignature
             else Inr \<lparr>cred_issuer_context = pend_issuer_context pending,
                       cred_credential_context = pend_credential_context pending,
                       cred_signature = resp_signature response,
                       cred_secret = pend_secret pending,
                       cred_hiding_nonce = pend_hiding_nonce pending,
                       cred_salt = resp_salt response,
                       cred_next_nonces = []\<rparr>))"

definition verify_credential ::
  "('g, 'pk, 'sk, 'sys, 'proof, 'rng, 'z) deps_scheme \<Rightarrow> ('pk, 'sys) public_key \<Rightarrow> 'g credential \<Rightarrow>
     error + unit" where
  "verify_credential D public cred =
     (if cred_issuer_context cred \<noteq> pub_context public then Inl WrongIssuer
      else
        let scope = credential_scope (sha3 D) (cred_issuer_context cred)
              (credential_digest (cred_credential_context cred));
            commitment = credential_target D scope (cred_secret cred) (cred_hiding_nonce cred);
            target = signed_credential_target D commitment (cred_salt cred)
        in rbind (ok_or InvalidSignature (mayo_eval D (pub_mayo public) (cred_signature cred)))
           (\<lambda>evaluated. if \<not> gf16_slices_equal D evaluated target then Inl InvalidSignature else Inr ()))"

section \<open>Presentation\<close>

definition next_nonce :: "'g credential \<Rightarrow> presentation_context \<Rightarrow> u32" where
  "next_nonce cred pctx =
     (case bt_get (cred_next_nonces cred) (CounterKey (presentation_digest pctx)) of None \<Rightarrow> 0 | Some n \<Rightarrow> n)"

definition context_count :: "'g credential \<Rightarrow> nat" where
  "context_count cred = length (cred_next_nonces cred)"

definition present ::
  "('g, 'pk, 'sk, 'sys, 'proof, 'rng, 'z) deps_scheme \<Rightarrow> ('pk, 'sys) public_key \<Rightarrow> presentation_challenge \<Rightarrow>
     'g credential \<Rightarrow> 'rng \<Rightarrow> ((error + 'proof presentation) \<times> 'g credential \<times> 'rng) option" where
  "present D public challenge cred rng =
     (if cred_issuer_context cred \<noteq> pub_context public then Some (Inl WrongIssuer, cred, rng)
      else if cred_credential_context cred \<noteq> ch_credential_context challenge
      then Some (Inl WrongCredentialContext, cred, rng)
      else if ch_limit challenge = 0 then Some (Inl InvalidPresentationLimit, cred, rng)
      else
        let context_key = presentation_digest (ch_presentation_context challenge);
            is_new_context = (\<not> bt_contains_key (cred_next_nonces cred) (CounterKey context_key))
        in if is_new_context \<and> length (cred_next_nonces cred) \<ge> MAX_PRESENTATION_CONTEXTS
           then Some (Inl TooManyPresentationContexts, cred, rng)
           else
             let nonce = (case bt_get (cred_next_nonces cred) (CounterKey context_key) of None \<Rightarrow> 0 | Some n \<Rightarrow> n)
             in if nonce \<ge> ch_limit challenge then Some (Inl RateLimitReached, cred, rng)
                else
                  let c_scope = credential_scope (sha3 D) (cred_issuer_context cred)
                        (credential_digest (cred_credential_context cred));
                      scope = presentation_scope (sha3 D) (cred_issuer_context cred)
                        (credential_digest (cred_credential_context cred))
                        (presentation_digest (ch_presentation_context challenge));
                      tag = derive_tag (cred_secret cred) scope nonce;
                      circuit = \<lparr>pc_mayo_system = pub_mayo_system public, pc_credential_scope = c_scope,
                        pc_presentation_scope = scope, pc_presentation_limit = ch_limit challenge,
                        pc_tag = tag\<rparr>;
                      secrets = \<lparr>ps_signature = cred_signature cred, ps_secret = cred_secret cred,
                        ps_hiding_nonce = cred_hiding_nonce cred, ps_salt = cred_salt cred,
                        ps_presentation_nonce = nonce\<rparr>
                  in Option.bind (presentation_witness D circuit secrets) (\<lambda>witness.
                    let statement = presentation_statement D (cred_issuer_context cred) challenge tag;
                        (proof_result, rng) = vole_prove D (profile_params (vole D) (pub_profile public))
                          statement (Presenting circuit) witness rng
                    in case map_err proof_error proof_result of
                         Inl e \<Rightarrow> Some (Inl e, cred, rng)
                       | Inr proof \<Rightarrow>
                           Some (Inr \<lparr>pres_tag = tag, pres_proof = proof\<rparr>,
                             cred\<lparr>cred_next_nonces :=
                               bt_insert (CounterKey context_key) (nonce + 1) (cred_next_nonces cred)\<rparr>,
                             rng)))"

section \<open>Verification\<close>

definition verify_proof_only ::
  "('g, 'pk, 'sk, 'sys, 'proof, 'rng, 'z) deps_scheme \<Rightarrow> ('pk, 'sys) public_key \<Rightarrow> presentation_challenge \<Rightarrow>
     'proof presentation \<Rightarrow> error + verified_presentation" where
  "verify_proof_only D public challenge pres =
     (if ch_limit challenge = 0 then Inl InvalidPresentationLimit
      else
        let c_scope = credential_scope (sha3 D) (pub_context public)
              (credential_digest (ch_credential_context challenge));
            scope = presentation_scope (sha3 D) (pub_context public)
              (credential_digest (ch_credential_context challenge))
              (presentation_digest (ch_presentation_context challenge));
            circuit = \<lparr>pc_mayo_system = pub_mayo_system public, pc_credential_scope = c_scope,
              pc_presentation_scope = scope, pc_presentation_limit = ch_limit challenge,
              pc_tag = pres_tag pres\<rparr>;
            statement = presentation_statement D (pub_context public) challenge (pres_tag pres)
        in rbind (map_err proof_error
             (vole_verify D (profile_params (vole D) (pub_profile public)) statement
                (Presenting circuit) (pres_proof pres)))
           (\<lambda>_. Inr \<lparr>vp_scope = scope, vp_tag = pres_tag pres\<rparr>))"

definition verifier_with_store :: "('pk, 'sys) public_key \<Rightarrow> 's \<Rightarrow> ('pk, 'sys, 's) verifier" where
  "verifier_with_store public store = \<lparr>ver_public = public, ver_store = store\<rparr>"

definition verifier_new :: "('pk, 'sys) public_key \<Rightarrow> ('pk, 'sys, memory_tag_store) verifier" where
  "verifier_new public = \<lparr>ver_public = public, ver_store = memory_default\<rparr>"

definition accepted_count :: "('pk, 'sys, memory_tag_store) verifier \<Rightarrow> nat" where
  "accepted_count v = memory_len (ver_store v)"

text \<open>\<open>Verifier::verify\<close>, for the \<open>insert_if_absent\<close> of any implementation of \<open>TagStore\<close>.\<close>

definition verifier_verify ::
  "('g, 'pk, 'sk, 'sys, 'proof, 'rng, 'z) deps_scheme \<Rightarrow>
     (digest \<Rightarrow> digest \<Rightarrow> 's \<Rightarrow> (error + bool) \<times> 's) \<Rightarrow> presentation_challenge \<Rightarrow> 'proof presentation \<Rightarrow>
     ('pk, 'sys, 's) verifier \<Rightarrow> (error + verified_presentation) \<times> ('pk, 'sys, 's) verifier" where
  "verifier_verify D insert_if_absent challenge pres v =
     (case verify_proof_only D (ver_public v) challenge pres of
        Inl e \<Rightarrow> (Inl e, v)
      | Inr verified \<Rightarrow>
          let (r, store) = insert_if_absent (vp_scope verified) (vp_tag verified) (ver_store v);
              v = v\<lparr>ver_store := store\<rparr>
          in (case r of
                Inl e \<Rightarrow> (Inl e, v)
              | Inr inserted \<Rightarrow> if \<not> inserted then (Inl TagAlreadyUsed, v) else (Inr verified, v)))"

end
