(* ===== verification/ProtocolWire.thy ===== *)
theory ProtocolWire
  imports Protocol Codec
begin

text \<open>
  The seven encodings of \<open>src/src/protocol.rs\<close>: \<open>to_bytes\<close> and \<open>from_bytes\<close> of every artifact, as
  compositions of the codec's operations. An encoder that writes a length-prefixed component panics
  when the component's length does not fit a \<open>u32\<close>; it is an option.
\<close>

section \<open>Artifact identifiers\<close>

definition WIRE_PUBLIC_KEY :: byte where "WIRE_PUBLIC_KEY = 1"
definition WIRE_ISSUER_KEY :: byte where "WIRE_ISSUER_KEY = 2"
definition WIRE_ISSUE_REQUEST :: byte where "WIRE_ISSUE_REQUEST = 3"
definition WIRE_ISSUE_RESPONSE :: byte where "WIRE_ISSUE_RESPONSE = 4"
definition WIRE_PENDING_ISSUE :: byte where "WIRE_PENDING_ISSUE = 5"
definition WIRE_CREDENTIAL :: byte where "WIRE_CREDENTIAL = 6"
definition WIRE_PRESENTATION :: byte where "WIRE_PRESENTATION = 7"

fun decode_error :: "proof_decode_error \<Rightarrow> wire_error" where
  "decode_error ProofTooLarge = TooLarge"
| "decode_error ProofInvalidEncoding = InvalidEncoding"
| "decode_error ProofUnsupportedVersion = UnsupportedVersion"

definition decode_proof ::
  "('g, 'pk, 'sk, 'sys, 'proof, 'rng, 'z) deps_scheme \<Rightarrow> bytes \<Rightarrow> wire_error + 'proof" where
  "decode_proof D bs = map_err decode_error (proof_from_bytes D bs)"

section \<open>Public keys and issuer keys\<close>

definition public_key_to_bytes ::
  "('g, 'pk, 'sk, 'sys, 'proof, 'rng, 'z) deps_scheme \<Rightarrow> ('pk, 'sys) public_key \<Rightarrow> bytes option" where
  "public_key_to_bytes D public =
     (let mayo = pk_to_bytes D (pub_mayo public);
          output = header [] WIRE_PUBLIC_KEY (P_WIRE_ID (mp D));
          output = output @ [profile_wire_id (pub_profile public)]
      in Option.bind (put_bytes output (pub_application_context public)) (\<lambda>output.
         put_bytes output mayo))"

definition public_key_from_bytes ::
  "('g, 'pk, 'sk, 'sys, 'proof, 'rng, 'z) deps_scheme \<Rightarrow> bytes \<Rightarrow> wire_error + ('pk, 'sys) public_key" where
  "public_key_from_bytes D bs =
     rbind (decoder_new bs WIRE_PUBLIC_KEY (P_WIRE_ID (mp D))) (\<lambda>d.
     rbind (dec_u8 d) (\<lambda>(b, d).
     rbind (profile_from_wire_id b) (\<lambda>profile.
     rbind (dec_bytes d) (\<lambda>(application_context, d).
       if length application_context > MAX_APPLICATION_CONTEXT_BYTES then Inl InvalidEncoding
       else
         rbind (dec_bytes d) (\<lambda>(mayo_bytes, d).
         rbind (ok_or InvalidEncoding (pk_from_bytes D mayo_bytes)) (\<lambda>mayo.
         rbind (dec_finish d) (\<lambda>_. Inr (public_of D application_context profile mayo))))))))"

definition issuer_key_bytes ::
  "('g, 'pk, 'sk, 'sys, 'proof, 'rng, 'z) deps_scheme \<Rightarrow> ('pk, 'sk, 'sys) issuer \<Rightarrow> bytes option" where
  "issuer_key_bytes D issuer =
     (let secret = sk_to_bytes D (iss_secret issuer);
          output = header [] WIRE_ISSUER_KEY (P_WIRE_ID (mp D));
          output = output @ [profile_wire_id (pub_profile (iss_public issuer))]
      in Option.bind (put_bytes output (pub_application_context (iss_public issuer))) (\<lambda>output.
         put_bytes output secret))"

definition issuer_from_key_bytes ::
  "('g, 'pk, 'sk, 'sys, 'proof, 'rng, 'z) deps_scheme \<Rightarrow> bytes \<Rightarrow> wire_error + ('pk, 'sk, 'sys) issuer" where
  "issuer_from_key_bytes D bs =
     rbind (decoder_new bs WIRE_ISSUER_KEY (P_WIRE_ID (mp D))) (\<lambda>d.
     rbind (dec_u8 d) (\<lambda>(b, d).
     rbind (profile_from_wire_id b) (\<lambda>profile.
     rbind (dec_bytes d) (\<lambda>(application_context, d).
       if length application_context > MAX_APPLICATION_CONTEXT_BYTES then Inl InvalidEncoding
       else
         rbind (dec_bytes d) (\<lambda>(secret_bytes, d).
         rbind (ok_or InvalidEncoding (sk_from_bytes D secret_bytes)) (\<lambda>secret.
         rbind (dec_finish d) (\<lambda>_.
           let mayo = sk_public_key D secret
           in Inr \<lparr>iss_secret = secret, iss_public = public_of D application_context profile mayo\<rparr>)))))))"

section \<open>Issuance messages\<close>

definition pending_to_bytes :: "('g, 'z) suite_scheme \<Rightarrow> 'g pending_issue \<Rightarrow> bytes" where
  "pending_to_bytes S pending =
     (let output = header [] WIRE_PENDING_ISSUE (P_WIRE_ID (mp S));
          output = output @ pend_issuer_context pending;
          output = output @ credential_digest (pend_credential_context pending);
          output = output @ pend_secret pending
      in output @ pend_hiding_nonce pending)"

definition pending_from_bytes ::
  "('g, 'z) suite_scheme \<Rightarrow> ('pk, 'sys) public_key \<Rightarrow> bytes \<Rightarrow> wire_error + 'g pending_issue" where
  "pending_from_bytes S public bs =
     rbind (decoder_new bs WIRE_PENDING_ISSUE (P_WIRE_ID (mp S))) (\<lambda>d.
     rbind (dec_array 32 d) (\<lambda>(issuer_context, d).
     rbind (dec_array 32 d) (\<lambda>(credential_context, d).
     rbind (dec_array 32 d) (\<lambda>(secret, d).
     rbind (dec_array 32 d) (\<lambda>(hiding_nonce, d).
     rbind (dec_finish d) (\<lambda>_.
       if issuer_context \<noteq> pub_context public then Inl wire_error.WrongIssuer
       else
         let scope = credential_scope (sha3 S) issuer_context credential_context;
             commitment = credential_target S scope secret hiding_nonce
         in Inr \<lparr>pend_issuer_context = issuer_context,
                 pend_credential_context = CredentialContext credential_context,
                 pend_secret = secret, pend_hiding_nonce = hiding_nonce,
                 pend_commitment = commitment\<rparr>))))))"

definition request_to_bytes ::
  "('g, 'pk, 'sk, 'sys, 'proof, 'rng, 'z) deps_scheme \<Rightarrow> ('g, 'proof) issue_request \<Rightarrow> bytes option" where
  "request_to_bytes D request =
     (let proof = proof_to_bytes D (req_proof request);
          output = header [] WIRE_ISSUE_REQUEST (P_WIRE_ID (mp D))
      in Option.bind (pack_nibbles D (req_commitment request)) (\<lambda>packed.
         put_bytes (output @ packed) proof))"

definition request_from_bytes ::
  "('g, 'pk, 'sk, 'sys, 'proof, 'rng, 'z) deps_scheme \<Rightarrow> bytes \<Rightarrow> wire_error + ('g, 'proof) issue_request" where
  "request_from_bytes D bs =
     rbind (decoder_new bs WIRE_ISSUE_REQUEST (P_WIRE_ID (mp D))) (\<lambda>d.
     rbind (dec_nibbles D (P_M (mp D)) d) (\<lambda>(commitment, d).
     rbind (dec_bytes d) (\<lambda>(proof_bytes, d).
     rbind (decode_proof D proof_bytes) (\<lambda>proof.
     rbind (dec_finish d) (\<lambda>_. Inr \<lparr>req_commitment = commitment, req_proof = proof\<rparr>)))))"

definition response_to_bytes :: "('g, 'z) suite_scheme \<Rightarrow> 'g issue_response \<Rightarrow> bytes option" where
  "response_to_bytes S response =
     (let output = header [] WIRE_ISSUE_RESPONSE (P_WIRE_ID (mp S))
      in Option.bind (pack_nibbles S (resp_signature response)) (\<lambda>packed_signature.
         Some (output @ packed_signature @ resp_salt response)))"

definition response_from_bytes :: "('g, 'z) suite_scheme \<Rightarrow> bytes \<Rightarrow> wire_error + 'g issue_response" where
  "response_from_bytes S bs =
     rbind (decoder_new bs WIRE_ISSUE_RESPONSE (P_WIRE_ID (mp S))) (\<lambda>d.
     rbind (dec_nibbles S (P_KN (mp S)) d) (\<lambda>(signature, d).
     rbind (dec_array SALT_BYTES d) (\<lambda>(salt, d).
     rbind (dec_finish d) (\<lambda>_. Inr \<lparr>resp_signature = signature, resp_salt = salt\<rparr>))))"

section \<open>Credentials\<close>

text \<open>\<open>u32::try_from(len).unwrap_or(u32::MAX)\<close>.\<close>

definition count_u32 :: "nat \<Rightarrow> u32" where
  "count_u32 n = (if n < 2 ^ 32 then of_nat n else 0xffffffff)"

definition credential_to_bytes :: "('g, 'z) suite_scheme \<Rightarrow> 'g credential \<Rightarrow> bytes option" where
  "credential_to_bytes S cred =
     (let output = header [] WIRE_CREDENTIAL (P_WIRE_ID (mp S));
          output = output @ cred_issuer_context cred;
          output = output @ credential_digest (cred_credential_context cred)
      in Option.bind (pack_nibbles S (cred_signature cred)) (\<lambda>packed_signature.
         let output = output @ packed_signature;
             output = output @ cred_secret cred;
             output = output @ cred_hiding_nonce cred;
             output = output @ cred_salt cred;
             output = output @ u32_to_le (count_u32 (length (cred_next_nonces cred)))
         in Some (fold (\<lambda>(context, next_nonce) output. output @ key_bytes context @ u32_to_le next_nonce)
              (cred_next_nonces cred) output)))"

text \<open>The loop over the counter records, with the last context read.\<close>

fun decode_counters ::
  "nat \<Rightarrow> bytes option \<Rightarrow> (counter_key, u32) btree \<Rightarrow> decoder \<Rightarrow> wire_error + ((counter_key, u32) btree \<times> decoder)" where
  "decode_counters 0 previous next_nonces d = Inr (next_nonces, d)"
| "decode_counters (Suc n) previous next_nonces d =
     rbind (dec_array 32 d) (\<lambda>(context, d).
       if (case previous of None \<Rightarrow> False | Some prior \<Rightarrow> prior \<ge> context) then Inl InvalidEncoding
       else rbind (dec_u32 d) (\<lambda>(next_nonce, d).
         if next_nonce = 0 then Inl InvalidEncoding
         else decode_counters n (Some context) (bt_insert (CounterKey context) next_nonce next_nonces) d))"

definition credential_from_bytes ::
  "('g, 'pk, 'sk, 'sys, 'proof, 'rng, 'z) deps_scheme \<Rightarrow> ('pk, 'sys) public_key \<Rightarrow> bytes \<Rightarrow>
     wire_error + 'g credential" where
  "credential_from_bytes D public bs =
     rbind (decoder_new bs WIRE_CREDENTIAL (P_WIRE_ID (mp D))) (\<lambda>d.
     rbind (dec_array 32 d) (\<lambda>(issuer_context, d).
     rbind (dec_array 32 d) (\<lambda>(credential_context, d).
     rbind (dec_nibbles D (P_KN (mp D)) d) (\<lambda>(signature, d).
     rbind (dec_array 32 d) (\<lambda>(secret, d).
     rbind (dec_array 32 d) (\<lambda>(hiding_nonce, d).
     rbind (dec_array SALT_BYTES d) (\<lambda>(salt, d).
     rbind (dec_u32 d) (\<lambda>(count, d).
       if unat count > MAX_PRESENTATION_CONTEXTS then Inl InvalidEncoding
       else
         rbind (decode_counters (unat count) None [] d) (\<lambda>(next_nonces, d).
         rbind (dec_finish d) (\<lambda>_.
           if issuer_context \<noteq> pub_context public then Inl wire_error.WrongIssuer
           else
             let cred = \<lparr>cred_issuer_context = issuer_context,
                   cred_credential_context = CredentialContext credential_context,
                   cred_signature = signature, cred_secret = secret,
                   cred_hiding_nonce = hiding_nonce, cred_salt = salt,
                   cred_next_nonces = next_nonces\<rparr>
             in rbind (map_err (\<lambda>_. InvalidCredential) (verify_credential D public cred))
                (\<lambda>_. Inr cred)))))))))))"

section \<open>Presentations\<close>

definition presentation_to_bytes ::
  "('g, 'pk, 'sk, 'sys, 'proof, 'rng, 'z) deps_scheme \<Rightarrow> 'proof presentation \<Rightarrow> bytes option" where
  "presentation_to_bytes D pres =
     (let proof = proof_to_bytes D (pres_proof pres);
          output = header [] WIRE_PRESENTATION (P_WIRE_ID (mp D));
          output = output @ pres_tag pres
      in put_bytes output proof)"

definition presentation_from_bytes ::
  "('g, 'pk, 'sk, 'sys, 'proof, 'rng, 'z) deps_scheme \<Rightarrow> bytes \<Rightarrow> wire_error + 'proof presentation" where
  "presentation_from_bytes D bs =
     rbind (decoder_new bs WIRE_PRESENTATION (P_WIRE_ID (mp D))) (\<lambda>d.
     rbind (dec_array 32 d) (\<lambda>(tag, d).
     rbind (dec_bytes d) (\<lambda>(proof_bytes, d).
     rbind (decode_proof D proof_bytes) (\<lambda>proof.
     rbind (dec_finish d) (\<lambda>_. Inr \<lparr>pres_tag = tag, pres_proof = proof\<rparr>)))))"

end
