(* ===== verification/Laws.thy ===== *)
theory Laws
  imports Protocol Relations ShakeSpec
begin

text \<open>
  What the source relies on in the other crates, as predicates on the parameters of the model: the
  hypotheses of the properties of issuance, presentation and verification. The proof system is
  idealised: a proof it accepts has a witness, and it proves every satisfied circuit. The record
  \<open>demo_deps\<close> is a concrete instance that has them all: the code's own SHAKE256, 4-bit words as field
  elements, a trapdoor function that anybody can invert, and the proof system whose proofs are the
  witnesses themselves.
\<close>

section \<open>Encodings\<close>

text \<open>The encodings of the other crates are canonical: a decoder accepts only what the encoder writes.\<close>

definition canonical_keys :: "('g, 'pk, 'sk, 'sys, 'proof, 'rng, 'z) deps_scheme \<Rightarrow> bool" where
  "canonical_keys D \<longleftrightarrow>
     (\<forall>bs pk. pk_from_bytes D bs = Some pk \<longrightarrow> pk_to_bytes D pk = bs) \<and>
     (\<forall>bs sk. sk_from_bytes D bs = Some sk \<longrightarrow> sk_to_bytes D sk = bs)"

definition canonical_proofs :: "('g, 'pk, 'sk, 'sys, 'proof, 'rng, 'z) deps_scheme \<Rightarrow> bool" where
  "canonical_proofs D \<longleftrightarrow> (\<forall>bs p. proof_from_bytes D bs = Inr p \<longrightarrow> proof_to_bytes D p = bs)"

lemma canonicalD:
  "canonical_keys D \<Longrightarrow> pk_from_bytes D bs = Some pk \<Longrightarrow> pk_to_bytes D pk = bs"
  "canonical_keys D \<Longrightarrow> sk_from_bytes D bs = Some sk \<Longrightarrow> sk_to_bytes D sk = bs"
  "canonical_proofs D \<Longrightarrow> proof_from_bytes D bs = Inr p \<Longrightarrow> proof_to_bytes D p = bs"
  by (auto simp: canonical_keys_def canonical_proofs_def)

text \<open>\<open>gf16_slice_as_bytes\<close> reinterprets a slice of one-byte field elements.\<close>

definition slice_laws :: "('g, 'z) suite_scheme \<Rightarrow> bool" where
  "slice_laws S \<longleftrightarrow> inj (gf16_slice_as_bytes S)"

lemma slices_equal_iff: "slice_laws S \<Longrightarrow> gf16_slices_equal S xs ys \<longleftrightarrow> xs = ys"
  by (auto simp: slice_laws_def gf16_slices_equal_def dest: injD)

section \<open>The random generator and the hash\<close>

definition rng_laws :: "('g, 'pk, 'sk, 'sys, 'proof, 'rng, 'z) deps_scheme \<Rightarrow> bool" where
  "rng_laws D \<longleftrightarrow> (\<forall>n r. length (fst (fill_bytes D n r)) = n)"

definition xof_laws :: "('g, 'z) suite_scheme \<Rightarrow> bool" where
  "xof_laws S \<longleftrightarrow> (\<forall>m n. length (sha3 S m n) = n)"

section \<open>The trapdoor function\<close>

text \<open>
  The compact system of a public key holds of a preimage and a target exactly when the function maps
  the one to the other; \<open>spre\<close> returns preimages under the public key of its secret key.
\<close>

definition system_of :: "('g, 'pk, 'sk, 'sys, 'proof, 'rng, 'z) deps_scheme \<Rightarrow> 'pk \<Rightarrow> 'sys" where
  "system_of D pk = fst (visit_forms D pk)"

definition mayo_system_laws ::
  "('g, 'pk, 'sk, 'sys, 'proof, 'rng, 'z) deps_scheme \<Rightarrow> ('g \<Rightarrow> 'f) \<Rightarrow>
     ('f list \<Rightarrow> 'sys \<Rightarrow> 'f list \<Rightarrow> bool) \<Rightarrow> bool" where
  "mayo_system_laws D emb system_holds \<longleftrightarrow>
     (\<forall>pk s t. length s = P_KN (mp D) \<longrightarrow> length t = P_M (mp D) \<longrightarrow>
        (system_holds (map emb s) (system_of D pk) (map emb t) \<longleftrightarrow> mayo_eval D pk s = Some t))"

text \<open>\<open>mayo::eval\<close> fails on an input of the wrong length.\<close>

definition eval_laws :: "('g, 'pk, 'sk, 'sys, 'proof, 'rng, 'z) deps_scheme \<Rightarrow> bool" where
  "eval_laws D \<longleftrightarrow> (\<forall>pk s. length s \<noteq> P_KN (mp D) \<longrightarrow> mayo_eval D pk s = None)"

definition trapdoor_laws :: "('g, 'pk, 'sk, 'sys, 'proof, 'rng, 'z) deps_scheme \<Rightarrow> bool" where
  "trapdoor_laws D \<longleftrightarrow>
     (\<forall>sk t r s r'. length t = P_M (mp D) \<longrightarrow> spre D sk t r = (Some s, r') \<longrightarrow>
        mayo_eval D (sk_public_key D sk) s = Some t) \<and>
     (\<forall>r sk pk r'. trapgen D r = ((sk, pk), r') \<longrightarrow> sk_public_key D sk = pk)"

section \<open>The proof system\<close>

text \<open>A witness satisfies the circuit a proof is about.\<close>

definition satisfies ::
  "('g, 'z) suite_scheme \<Rightarrow> ('g \<Rightarrow> 'f::comm_ring_1) \<Rightarrow> ('f list \<Rightarrow> 'sys \<Rightarrow> 'f list \<Rightarrow> bool) \<Rightarrow>
     ('g, 'sys) relation_circuit \<Rightarrow> bool list \<Rightarrow> bool" where
  "satisfies S emb system_holds circuit ws =
     (case circuit of
        Issuance C \<Rightarrow> accepts (issue_build (check_backend system_holds) S C) ws
      | Presenting C \<Rightarrow> accepts (presentation_build (check_backend system_holds) S emb C) ws)"

definition proof_sound ::
  "('g, 'pk, 'sk, 'sys, 'proof, 'rng, 'z) deps_scheme \<Rightarrow> ('g \<Rightarrow> 'f::comm_ring_1) \<Rightarrow>
     ('f list \<Rightarrow> 'sys \<Rightarrow> 'f list \<Rightarrow> bool) \<Rightarrow> bool" where
  "proof_sound D emb system_holds \<longleftrightarrow>
     (\<forall>params statement circuit p. vole_verify D params statement circuit p = Inr () \<longrightarrow>
        (\<exists>ws. satisfies D emb system_holds circuit ws))"

definition proof_complete ::
  "('g, 'pk, 'sk, 'sys, 'proof, 'rng, 'z) deps_scheme \<Rightarrow> ('g \<Rightarrow> 'f::comm_ring_1) \<Rightarrow>
     ('f list \<Rightarrow> 'sys \<Rightarrow> 'f list \<Rightarrow> bool) \<Rightarrow> bool" where
  "proof_complete D emb system_holds \<longleftrightarrow>
     (\<forall>params statement circuit ws r. satisfies D emb system_holds circuit ws \<longrightarrow>
        (\<exists>p r'. vole_prove D params statement circuit ws r = (Inr p, r') \<and>
           vole_verify D params statement circuit p = Inr ()))"

text \<open>The laws of the fields that the relations of both circuits need.\<close>

definition field_laws :: "('g, 'z) suite_scheme \<Rightarrow> ('g \<Rightarrow> 'f::comm_ring_1) \<Rightarrow> bool" where
  "field_laws S emb \<longleftrightarrow> gf16_laws S \<and> (1 :: 'f) + 1 = 0 \<and> embed_additive S emb"

lemma field_lawsD:
  assumes "field_laws S (emb :: 'g \<Rightarrow> 'f::comm_ring_1)"
  shows "gf16_laws S" and "(1 :: 'f) + 1 = 0" and "embed_additive S emb"
  using assms by (simp_all add: field_laws_def)

section \<open>An instance\<close>

definition demo_holds :: "bits4 list \<Rightarrow> unit \<Rightarrow> bits4 list \<Rightarrow> bool" where
  "demo_holds xs _ ts \<longleftrightarrow> take 4 xs = ts"

definition demo_vole :: vole_suite where
  "demo_vole = \<lparr>PARAMS_128 = \<lparr>vp_tau = 11, vp_k = 11\<rparr>, PARAMS_128_BALANCED = \<lparr>vp_tau = 16, vp_k = 8\<rparr>,
     PARAMS_128_FAST = \<lparr>vp_tau = 32, vp_k = 4\<rparr>\<rparr>"

definition demo_deps :: "(4 word, unit, unit, unit, bool list, nat) deps" where
  "demo_deps = suite.extend demo_suite
     \<lparr>fill_bytes = \<lambda>n r. (replicate n (of_nat r), r + 1),
      trapgen = \<lambda>r. (((), ()), r + 1),
      mayo_eval = \<lambda>_ s. if length s = 12 then Some (take 4 s) else None,
      spre = \<lambda>_ t r. (Some (t @ replicate 8 0), r + 1),
      visit_forms = \<lambda>_. ((), []),
      pk_to_bytes = \<lambda>_. [7], pk_from_bytes = \<lambda>bs. if bs = [7] then Some () else None,
      sk_to_bytes = \<lambda>_. [8], sk_from_bytes = \<lambda>bs. if bs = [8] then Some () else None,
      sk_public_key = \<lambda>_. (),
      vole = demo_vole,
      vole_prove = \<lambda>_ _ circuit ws r.
        (if satisfies demo_suite demo_embed demo_holds circuit ws then Inr ws else Inl Unsatisfiable, r + 1),
      vole_verify = \<lambda>_ _ circuit p.
        if satisfies demo_suite demo_embed demo_holds circuit p then Inr () else Inl Unsatisfiable,
      proof_to_bytes = map of_bool,
      proof_from_bytes = \<lambda>bs. if set bs \<subseteq> {0, 1} then Inr (map (\<lambda>b. b = 1) bs) else Inl ProofInvalidEncoding\<rparr>"

lemma demo_deps_simps [simp]:
  "sha3 demo_deps = shake256" "mp demo_deps = demo_params" "gf16_slice_as_bytes demo_deps = map ucast"
  "gf16_new demo_deps = ucast" "gf16_to_u8 demo_deps = ucast"
  "fill_bytes demo_deps n r = (replicate n (of_nat r), r + 1)"
  "trapgen demo_deps r = (((), ()), r + 1)"
  "mayo_eval demo_deps pk s = (if length s = 12 then Some (take 4 s) else None)"
  "spre demo_deps sk t r = (Some (t @ replicate 8 0), r + 1)"
  "visit_forms demo_deps pk = ((), [])"
  "pk_to_bytes demo_deps pk = [7]" "pk_from_bytes demo_deps bs = (if bs = [7] then Some () else None)"
  "sk_to_bytes demo_deps sk = [8]" "sk_from_bytes demo_deps bs = (if bs = [8] then Some () else None)"
  "sk_public_key demo_deps sk = ()"
  "proof_to_bytes demo_deps = map of_bool"
  "proof_from_bytes demo_deps bs =
     (if set bs \<subseteq> {0, 1} then Inr (map (\<lambda>b. b = 1) bs) else Inl ProofInvalidEncoding)"
  "vole_prove demo_deps params statement circuit ws r =
     (if satisfies demo_suite demo_embed demo_holds circuit ws then Inr ws else Inl Unsatisfiable, r + 1)"
  "vole_verify demo_deps params statement circuit p =
     (if satisfies demo_suite demo_embed demo_holds circuit p then Inr () else Inl Unsatisfiable)"
  by (simp_all add: demo_deps_def demo_suite_def suite.defs gf16_ops.defs)

lemma demo_laws_deps:
  "gf16_laws demo_deps" "slice_laws demo_deps" "embed_additive demo_deps demo_embed"
proof -
  show "gf16_laws demo_deps" using demo_laws by (simp add: gf16_laws_def demo_suite_def)
  show "embed_additive demo_deps demo_embed"
    using demo_embed_additive by (simp add: embed_additive_def demo_suite_def)
  have "inj (ucast :: 4 word \<Rightarrow> byte)"
  proof (rule injI)
    fix v w :: "4 word"
    assume "(ucast v :: byte) = ucast w"
    then have eq: "bit (ucast v :: byte) k = bit (ucast w :: byte) k" for k by simp
    have "bit v k \<longleftrightarrow> bit w k" if "k < 4" for k
      using that eq[of k] by (simp add: bit_ucast_iff)
    then show "v = w" by (intro bit_word_eqI) simp
  qed
  then show "slice_laws demo_deps" by (simp add: slice_laws_def)
qed

lemma demo_field_laws: "field_laws demo_deps demo_embed"
  by (simp add: field_laws_def demo_laws_deps bits4_char2)

lemma demo_canonical: "canonical_keys demo_deps" "canonical_proofs demo_deps"
  by (auto simp: canonical_keys_def canonical_proofs_def subset_iff intro!: map_idI split: if_splits)

lemma demo_rng_laws: "rng_laws demo_deps"
  by (simp add: rng_laws_def)

lemma demo_xof_laws: "xof_laws demo_deps"
  by (simp add: xof_laws_def)

lemma demo_trapdoor_laws: "trapdoor_laws demo_deps"
  by (auto simp: trapdoor_laws_def demo_params_def)

lemma demo_eval_laws: "eval_laws demo_deps"
  by (simp add: eval_laws_def demo_params_def)

lemma inj_demo_embed: "inj demo_embed"
proof (rule injI)
  fix v w :: "4 word"
  assume "demo_embed v = demo_embed w"
  then have "bit v k = bit w k" if "k < 4" for k
    using that by (auto simp: demo_embed_def less_Suc_eq numeral_eq_Suc)
  then show "v = w" by (intro bit_word_eqI) simp
qed

lemma demo_mayo_system_laws: "mayo_system_laws demo_deps demo_embed demo_holds"
  by (auto simp: mayo_system_laws_def demo_params_def demo_holds_def system_of_def take_map
      inj_map_eq_map[OF inj_demo_embed])

text \<open>Whether a witness satisfies a circuit depends on the suite, not on what extends it.\<close>

lemma demo_builds:
  "issue_build B demo_deps C = issue_build B demo_suite C"
  "presentation_build B demo_deps emb P = presentation_build B demo_suite emb P"
proof -
  have lift: "lift_gf16 B demo_deps emb = lift_gf16 B demo_suite emb"
    by (simp add: fun_eq_iff lift_gf16_def demo_suite_def)
  have "lift_nibbles B demo_deps emb = lift_nibbles B demo_suite emb"
    by (intro ext) (simp only: lift_nibbles_def lift)
  then show "presentation_build B demo_deps emb P = presentation_build B demo_suite emb P"
    by (simp only: presentation_build_def demo_deps_simps demo_mp)
  have "target_constant_bits B demo_deps = target_constant_bits B demo_suite"
    by (simp add: fun_eq_iff target_constant_bits_def gf16_bits_def demo_suite_def)
  then show "issue_build B demo_deps C = issue_build B demo_suite C"
    by (simp only: issue_build_def demo_deps_simps demo_mp)
qed

lemma demo_satisfies:
  "satisfies demo_deps demo_embed demo_holds circuit ws = satisfies demo_suite demo_embed demo_holds circuit ws"
  by (simp add: satisfies_def demo_builds split: relation_circuit.split)

lemma demo_proof_laws:
  "proof_sound demo_deps demo_embed demo_holds" "proof_complete demo_deps demo_embed demo_holds"
  by (auto simp: proof_sound_def proof_complete_def demo_satisfies demo_deps_simps split: if_splits)

end
