(* ===== verification/Artifacts.thy ===== *)
theory Artifacts
  imports ProtocolWire Laws
begin

text \<open>
  The seven encodings of \<open>src/src/protocol.rs\<close> meet the contract \<open>artifact_codec\<close>: a decoder returns a
  value exactly when the bytes are of legal size and are what the encoder writes for that value, and
  the value is valid. Validity is what each decoder checks beyond the format: the key material decodes
  in its own crate, a pending request is rebuilt for this issuer, a credential is authentic.
\<close>

section \<open>Rules for decoders\<close>

lemmas parse_binds = decoder_new_bind array.parse_bind u8.parse_bind u32.parse_bind framed.parse_bind
lemma u8_parse_Cons: "fits (pre @ b # r) \<Longrightarrow> dec_u8 (dec_at pre (b # r)) = Inr (b, dec_at (pre @ [b]) r)"
  using u8.parse_enc[OF TrueI, of pre b r] by simp

lemmas parse_encs = array.parse_enc array.parse_last u8_parse_Cons u32.parse_enc framed.parse_enc framed.parse_last

lemma profile_of_wire_id [simp]: "profile_from_wire_id (profile_wire_id p) = Inr p"
  by simp

lemma other_binds:
  "rbind (profile_from_wire_id b) f = Inr y \<longleftrightarrow> (\<exists>p. b = profile_wire_id p \<and> f p = Inr y)"
  "rbind (ok_or e v) f' = Inr y' \<longleftrightarrow> (\<exists>x. v = Some x \<and> f' x = Inr y')"
  "rbind (decode_proof D bs) g = Inr z \<longleftrightarrow> (\<exists>p. proof_from_bytes D bs = Inr p \<and> g p = Inr z)"
  by (auto simp: rbind_eq_Inr decode_proof_def)

section \<open>Pending requests\<close>

definition pending_valid :: "('g, 'z) suite_scheme \<Rightarrow> ('pk, 'sys) public_key \<Rightarrow> 'g pending_issue \<Rightarrow> bool" where
  "pending_valid S public p \<longleftrightarrow>
     pend_issuer_context p = pub_context public \<and> length (pend_issuer_context p) = 32 \<and>
     length (credential_digest (pend_credential_context p)) = 32 \<and>
     length (pend_secret p) = 32 \<and> length (pend_hiding_nonce p) = 32 \<and>
     pend_commitment p = credential_target S
       (credential_scope (sha3 S) (pend_issuer_context p) (credential_digest (pend_credential_context p)))
       (pend_secret p) (pend_hiding_nonce p)"

lemma pending_sound:
  "pending_from_bytes S public bs = Inr p \<Longrightarrow> fits bs \<and> pending_valid S public p \<and> pending_to_bytes S p = bs"
  unfolding pending_from_bytes_def
  by (auto simp: parse_binds dec_finish_at pending_valid_def pending_to_bytes_def Let_def header_eq[of "_ @ _"]
      split: if_splits)

lemma pending_complete:
  "fits (pending_to_bytes S p) \<Longrightarrow> pending_valid S public p \<Longrightarrow>
     pending_from_bytes S public (pending_to_bytes S p) = Inr p"
  unfolding pending_from_bytes_def decoder_new_bind
  by (cases "pend_credential_context p", cases p)
     (auto simp: pending_to_bytes_def pending_valid_def Let_def parse_encs dec_finish_at)


section \<open>Public keys and issuer keys\<close>

lemma public_of_fields [simp]:
  "pub_mayo (public_of D a f m) = m" "pub_profile (public_of D a f m) = f"
  "pub_application_context (public_of D a f m) = a"
  by (simp_all add: public_of_def Let_def split_beta)

definition public_valid ::
  "('g, 'pk, 'sk, 'sys, 'proof, 'rng, 'z) deps_scheme \<Rightarrow> ('pk, 'sys) public_key \<Rightarrow> bool" where
  "public_valid D public \<longleftrightarrow>
     public = public_of D (pub_application_context public) (pub_profile public) (pub_mayo public) \<and>
     length (pub_application_context public) \<le> MAX_APPLICATION_CONTEXT_BYTES \<and>
     pk_from_bytes D (pk_to_bytes D (pub_mayo public)) = Some (pub_mayo public)"

definition issuer_valid ::
  "('g, 'pk, 'sk, 'sys, 'proof, 'rng, 'z) deps_scheme \<Rightarrow> ('pk, 'sk, 'sys) issuer \<Rightarrow> bool" where
  "issuer_valid D issuer \<longleftrightarrow>
     iss_public issuer = public_of D (pub_application_context (iss_public issuer))
       (pub_profile (iss_public issuer)) (sk_public_key D (iss_secret issuer)) \<and>
     length (pub_application_context (iss_public issuer)) \<le> MAX_APPLICATION_CONTEXT_BYTES \<and>
     sk_from_bytes D (sk_to_bytes D (iss_secret issuer)) = Some (iss_secret issuer)"

lemma public_key_sound:
  assumes "canonical_keys D" and "public_key_from_bytes D bs = Inr public"
  shows "fits bs \<and> public_valid D public \<and> public_key_to_bytes D public = Some bs"
  using assms canonicalD(1)[OF assms(1)] unfolding public_key_from_bytes_def
  by (auto simp: parse_binds dec_finish_at public_valid_def public_key_to_bytes_def Let_def other_binds
      put_bytes_eq MAX_APPLICATION_CONTEXT_BYTES_def split: if_splits)

lemma public_key_complete:
  assumes "fits bs" and "public_valid D public" and "public_key_to_bytes D public = Some bs"
  shows "public_key_from_bytes D bs = Inr public"
  using assms unfolding public_key_from_bytes_def decoder_new_bind
  by (auto simp: public_key_to_bytes_def public_valid_def Let_def put_bytes_eq parse_encs dec_finish_at
      split: if_splits)

lemma issuer_key_sound:
  assumes "canonical_keys D" and "issuer_from_key_bytes D bs = Inr issuer"
  shows "fits bs \<and> issuer_valid D issuer \<and> issuer_key_bytes D issuer = Some bs"
  using assms canonicalD(2)[OF assms(1)] unfolding issuer_from_key_bytes_def
  by (auto simp: parse_binds dec_finish_at issuer_valid_def issuer_key_bytes_def Let_def other_binds
      put_bytes_eq MAX_APPLICATION_CONTEXT_BYTES_def split: if_splits)

lemma issuer_key_complete:
  assumes "fits bs" and "issuer_valid D issuer" and "issuer_key_bytes D issuer = Some bs"
  shows "issuer_from_key_bytes D bs = Inr issuer"
  using assms unfolding issuer_from_key_bytes_def decoder_new_bind
  by (auto simp: issuer_key_bytes_def issuer_valid_def Let_def put_bytes_eq parse_encs dec_finish_at
      split: if_splits)

section \<open>Requests, responses and presentations\<close>

definition request_valid ::
  "('g, 'pk, 'sk, 'sys, 'proof, 'rng, 'z) deps_scheme \<Rightarrow> ('g, 'proof) issue_request \<Rightarrow> bool" where
  "request_valid D request \<longleftrightarrow> length (req_commitment request) = P_M (mp D) \<and>
     proof_from_bytes D (proof_to_bytes D (req_proof request)) = Inr (req_proof request)"

definition response_valid :: "('g, 'z) suite_scheme \<Rightarrow> 'g issue_response \<Rightarrow> bool" where
  "response_valid S response \<longleftrightarrow> length (resp_signature response) = P_KN (mp S) \<and> length (resp_salt response) = 32"

definition presentation_valid ::
  "('g, 'pk, 'sk, 'sys, 'proof, 'rng, 'z) deps_scheme \<Rightarrow> 'proof presentation \<Rightarrow> bool" where
  "presentation_valid D pres \<longleftrightarrow> length (pres_tag pres) = 32 \<and>
     proof_from_bytes D (proof_to_bytes D (pres_proof pres)) = Inr (pres_proof pres)"

lemma decode_proof_Inr [simp]: "decode_proof D bs = Inr p \<longleftrightarrow> proof_from_bytes D bs = Inr p"
  by (simp add: decode_proof_def)

lemma request_sound:
  assumes "gf16_laws D" and "P_M (mp D) < usize_max" and "canonical_proofs D"
    and "request_from_bytes D bs = Inr request"
  shows "fits bs \<and> request_valid D request \<and> request_to_bytes D request = Some bs"
  using assms(4) canonicalD(3)[OF assms(3)] unfolding request_from_bytes_def
  by (auto simp: parse_binds field_codec.parse_bind[OF nibbles_codec[OF assms(1,2)]] dec_finish_at request_valid_def
      request_to_bytes_def Let_def other_binds put_bytes_eq pack_nibbles_eq split: if_splits)

lemma request_complete:
  assumes "gf16_laws D" and "P_M (mp D) < usize_max"
    and "fits bs" and "request_valid D request" and "request_to_bytes D request = Some bs"
  shows "request_from_bytes D bs = Inr request"
  using assms(3-5) unfolding request_from_bytes_def decoder_new_bind
  by (auto simp: request_to_bytes_def request_valid_def Let_def put_bytes_eq pack_nibbles_eq parse_encs
      field_codec.parse_enc[OF nibbles_codec[OF assms(1,2)]] dec_finish_at decode_proof_def split: if_splits)

lemma response_sound:
  assumes "gf16_laws S" and "P_KN (mp S) < usize_max" and "response_from_bytes S bs = Inr response"
  shows "fits bs \<and> response_valid S response \<and> response_to_bytes S response = Some bs"
  using assms(3) unfolding response_from_bytes_def SALT_BYTES_def
  by (auto simp: parse_binds field_codec.parse_bind[OF nibbles_codec[OF assms(1,2)]] dec_finish_at response_valid_def
      response_to_bytes_def Let_def other_binds pack_nibbles_eq split: if_splits)

lemma response_complete:
  assumes "gf16_laws S" and "P_KN (mp S) < usize_max"
    and "fits bs" and "response_valid S response" and "response_to_bytes S response = Some bs"
  shows "response_from_bytes S bs = Inr response"
  using assms(3-5) unfolding response_from_bytes_def decoder_new_bind SALT_BYTES_def
  by (auto simp: response_to_bytes_def response_valid_def Let_def pack_nibbles_eq parse_encs
      field_codec.parse_enc[OF nibbles_codec[OF assms(1,2)]] dec_finish_at split: if_splits)

lemma presentation_sound:
  assumes "canonical_proofs D" and "presentation_from_bytes D bs = Inr pres"
  shows "fits bs \<and> presentation_valid D pres \<and> presentation_to_bytes D pres = Some bs"
  using assms(2) canonicalD(3)[OF assms(1)] unfolding presentation_from_bytes_def
  by (auto simp: parse_binds dec_finish_at presentation_valid_def presentation_to_bytes_def Let_def
      other_binds put_bytes_eq split: if_splits)

lemma presentation_complete:
  assumes "fits bs" and "presentation_valid D pres" and "presentation_to_bytes D pres = Some bs"
  shows "presentation_from_bytes D bs = Inr pres"
  using assms unfolding presentation_from_bytes_def decoder_new_bind
  by (auto simp: presentation_to_bytes_def presentation_valid_def Let_def put_bytes_eq parse_encs dec_finish_at
      decode_proof_def split: if_splits)


section \<open>Credentials\<close>

definition enc_counters :: "(counter_key, u32) btree \<Rightarrow> bytes" where
  "enc_counters m = concat (map (\<lambda>(context, next_nonce). key_bytes context @ u32_to_le next_nonce) m)"

lemma enc_counters_fold:
  "fold (\<lambda>(context, next_nonce) output. output @ key_bytes context @ u32_to_le next_nonce) m out = out @ enc_counters m"
  by (induction m arbitrary: out) (auto simp: enc_counters_def)

definition counter_ok :: "counter_key \<times> u32 \<Rightarrow> bool" where
  "counter_ok cn \<longleftrightarrow> length (key_bytes (fst cn)) = 32 \<and> snd cn \<noteq> 0"

lemma counter_ok_Pair [simp]: "counter_ok (CounterKey c, n) \<longleftrightarrow> length c = 32 \<and> n \<noteq> 0"
  by (simp add: counter_ok_def)

lemma enc_counters_simps [simp]:
  "enc_counters [] = []"
  "enc_counters ((CounterKey c, n) # m) = c @ u32_to_le n @ enc_counters m"
  by (simp_all add: enc_counters_def)

definition last_key :: "(counter_key, u32) btree \<Rightarrow> bytes option" where
  "last_key m = (if m = [] then None else Some (key_bytes (fst (last m))))"

lemma bt_ok_append:
  "bt_ok (xs @ ys) \<longleftrightarrow> bt_ok xs \<and> bt_ok ys \<and> (\<forall>k\<in>fst ` set xs. \<forall>l\<in>fst ` set ys. k < l)"
  by (auto simp: bt_ok_def sorted_wrt_append)

lemma bt_ok_snoc:
  assumes "bt_ok m"
  shows "bt_ok (m @ [(CounterKey c, n)]) \<longleftrightarrow> \<not> (case last_key m of None \<Rightarrow> False | Some prior \<Rightarrow> prior \<ge> c)"
proof (cases m rule: rev_cases)
  case Nil
  then show ?thesis by (simp add: last_key_def)
next
  case (snoc m' kv)
  with assms show ?thesis
    by (cases kv; cases "fst kv") (auto simp: bt_ok_append last_key_def intro: less_trans)
qed

lemma bt_insert_snoc: "bt_ok (m @ [(CounterKey c, n)]) \<Longrightarrow> bt_insert (CounterKey c) n m = m @ [(CounterKey c, n)]"
  by (rule bt_insert_last) (auto simp: bt_ok_append)

lemma decode_counters_sound:
  assumes "fits (pre @ r)" and "bt_ok m" and "decode_counters n (last_key m) m (dec_at pre r) = Inr (m', d)"
  shows "\<exists>ps r'. length ps = n \<and> list_all counter_ok ps \<and> m' = m @ ps \<and> bt_ok m' \<and>
    r = enc_counters ps @ r' \<and> d = dec_at (pre @ enc_counters ps) r'"
  using assms
proof (induction n arbitrary: m pre r)
  case 0
  then show ?case by auto
next
  case (Suc n)
  from Suc.prems obtain c r1 v r2 where r: "r = c @ r1" "length c = 32" "r1 = u32_to_le v @ r2"
    and guard: "\<not> (case last_key m of None \<Rightarrow> False | Some prior \<Rightarrow> prior \<ge> c)" and v: "v \<noteq> 0"
    and rest: "decode_counters n (Some c) (bt_insert (CounterKey c) v m) (dec_at (pre @ c @ u32_to_le v) r2) = Inr (m', d)"
    by (auto simp: array.parse_bind u32.parse_bind split: if_splits)
  have ok: "bt_ok (m @ [(CounterKey c, v)])" using guard Suc.prems(2) by (simp add: bt_ok_snoc)
  have "last_key (m @ [(CounterKey c, v)]) = Some c" by (simp add: last_key_def)
  with rest bt_insert_snoc[OF ok]
  have "decode_counters n (last_key (m @ [(CounterKey c, v)])) (m @ [(CounterKey c, v)]) (dec_at (pre @ c @ u32_to_le v) r2) = Inr (m', d)"
    by simp
  moreover have "fits ((pre @ c @ u32_to_le v) @ r2)" using Suc.prems(1) r by simp
  ultimately obtain ps r' where ps: "length ps = n" "list_all counter_ok ps" "m' = (m @ [(CounterKey c, v)]) @ ps" "bt_ok m'"
      "r2 = enc_counters ps @ r'" "d = dec_at ((pre @ c @ u32_to_le v) @ enc_counters ps) r'"
    using Suc.IH[OF _ ok] by blast
  show ?case
    by (rule exI[of _ "(CounterKey c, v) # ps"], rule exI[of _ r'])
       (use ps r v in simp)
qed

lemma decode_counters_complete:
  "fits (pre @ enc_counters ps @ r) \<Longrightarrow> bt_ok (m @ ps) \<Longrightarrow> list_all counter_ok ps \<Longrightarrow>
     decode_counters (length ps) (last_key m) m (dec_at pre (enc_counters ps @ r)) =
       Inr (m @ ps, dec_at (pre @ enc_counters ps) r)"
proof (induction ps arbitrary: m pre)
  case Nil
  then show ?case by simp
next
  case (Cons p ps)
  obtain c v where p: "p = (CounterKey c, v)" by (metis surj_pair counter_key.exhaust)
  have enc: "enc_counters (p # ps) = c @ u32_to_le v @ enc_counters ps" by (simp add: p)
  from Cons.prems have ok: "bt_ok (m @ [(CounterKey c, v)])" and okm: "bt_ok m" by (auto simp: p bt_ok_append)
  have last: "last_key (m @ [(CounterKey c, v)]) = Some c" by (simp add: last_key_def)
  have "fits ((pre @ c @ u32_to_le v) @ enc_counters ps @ r)" using Cons.prems(1) by (simp add: enc)
  from Cons.IH[OF this, of "m @ [(CounterKey c, v)]"] Cons.prems
  have "decode_counters (length ps) (Some c) (m @ [(CounterKey c, v)]) (dec_at (pre @ c @ u32_to_le v) (enc_counters ps @ r)) =
      Inr (m @ p # ps, dec_at (pre @ enc_counters (p # ps)) r)"
    by (simp add: p last enc)
  then show ?case
    using Cons.prems ok bt_insert_snoc[OF ok]
    by (simp add: array.parse_enc u32.parse_enc p bt_ok_snoc[OF okm])
qed

definition credential_valid ::
  "('g, 'pk, 'sk, 'sys, 'proof, 'rng, 'z) deps_scheme \<Rightarrow> ('pk, 'sys) public_key \<Rightarrow> 'g credential \<Rightarrow> bool" where
  "credential_valid D public c \<longleftrightarrow>
     verify_credential D public c = Inr () \<and>
     length (cred_issuer_context c) = 32 \<and> length (credential_digest (cred_credential_context c)) = 32 \<and>
     length (cred_signature c) = P_KN (mp D) \<and> length (cred_secret c) = 32 \<and>
     length (cred_hiding_nonce c) = 32 \<and> length (cred_salt c) = 32 \<and>
     length (cred_next_nonces c) \<le> MAX_PRESENTATION_CONTEXTS \<and>
     bt_ok (cred_next_nonces c) \<and> list_all counter_ok (cred_next_nonces c)"

lemma count_u32: "n \<le> MAX_PRESENTATION_CONTEXTS \<Longrightarrow> count_u32 n = of_nat n \<and> unat (of_nat n :: u32) = n"
  by (simp add: count_u32_def MAX_PRESENTATION_CONTEXTS_def unat_of_nat)

lemma credential_sound:
  assumes "gf16_laws D" and "P_KN (mp D) < usize_max" and "credential_from_bytes D public bs = Inr c"
  shows "fits bs \<and> credential_valid D public c \<and> credential_to_bytes D c = Some bs"
proof -
  from assms(3) obtain ic cc sig k h t n r ctrs d
    where bs: "fits bs" "bs = header [] WIRE_CREDENTIAL (P_WIRE_ID (mp D)) @ ic @ cc @ nibble_pairs D sig @ k @ h @ t @
        u32_to_le n @ r"
    and lens: "length ic = 32" "length cc = 32" "length sig = P_KN (mp D)" "length k = 32" "length h = 32" "length t = 32"
    and n: "unat n \<le> MAX_PRESENTATION_CONTEXTS"
    and ctrs: "decode_counters (unat n) None [] (dec_at (header [] WIRE_CREDENTIAL (P_WIRE_ID (mp D)) @ ic @ cc @
        nibble_pairs D sig @ k @ h @ t @ u32_to_le n) r) = Inr (ctrs, d)"
    and fin: "dec_finish d = Inr ()" and ctx: "ic = pub_context public"
    and c: "c = \<lparr>cred_issuer_context = ic, cred_credential_context = CredentialContext cc, cred_signature = sig,
       cred_secret = k, cred_hiding_nonce = h, cred_salt = t, cred_next_nonces = ctrs\<rparr>"
    and auth: "verify_credential D public c = Inr ()"
    unfolding credential_from_bytes_def SALT_BYTES_def
    by (auto simp: parse_binds field_codec.parse_bind[OF nibbles_codec[OF assms(1,2)]] not_less Let_def
        rbind_eq_Inr[of "decode_counters a b c d" for a b c d] rbind_eq_Inr[of "dec_finish d" for d]
        rbind_eq_Inr[of "map_err g x" for g x] split: if_splits)
  let ?pre = "header [] WIRE_CREDENTIAL (P_WIRE_ID (mp D)) @ ic @ cc @ nibble_pairs D sig @ k @ h @ t @ u32_to_le n"
  have fits: "fits (?pre @ r)" using bs by simp
  have "decode_counters (unat n) (last_key []) [] (dec_at ?pre r) = Inr (ctrs, d)"
    using ctrs by (simp add: last_key_def)
  from decode_counters_sound[OF fits _ this] obtain r' where ctr: "length ctrs = unat n" "list_all counter_ok ctrs" "bt_ok ctrs"
      "r = enc_counters ctrs @ r'" "d = dec_at (?pre @ enc_counters ctrs) r'"
    by auto
  with fin have r: "r = enc_counters ctrs" by (simp add: dec_finish_at split: if_splits)
  have "count_u32 (length ctrs) = n" using count_u32[OF n] by (simp add: ctr)
  then have "credential_to_bytes D c = Some bs"
    by (simp add: credential_to_bytes_def c Let_def pack_nibbles_eq enc_counters_fold bs(2) r)
  moreover have "credential_valid D public c"
    using auth lens n ctr by (simp add: credential_valid_def c)
  ultimately show ?thesis using bs by simp
qed

lemma credential_complete:
  assumes "gf16_laws D" and "P_KN (mp D) < usize_max"
    and fits: "fits bs" and valid: "credential_valid D public c" and enc: "credential_to_bytes D c = Some bs"
  shows "credential_from_bytes D public bs = Inr c"
proof -
  obtain ic cctx sig k h t m where c: "c = \<lparr>cred_issuer_context = ic, cred_credential_context = cctx,
      cred_signature = sig, cred_secret = k, cred_hiding_nonce = h, cred_salt = t, cred_next_nonces = m\<rparr>"
    by (cases c)
  obtain cc where cctx: "cctx = CredentialContext cc"
    by (cases cctx)
  have ctx: "cred_issuer_context c = pub_context public" and auth: "verify_credential D public c = Inr ()"
    using valid by (auto simp: credential_valid_def verify_credential_def split: if_splits)
  let ?n = "count_u32 (length m)"
  let ?pre = "header [] WIRE_CREDENTIAL (P_WIRE_ID (mp D)) @ ic @ cc @ nibble_pairs D sig @ k @ h @ t @ u32_to_le ?n"
  have bs: "bs = ?pre @ enc_counters m"
    using enc by (simp add: c cctx credential_to_bytes_def Let_def pack_nibbles_eq enc_counters_fold)
  have n: "unat ?n = length m"
    using valid count_u32[of "length m"] by (simp add: credential_valid_def c)
  have ctrs: "decode_counters (length m) None [] (dec_at ?pre (enc_counters m)) = Inr (m, dec_at bs [])"
    using decode_counters_complete[of ?pre m "[]" "[]"] valid fits
    by (simp add: bs last_key_def credential_valid_def c)
  show ?thesis
    unfolding credential_from_bytes_def decoder_new_bind SALT_BYTES_def
    using fits valid ctrs n ctx auth
    by (simp add: bs c cctx credential_valid_def parse_encs dec_finish_at Let_def
          field_codec.parse_enc[OF nibbles_codec[OF assms(1,2)]])
qed

section \<open>The contract\<close>

interpretation pending: artifact_codec
  "\<lambda>p. Some (pending_to_bytes S p)" "pending_from_bytes S public" "pending_valid S public" for S public
proof unfold_locales
  fix bs p
  show "pending_from_bytes S public bs = Inr p \<longleftrightarrow>
      fits bs \<and> pending_valid S public p \<and> Some (pending_to_bytes S p) = Some bs"
    using pending_sound[of S public bs p] pending_complete[of S p public] by auto
qed

lemma key_codecs:
  assumes "canonical_keys D"
  shows "artifact_codec (public_key_to_bytes D) (public_key_from_bytes D) (public_valid D)"
    and "artifact_codec (issuer_key_bytes D) (issuer_from_key_bytes D) (issuer_valid D)"
  by (unfold_locales; metis assms public_key_sound public_key_complete issuer_key_sound issuer_key_complete)+

lemma request_codec:
  assumes "gf16_laws D" and "P_M (mp D) < usize_max" and "canonical_proofs D"
  shows "artifact_codec (request_to_bytes D) (request_from_bytes D) (request_valid D)"
  by unfold_locales (metis assms request_sound request_complete)

lemma response_codec:
  assumes "gf16_laws S" and "P_KN (mp S) < usize_max"
  shows "artifact_codec (response_to_bytes S) (response_from_bytes S) (response_valid S)"
  by unfold_locales (metis assms response_sound response_complete)

lemma presentation_codec:
  assumes "canonical_proofs D"
  shows "artifact_codec (presentation_to_bytes D) (presentation_from_bytes D) (presentation_valid D)"
  by unfold_locales (metis assms presentation_sound presentation_complete)

lemma credential_codec:
  assumes "gf16_laws D" and "P_KN (mp D) < usize_max"
  shows "artifact_codec (credential_to_bytes D) (credential_from_bytes D public) (credential_valid D public)"
  by unfold_locales (metis assms credential_sound credential_complete)

section \<open>Concrete artifacts\<close>

definition demo_public :: "(unit, unit) public_key" where
  "demo_public = public_of demo_deps [1, 2] Balanced ()"

definition demo_issuer :: "(unit, unit, unit) issuer" where
  "demo_issuer = \<lparr>iss_secret = (), iss_public = demo_public\<rparr>"

text \<open>A credential of this issuer with the given counters: the signature is the target, padded.\<close>

definition demo_target :: "4 word list" where
  "demo_target = signed_credential_target demo_deps
     (credential_target demo_deps (credential_scope shake256 (pub_context demo_public) (replicate 32 2))
        (replicate 32 3) (replicate 32 4)) (replicate 32 5)"

definition demo_credential :: "(counter_key, u32) btree \<Rightarrow> 4 word credential" where
  "demo_credential counters = \<lparr>cred_issuer_context = pub_context demo_public,
     cred_credential_context = CredentialContext (replicate 32 2), cred_signature = demo_target @ replicate 8 0,
     cred_secret = replicate 32 3, cred_hiding_nonce = replicate 32 4, cred_salt = replicate 32 5,
     cred_next_nonces = counters\<rparr>"

lemma replicate_less: "x < y \<Longrightarrow> replicate (Suc n) x < replicate (Suc n) (y :: byte)"
  by simp

lemma length_demo_target [simp]: "length demo_target = 4"
  by (simp add: demo_target_def signed_credential_target_def output_nibbles_def demo_params_def)

lemma length_demo_context [simp]: "length (pub_context demo_public) = 32"
  by (simp add: demo_public_def public_of_def mayo_system_and_hash_def derive_issuer_context_def
      issuer_context_message_def public_key_message_def demo_params_def Let_def enc_len length_shake256_short)

lemma demo_credential_valid:
  "length counters \<le> MAX_PRESENTATION_CONTEXTS \<Longrightarrow> bt_ok counters \<Longrightarrow> list_all counter_ok counters \<Longrightarrow>
     credential_valid demo_deps demo_public (demo_credential counters)"
  by (simp add: credential_valid_def demo_credential_def verify_credential_def gf16_slices_equal_def
      demo_target_def[symmetric] demo_params_def)

section \<open>Properties\<close>

text \<open>Public keys. The decoder returns a key exactly when the bytes are of legal size and are what
  the encoder writes for it, the application context is within its limit, the trapdoor key decodes in
  its own crate, and every derived field (compact system, issuer context) is recomputed from those.\<close>

theorem public_key_wire:
  assumes "canonical_keys D"
  shows "public_key_from_bytes D bs = Inr public \<longleftrightarrow>
    fits bs \<and> public_valid D public \<and> public_key_to_bytes D public = Some bs"
  by (rule artifact_codec.decode_iff[OF key_codecs(1)[OF assms]])

theorem public_key_wire_witness:
  "\<exists>bs. public_key_to_bytes demo_deps demo_public = Some bs \<and>
     public_key_from_bytes demo_deps bs = Inr demo_public"
  unfolding public_key_wire[OF demo_canonical(1)]
  by (simp add: demo_public_def public_valid_def public_key_to_bytes_def put_bytes_eq framed_def
      fits_def MAX_WIRE_BYTES_def MAX_APPLICATION_CONTEXT_BYTES_def)

text \<open>C36: issuer keys. The same for the secret key: the public part is rebuilt from the secret.\<close>

theorem issuer_key_wire:
  assumes "canonical_keys D"
  shows "issuer_from_key_bytes D bs = Inr issuer \<longleftrightarrow>
    fits bs \<and> issuer_valid D issuer \<and> issuer_key_bytes D issuer = Some bs"
  by (rule artifact_codec.decode_iff[OF key_codecs(2)[OF assms]])

theorem issuer_key_wire_witness:
  "\<exists>bs. issuer_key_bytes demo_deps demo_issuer = Some bs \<and>
     issuer_from_key_bytes demo_deps bs = Inr demo_issuer"
  unfolding issuer_key_wire[OF demo_canonical(1)]
  by (simp add: demo_issuer_def demo_public_def issuer_valid_def issuer_key_bytes_def put_bytes_eq framed_def
      fits_def MAX_WIRE_BYTES_def MAX_APPLICATION_CONTEXT_BYTES_def)

text \<open>C35: pending requests. The decoder restores a pending request exactly from its own encoding, for the
  issuer it was prepared for, and recomputes the commitment from the secrets.\<close>

theorem pending_wire:
  "pending_from_bytes S public bs = Inr p \<longleftrightarrow>
    fits bs \<and> pending_valid S public p \<and> pending_to_bytes S p = bs"
  using pending.decode_iff[of S public bs p] by simp

text \<open>Issuance requests. A request decodes exactly from its own encoding; its commitment has the
  length of the parameter set, and its proof decodes in its own crate.\<close>

theorem request_wire:
  assumes "gf16_laws D" and "P_M (mp D) < usize_max" and "canonical_proofs D"
  shows "request_from_bytes D bs = Inr request \<longleftrightarrow>
    fits bs \<and> request_valid D request \<and> request_to_bytes D request = Some bs"
  by (rule artifact_codec.decode_iff[OF request_codec[OF assms]])

theorem request_wire_witness:
  "\<exists>bs. request_to_bytes demo_deps \<lparr>req_commitment = [1, 2, 3, 4], req_proof = [True, False]\<rparr> = Some bs \<and>
     request_from_bytes demo_deps bs = Inr \<lparr>req_commitment = [1, 2, 3, 4], req_proof = [True, False]\<rparr>"
proof -
  have "P_M (mp demo_deps) < usize_max" by (simp add: demo_params_def usize_max_def)
  from request_wire[OF demo_laws_deps(1) this demo_canonical(2)] show ?thesis
    by (simp add: request_valid_def request_to_bytes_def pack_nibbles_eq put_bytes_eq framed_def
      fits_def MAX_WIRE_BYTES_def demo_params_def)
qed

text \<open>Issuance responses. A response decodes exactly from its own encoding: a signature of the length
  of the parameter set and a 32-byte salt.\<close>

theorem response_wire:
  assumes "gf16_laws S" and "P_KN (mp S) < usize_max"
  shows "response_from_bytes S bs = Inr response \<longleftrightarrow>
    fits bs \<and> response_valid S response \<and> response_to_bytes S response = Some bs"
  by (rule artifact_codec.decode_iff[OF response_codec[OF assms]])

theorem response_wire_witness:
  "\<exists>bs. response_to_bytes demo_suite \<lparr>resp_signature = replicate 12 5, resp_salt = replicate 32 6\<rparr> = Some bs \<and>
     response_from_bytes demo_suite bs = Inr \<lparr>resp_signature = replicate 12 5, resp_salt = replicate 32 6\<rparr>"
proof -
  have "P_KN (mp demo_suite) < usize_max" by (simp add: demo_params_def usize_max_def)
  from response_wire[OF demo_laws this] show ?thesis
    by (simp add: response_valid_def response_to_bytes_def pack_nibbles_eq
      fits_def MAX_WIRE_BYTES_def demo_params_def)
qed

text \<open>C34: presentations. A presentation decodes exactly from its own encoding: a 32-byte tag and a proof
  that decodes in its own crate.\<close>

theorem presentation_wire:
  assumes "canonical_proofs D"
  shows "presentation_from_bytes D bs = Inr pres \<longleftrightarrow>
    fits bs \<and> presentation_valid D pres \<and> presentation_to_bytes D pres = Some bs"
  by (rule artifact_codec.decode_iff[OF presentation_codec[OF assms]])

theorem presentation_wire_witness:
  "\<exists>bs. presentation_to_bytes demo_deps \<lparr>pres_tag = replicate 32 9, pres_proof = [True, False]\<rparr> = Some bs \<and>
     presentation_from_bytes demo_deps bs = Inr \<lparr>pres_tag = replicate 32 9, pres_proof = [True, False]\<rparr>"
  unfolding presentation_wire[OF demo_canonical(2)]
  by (simp add: presentation_valid_def presentation_to_bytes_def put_bytes_eq framed_def
      fits_def MAX_WIRE_BYTES_def)

text \<open>C25: credentials. A credential decodes exactly from its own encoding, and only when it is authentic
  under the given public key (the issuer's function maps its signature to the salted commitment of its
  secret), it holds at most 4096 counters, none of them zero, in strictly ascending order of context.\<close>

theorem credential_wire:
  assumes "gf16_laws D" and "P_KN (mp D) < usize_max"
  shows "credential_from_bytes D public bs = Inr c \<longleftrightarrow>
    fits bs \<and> credential_valid D public c \<and> credential_to_bytes D c = Some bs"
  by (rule artifact_codec.decode_iff[OF credential_codec[OF assms]])

theorem credential_wire_witness:
  "\<exists>bs. credential_to_bytes demo_deps (demo_credential [(CounterKey (replicate 32 7), 3), (CounterKey (replicate 32 8), 1)]) = Some bs \<and>
     credential_from_bytes demo_deps demo_public bs =
       Inr (demo_credential [(CounterKey (replicate 32 7), 3), (CounterKey (replicate 32 8), 1)])"
proof -
  let ?c = "demo_credential [(CounterKey (replicate 32 7), 3), (CounterKey (replicate 32 8), 1)]"
  have "P_KN (mp demo_deps) < usize_max" by (simp add: demo_params_def usize_max_def)
  note wire = credential_wire[OF demo_laws_deps(1) this]
  have "credential_valid demo_deps demo_public ?c"
    by (rule demo_credential_valid) (use replicate_less[of 7 8 31] in \<open>simp_all add: MAX_PRESENTATION_CONTEXTS_def\<close>)
  moreover obtain bs where "credential_to_bytes demo_deps ?c = Some bs" and "fits bs"
    by (simp add: credential_to_bytes_def pack_nibbles_eq demo_credential_def fits_def MAX_WIRE_BYTES_def)
  ultimately show ?thesis
    unfolding wire by blast
qed

section \<open>One artifact per encoding\<close>

text \<open>The artifact identifier \<open>i\<close> under which some decoder accepts the bytes.\<close>

definition decodes_as ::
  "('g, 'pk, 'sk, 'sys, 'proof, 'rng, 'z) deps_scheme \<Rightarrow> ('pk, 'sys) public_key \<Rightarrow> byte \<Rightarrow> bytes \<Rightarrow> bool" where
  "decodes_as D public i bs \<longleftrightarrow>
     i = WIRE_PUBLIC_KEY \<and> \<not> isl (public_key_from_bytes D bs) \<or>
     i = WIRE_ISSUER_KEY \<and> \<not> isl (issuer_from_key_bytes D bs) \<or>
     i = WIRE_ISSUE_REQUEST \<and> \<not> isl (request_from_bytes D bs) \<or>
     i = WIRE_ISSUE_RESPONSE \<and> \<not> isl (response_from_bytes D bs) \<or>
     i = WIRE_PENDING_ISSUE \<and> \<not> isl (pending_from_bytes D public bs) \<or>
     i = WIRE_CREDENTIAL \<and> \<not> isl (credential_from_bytes D public bs) \<or>
     i = WIRE_PRESENTATION \<and> \<not> isl (presentation_from_bytes D bs)"

lemma not_isl_bind_decoder:
  "\<not> isl (rbind (decoder_new bs a p) f) \<Longrightarrow> \<exists>r. bs = header [] a p @ r"
  by (cases "rbind (decoder_new bs a p) f") (auto simp: decoder_new_bind)

lemma decodes_as_header: "decodes_as D public i bs \<Longrightarrow> \<exists>r. bs = header [] i (P_WIRE_ID (mp D)) @ r"
  unfolding decodes_as_def public_key_from_bytes_def issuer_from_key_bytes_def request_from_bytes_def
    response_from_bytes_def pending_from_bytes_def credential_from_bytes_def presentation_from_bytes_def
  by (elim disjE conjE; drule not_isl_bind_decoder; blast)

lemma header_inject: "header [] a p @ r = header [] a' p' @ r' \<longleftrightarrow> a = a' \<and> p = p' \<and> r = r'"
  by (auto simp: header_def)

lemma demo_decodes:
  obtains bs where "decodes_as demo_deps demo_public WIRE_PUBLIC_KEY bs"
proof -
  obtain bs where "public_key_to_bytes demo_deps demo_public = Some bs"
    and valid: "fits bs" "public_valid demo_deps demo_public"
    by (simp add: demo_public_def public_valid_def public_key_to_bytes_def put_bytes_eq framed_def
        fits_def MAX_WIRE_BYTES_def MAX_APPLICATION_CONTEXT_BYTES_def)
  then have "public_key_from_bytes demo_deps bs = Inr demo_public"
    using public_key_complete[of bs demo_deps demo_public] by simp
  then show thesis
    by (intro that[of bs]) (simp add: decodes_as_def)
qed

text \<open>No bytes are two artifacts. Whatever parameter sets, dependencies and public keys two decoders are
  called with, bytes that both accept are the same kind of artifact of the same parameter set.\<close>

theorem artifacts_disjoint:
  assumes "decodes_as D public i bs" and "decodes_as D' public' j bs"
  shows "i = j \<and> P_WIRE_ID (mp D) = P_WIRE_ID (mp D')"
  using decodes_as_header[OF assms(1)] decodes_as_header[OF assms(2)] by (auto simp: header_inject)

theorem artifacts_disjoint_witness:
  "\<exists>bs. decodes_as demo_deps demo_public WIRE_PUBLIC_KEY bs \<and>
     (\<forall>i. decodes_as demo_deps demo_public i bs \<longleftrightarrow> i = WIRE_PUBLIC_KEY)"
proof -
  obtain bs where here: "decodes_as demo_deps demo_public WIRE_PUBLIC_KEY bs" by (rule demo_decodes)
  show ?thesis
    using here artifacts_disjoint[OF _ here] by blast
qed

text \<open>The two packers agree. The packing loop of \<open>wire.rs\<close>, which writes elements one by one and can
  in principle panic, never does, and returns what \<open>pack_gf16\<close> of \<open>circuit.rs\<close> computes pair by pair; so
  the bytes of a commitment that are hashed and the bytes that are sent are the same.\<close>

lemma packers_agree: "pack_nibbles G vs = Some (pack_gf16 G vs)"
proof -
  have "nibble_pairs G vs = pack_gf16 G vs"
    by (induction G vs rule: pack_gf16.induct) simp_all
  then show ?thesis by (simp add: pack_nibbles_eq)
qed


end
