(* ===== verification/Client.thy ===== *)
theory Client
  imports Artifacts
begin

text \<open>
  The client's side of \<open>src/src/protocol.rs\<close>: \<open>present\<close> in the normal form \<open>present_eq\<close> (guards, then
  the witness, then the proof), the invariant \<open>credential_valid\<close> of a credential, and runs in which a
  client presents, writes the credential out and reads it back. Abstractly a credential is a budget:
  \<open>spent c p\<close> is how often it was shown in the context \<open>p\<close>, and the one thing a presentation does is
  to raise that number by one, as long as it is below the limit.
\<close>

section \<open>Preparation\<close>

text \<open>The nonce a presentation would use is \<open>next_nonce\<close>.\<close>

lemma next_nonce_case:
  "(case bt_get (cred_next_nonces c) (CounterKey (presentation_digest pctx)) of None \<Rightarrow> 0 | Some n \<Rightarrow> n) = next_nonce c pctx"
  by (simp add: next_nonce_def)

definition present_circuit ::
  "('g, 'pk, 'sk, 'sys, 'proof, 'rng, 'z) deps_scheme \<Rightarrow> ('pk, 'sys) public_key \<Rightarrow> presentation_challenge \<Rightarrow>
     bytes \<Rightarrow> 'sys presentation_circuit" where
  "present_circuit D public ch tag = \<lparr>pc_mayo_system = pub_mayo_system public,
     pc_credential_scope = credential_scope (sha3 D) (pub_context public)
       (credential_digest (ch_credential_context ch)),
     pc_presentation_scope = presentation_scope (sha3 D) (pub_context public)
       (credential_digest (ch_credential_context ch)) (presentation_digest (ch_presentation_context ch)),
     pc_presentation_limit = ch_limit ch, pc_tag = tag\<rparr>"

definition present_secrets :: "'g credential \<Rightarrow> u32 \<Rightarrow> 'g presentation_secrets" where
  "present_secrets c nonce = \<lparr>ps_signature = cred_signature c, ps_secret = cred_secret c,
     ps_hiding_nonce = cred_hiding_nonce c, ps_salt = cred_salt c, ps_presentation_nonce = nonce\<rparr>"

definition present_tag ::
  "('g, 'pk, 'sk, 'sys, 'proof, 'rng, 'z) deps_scheme \<Rightarrow> 'g credential \<Rightarrow> presentation_challenge \<Rightarrow> bytes" where
  "present_tag D c ch = derive_tag (cred_secret c)
     (presentation_scope (sha3 D) (cred_issuer_context c) (credential_digest (cred_credential_context c))
        (presentation_digest (ch_presentation_context ch)))
     (next_nonce c (ch_presentation_context ch))"

text \<open>The guards of \<open>present\<close>, in order; \<open>None\<close> when all are passed.\<close>

definition present_guard ::
  "('pk, 'sys) public_key \<Rightarrow> presentation_challenge \<Rightarrow> 'g credential \<Rightarrow> error option" where
  "present_guard public ch c =
     (if cred_issuer_context c \<noteq> pub_context public then Some WrongIssuer
      else if cred_credential_context c \<noteq> ch_credential_context ch then Some WrongCredentialContext
      else if ch_limit ch = 0 then Some InvalidPresentationLimit
      else if bt_get (cred_next_nonces c) (CounterKey (presentation_digest (ch_presentation_context ch))) = None \<and>
              context_count c \<ge> MAX_PRESENTATION_CONTEXTS then Some TooManyPresentationContexts
      else if next_nonce c (ch_presentation_context ch) \<ge> ch_limit ch then Some RateLimitReached
      else None)"

definition spend :: "presentation_context \<Rightarrow> 'g credential \<Rightarrow> 'g credential" where
  "spend pctx c = c\<lparr>cred_next_nonces :=
     bt_insert (CounterKey (presentation_digest pctx)) (next_nonce c pctx + 1) (cred_next_nonces c)\<rparr>"

lemma present_eq:
  "present D public ch c r =
     (case present_guard public ch c of
        Some e \<Rightarrow> Some (Inl e, c, r)
      | None \<Rightarrow>
          (case presentation_witness D (present_circuit D public ch (present_tag D c ch))
                  (present_secrets c (next_nonce c (ch_presentation_context ch))) of
             None \<Rightarrow> None
           | Some ws \<Rightarrow>
               (case vole_prove D (profile_params (vole D) (pub_profile public))
                       (presentation_statement D (pub_context public) ch (present_tag D c ch))
                       (Presenting (present_circuit D public ch (present_tag D c ch))) ws r of
                  (Inl e, r') \<Rightarrow> Some (Inl InvalidProof, c, r')
                | (Inr p, r') \<Rightarrow> Some (Inr \<lparr>pres_tag = present_tag D c ch, pres_proof = p\<rparr>,
                     spend (ch_presentation_context ch) c, r'))))"
  by (auto simp: present_def present_guard_def next_nonce_case bt_contains_key_def context_count_def
      present_circuit_def present_secrets_def present_tag_def spend_def Let_def proof_error_def
      split: option.splits prod.splits sum.splits)

section \<open>One presentation\<close>

lemma present_guard_None:
  "present_guard public ch c = None \<longleftrightarrow>
     cred_issuer_context c = pub_context public \<and> cred_credential_context c = ch_credential_context ch \<and>
     next_nonce c (ch_presentation_context ch) < ch_limit ch \<and>
     (bt_get (cred_next_nonces c) (CounterKey (presentation_digest (ch_presentation_context ch))) \<noteq> None \<or>
      context_count c < MAX_PRESENTATION_CONTEXTS)"
  by (auto simp: present_guard_def not_le word_neq_0_conv dest: leD)

lemma present_Inl: "present D public ch c r = Some (Inl e, c', r') \<Longrightarrow> c' = c"
  by (auto simp: present_eq split: option.splits prod.splits sum.splits)

lemma present_Inr:
  assumes "present D public ch c r = Some (Inr pres, c', r')"
  shows "present_guard public ch c = None" and "c' = spend (ch_presentation_context ch) c"
    and "pres_tag pres = present_tag D c ch"
  using assms by (auto simp: present_eq split: option.splits prod.splits sum.splits)

lemma next_nonce_spend:
  assumes "bt_ok (cred_next_nonces c)"
  shows "next_nonce (spend p c) q = (if q = p then next_nonce c p + 1 else next_nonce c q)"
  using bt.get_ins[OF assms] by (cases p; cases q) (auto simp: next_nonce_def[of "spend p c"] spend_def next_nonce_def)

lemma spend_fields [simp]:
  "cred_issuer_context (spend p c) = cred_issuer_context c"
  "cred_credential_context (spend p c) = cred_credential_context c"
  "cred_signature (spend p c) = cred_signature c" "cred_secret (spend p c) = cred_secret c"
  "cred_hiding_nonce (spend p c) = cred_hiding_nonce c" "cred_salt (spend p c) = cred_salt c"
  "cred_next_nonces (spend p c) =
     bt_insert (CounterKey (presentation_digest p)) (next_nonce c p + 1) (cred_next_nonces c)"
  by (simp_all add: spend_def)

text \<open>Incrementing a counter below a limit does not wrap.\<close>

lemma unat_Suc_below: "(n :: u32) < l \<Longrightarrow> unat (n + 1) = Suc (unat n)"
  using unsigned_less[of l, where 'a = nat] by (simp add: unat_word_ariths word_less_nat_alt)

lemma Suc_below_neq_0: "(n :: u32) < l \<Longrightarrow> n + 1 \<noteq> 0"
  using unat_Suc_below[of n l] by force

section \<open>The credential invariant\<close>

lemma list_all_bt_insert: "list_all P m \<Longrightarrow> P (k, v) \<Longrightarrow> list_all P (bt_insert k v m)"
  by (induction k v m rule: bt_insert.induct) auto

lemma verify_credential_spend: "verify_credential D public (spend p c) = verify_credential D public c"
  by (simp add: verify_credential_def)

lemma spend_valid:
  assumes valid: "credential_valid D public c" and guard: "present_guard public ch c = None"
    and len: "length (presentation_digest (ch_presentation_context ch)) = 32"
  shows "credential_valid D public (spend (ch_presentation_context ch) c)"
proof -
  have ok: "bt_ok (cred_next_nonces c)" using valid by (simp add: credential_valid_def)
  have "length (cred_next_nonces (spend (ch_presentation_context ch) c)) \<le> MAX_PRESENTATION_CONTEXTS"
    using bt.size_ins_bound[OF ok, of MAX_PRESENTATION_CONTEXTS] valid guard
    by (auto simp: credential_valid_def present_guard_None context_count_def)
  then show ?thesis
    using valid guard bt.inv_ins[OF ok] len
    by (auto simp: credential_valid_def verify_credential_spend present_guard_None
        intro!: list_all_bt_insert Suc_below_neq_0)
qed

lemma present_valid:
  assumes "present D public ch c r = Some (res, c', r')" and "credential_valid D public c"
    and "length (presentation_digest (ch_presentation_context ch)) = 32"
  shows "credential_valid D public c'"
proof (cases res)
  case (Inl e)
  with assms show ?thesis using present_Inl[of D public ch c r e c' r'] by simp
next
  case (Inr pres)
  with assms show ?thesis using present_Inr[of D public ch c r pres c' r'] spend_valid by simp
qed

section \<open>Runs of a client\<close>

text \<open>
  A client presents a credential again and again, to any challenges and with any states of the
  generator in between, and it may write the credential out and read it back at any time. The events
  of a run are the challenges it answered and what \<open>present\<close> returned.
\<close>

inductive client_run ::
  "('g, 'pk, 'sk, 'sys, 'proof, 'rng, 'z) deps_scheme \<Rightarrow> ('pk, 'sys) public_key \<Rightarrow> 'g credential \<Rightarrow>
     (presentation_challenge \<times> (error + 'proof presentation)) list \<Rightarrow> 'g credential \<Rightarrow> bool"
  for D :: "('g, 'pk, 'sk, 'sys, 'proof, 'rng, 'z) deps_scheme" and public :: "('pk, 'sys) public_key" where
  rest: "client_run D public c [] c"
| answer: "present D public ch c r = Some (res, c', r') \<Longrightarrow>
     length (presentation_digest (ch_presentation_context ch)) = 32 \<Longrightarrow>
     client_run D public c' evs c'' \<Longrightarrow> client_run D public c ((ch, res) # evs) c''"
| reload: "credential_to_bytes D c = Some bs \<Longrightarrow> credential_from_bytes D public bs = Inr c' \<Longrightarrow>
     client_run D public c' evs c'' \<Longrightarrow> client_run D public c evs c''"

text \<open>How much of a context's budget is spent, and the tags a run showed in a context.\<close>

definition spent :: "'g credential \<Rightarrow> presentation_context \<Rightarrow> nat" where
  "spent c p = unat (next_nonce c p)"

fun shown :: "presentation_context \<Rightarrow> (presentation_challenge \<times> (error + 'proof presentation)) list \<Rightarrow> bytes list" where
  "shown p [] = []"
| "shown p ((ch, Inl e) # evs) = shown p evs"
| "shown p ((ch, Inr pres) # evs) =
     (if ch_presentation_context ch = p then pres_tag pres # shown p evs else shown p evs)"

definition nth_tag ::
  "('g, 'pk, 'sk, 'sys, 'proof, 'rng, 'z) deps_scheme \<Rightarrow> 'g credential \<Rightarrow> presentation_context \<Rightarrow> nat \<Rightarrow> bytes" where
  "nth_tag D c p n = derive_tag (cred_secret c)
     (presentation_scope (sha3 D) (cred_issuer_context c) (credential_digest (cred_credential_context c))
        (presentation_digest p)) (of_nat n)"

text \<open>The fields that never change, and what of the credential decides its tags.\<close>

definition same_credential :: "'g credential \<Rightarrow> 'g credential \<Rightarrow> bool" where
  "same_credential c c' \<longleftrightarrow> c' = c\<lparr>cred_next_nonces := cred_next_nonces c'\<rparr>"

lemma same_credential_refl [simp]: "same_credential c c"
  by (simp add: same_credential_def)

lemma same_credential_trans: "same_credential a b \<Longrightarrow> same_credential b c \<Longrightarrow> same_credential a c"
  by (cases a; cases b; cases c) (simp add: same_credential_def)

lemma same_credential_spend [simp]: "same_credential c (spend p c)"
  by (simp add: same_credential_def spend_def)

lemma nth_tag_spend [simp]: "nth_tag D (spend p c) = nth_tag D c"
  by (simp add: nth_tag_def fun_eq_iff)

lemma present_tag_nth: "present_tag D c ch = nth_tag D c (ch_presentation_context ch) (spent c (ch_presentation_context ch))"
  by (simp add: present_tag_def nth_tag_def spent_def)

lemma spent_spend:
  assumes "credential_valid D public c" and "present_guard public ch c = None"
  shows "spent (spend (ch_presentation_context ch) c) p =
    (if p = ch_presentation_context ch then Suc (spent c p) else spent c p)"
  using assms unat_Suc_below[of "next_nonce c (ch_presentation_context ch)" "ch_limit ch"]
  by (simp add: spent_def next_nonce_spend credential_valid_def present_guard_None)

lemma reload_same:
  assumes laws: "gf16_laws D" "P_KN (mp D) < usize_max" and valid: "credential_valid D public c"
    and "credential_to_bytes D c = Some bs" and "credential_from_bytes D public bs = Inr c'"
  shows "c' = c"
  using artifact_codec.injective[OF credential_codec[OF laws, of public] _ valid _ assms(4), of c']
    credential_sound[OF laws assms(5)] by simp

text \<open>The run lemma: the credential stays valid and itself, and the tags shown in each context are the
  ones of the consecutive counters from what was spent before to what is spent after.\<close>

lemma client_run_tags:
  assumes "client_run D public c evs c'" and "gf16_laws D" and "P_KN (mp D) < usize_max"
    and "credential_valid D public c"
  shows "credential_valid D public c' \<and> same_credential c c' \<and> spent c p \<le> spent c' p \<and>
    shown p evs = map (nth_tag D c p) [spent c p..<spent c' p]"
  using assms
proof (induction rule: client_run.induct)
  case (rest c)
  then show ?case by simp
next
  case (answer ch c r res c1 r' evs c2)
  note valid = present_valid[OF answer.hyps(1) answer.prems(3) answer.hyps(2)]
  note ih = answer.IH[OF answer.prems(1,2) valid]
  show ?case
  proof (cases res)
    case (Inl e)
    with answer.hyps(1) have "c1 = c" using present_Inl[of D public ch c r e c1 r'] by simp
    with ih Inl show ?thesis by simp
  next
    case (Inr pres)
    note step = present_Inr[OF answer.hyps(1)[unfolded Inr]]
    note sp = spent_spend[OF answer.prems(3) step(1), of p]
    have same: "same_credential c c1" by (simp add: step(2))
    show ?thesis
      using ih same_credential_trans[OF same, of c2] sp
      by (auto simp: Inr step(2,3) present_tag_nth upt_conv_Cons)
  qed
next
  case (reload c bs c1 evs c2)
  then have "c1 = c" using reload_same by blast
  with reload show ?case by simp
qed

lemma client_run_bound:
  assumes "client_run D public c evs c'" and "gf16_laws D" and "P_KN (mp D) < usize_max"
    and "credential_valid D public c"
    and "\<forall>(ch, res)\<in>set evs. ch_presentation_context ch = p \<longrightarrow> unat (ch_limit ch) \<le> L"
  shows "spent c' p \<le> max (spent c p) L"
  using assms
proof (induction rule: client_run.induct)
  case (rest c)
  then show ?case by simp
next
  case (answer ch c r res c1 r' evs c2)
  note ih = answer.IH[OF answer.prems(1,2) present_valid[OF answer.hyps(1) answer.prems(3) answer.hyps(2)]]
  have "spent c1 p \<le> max (spent c p) L"
  proof (cases res)
    case (Inl e)
    with answer.hyps(1) show ?thesis using present_Inl[of D public ch c r e c1 r'] by simp
  next
    case (Inr pres)
    note step = present_Inr[OF answer.hyps(1)[unfolded Inr]]
    have "ch_presentation_context ch = p \<Longrightarrow> Suc (spent c p) \<le> L"
      using step(1) answer.prems(4) by (auto simp: present_guard_None spent_def word_less_nat_alt)
    then show ?thesis
      using spent_spend[OF answer.prems(3) step(1), of p] by (auto simp: step(2))
  qed
  with ih answer.prems(4) show ?case by auto
next
  case (reload c bs c1 evs c2)
  then have "c1 = c" using reload_same by blast
  with reload show ?case by simp
qed

end
