(* ===== verification/Flows.thy ===== *)
theory Flows
  imports Client
begin

text \<open>
  The flows of the protocol end to end, under the laws of theory Laws: what a proof accepted by the
  issuer or by a verifier shows (through the relations of the circuits), and that honest issuance and
  honest presentation succeed. The properties of the client are stated here too, since their concrete
  instances need a presentation that succeeds.
\<close>

section \<open>The setting\<close>

text \<open>What issuance and presentation rely on, apart from the proof system: the laws of the other crates
  and a parameter set whose salted commitment fits one block.\<close>

definition one_block :: "('g, 'z) suite_scheme \<Rightarrow> bool" where
  "one_block S \<longleftrightarrow> length SIGNED_CREDENTIAL_DOMAIN + div_ceil (P_M (mp S)) 2 + SALT_BYTES < RATE_BYTES"

definition setting ::
  "('g, 'pk, 'sk, 'sys, 'proof, 'rng, 'z) deps_scheme \<Rightarrow> ('g \<Rightarrow> 'f::comm_ring_1) \<Rightarrow>
     ('f list \<Rightarrow> 'sys \<Rightarrow> 'f list \<Rightarrow> bool) \<Rightarrow> bool" where
  "setting D emb system_holds \<longleftrightarrow>
     field_laws D emb \<and> slice_laws D \<and> xof_laws D \<and> rng_laws D \<and> eval_laws D \<and>
     mayo_system_laws D emb system_holds \<and> trapdoor_laws D \<and> one_block D"

lemma settingD:
  assumes "setting D emb system_holds"
  shows "field_laws D emb" "slice_laws D" "xof_laws D" "rng_laws D" "eval_laws D"
    "mayo_system_laws D emb system_holds" "trapdoor_laws D" "one_block D" "gf16_laws D"
  using assms by (simp_all add: setting_def field_laws_def)

lemma demo_setting: "setting demo_deps demo_embed demo_holds"
  by (simp add: setting_def demo_field_laws demo_laws_deps demo_xof_laws demo_rng_laws demo_eval_laws
      demo_mayo_system_laws demo_trapdoor_laws one_block_def SIGNED_CREDENTIAL_DOMAIN_def demo_params_def
      div_ceil_def SALT_BYTES_def RATE_BYTES_def)

lemma length_sha3: "setting D emb system_holds \<Longrightarrow> length (sha3 D m n) = n"
  by (simp add: setting_def xof_laws_def)

lemma length_scopes:
  assumes "setting D emb system_holds"
  shows "length (credential_scope (sha3 D) a b) = 32" "length (presentation_scope (sha3 D) a b p) = 32"
  using length_sha3[OF assms] by (simp_all add: credential_scope_def presentation_scope_def hash_scope_def)

lemma length_derive_tag [simp]: "length (derive_tag k sc n) = 32"
  by (simp add: derive_tag_def)

lemma length_targets [simp]:
  "length (credential_target S sc k h) = P_M (mp S)" "length (signed_credential_target S cm t) = P_M (mp S)"
  by (simp_all add: credential_target_def signed_credential_target_def output_nibbles_def Let_def)

section \<open>Genuine keys and authentic credentials\<close>

definition genuine :: "('g, 'pk, 'sk, 'sys, 'proof, 'rng, 'z) deps_scheme \<Rightarrow> ('pk, 'sys) public_key \<Rightarrow> bool" where
  "genuine D public \<longleftrightarrow>
     public = public_of D (pub_application_context public) (pub_profile public) (pub_mayo public)"

lemma genuine_public_of [simp]: "genuine D (public_of D a f m)"
  by (simp add: genuine_def)

lemma public_of_system: "forms (pub_mayo_system (public_of D a f m)) = system_of D m"
  by (simp add: public_of_def mayo_system_and_hash_def system_of_def Let_def split_beta)

lemma genuine_system: "genuine D public \<Longrightarrow> forms (pub_mayo_system public) = system_of D (pub_mayo public)"
  unfolding genuine_def by (metis public_of_system)

lemma genuine_context:
  assumes "setting D emb system_holds" and "genuine D public"
  shows "length (pub_context public) = 32"
proof -
  have "pub_context public = pub_context
      (public_of D (pub_application_context public) (pub_profile public) (pub_mayo public))"
    using assms(2) by (simp add: genuine_def)
  then show ?thesis
    using length_sha3[OF assms(1)] by (simp add: public_of_def derive_issuer_context_def Let_def split_beta)
qed

text \<open>The scope of a credential context under a key, and what it means that a signature opens it.\<close>

abbreviation cscope where
  "cscope D public cctx \<equiv> credential_scope (sha3 D) (pub_context public) (credential_digest cctx)"

definition authentic ::
  "('g, 'pk, 'sk, 'sys, 'proof, 'rng, 'z) deps_scheme \<Rightarrow> ('pk, 'sys) public_key \<Rightarrow> credential_context \<Rightarrow>
     'g list \<Rightarrow> bytes \<Rightarrow> bytes \<Rightarrow> bytes \<Rightarrow> bool" where
  "authentic D public cctx signature secret hiding_nonce salt \<longleftrightarrow>
     mayo_eval D (pub_mayo public) signature = Some (signed_credential_target D
       (credential_target D (cscope D public cctx) secret hiding_nonce) salt)"

lemma verify_credential_iff:
  assumes "slice_laws D"
  shows "verify_credential D public c = Inr () \<longleftrightarrow>
    cred_issuer_context c = pub_context public \<and>
    authentic D public (cred_credential_context c) (cred_signature c) (cred_secret c)
      (cred_hiding_nonce c) (cred_salt c)"
  by (auto simp: verify_credential_def authentic_def slices_equal_iff[OF assms] rbind_eq_Inr)

lemma authentic_length:
  "eval_laws D \<Longrightarrow> authentic D public cctx sig k h t \<Longrightarrow> length sig = P_KN (mp D)"
  unfolding authentic_def eval_laws_def by (metis option.distinct(1))

text \<open>In the field of the proof system: the compact system holds of the signature and the target.\<close>

lemma system_iff:
  assumes "setting D emb system_holds" and "genuine D public" and "length sig = P_KN (mp D)"
  shows "system_holds (map emb sig) (forms (pub_mayo_system public))
      (map emb (signed_credential_target D (credential_target D (cscope D public cctx) k h) t)) \<longleftrightarrow>
    authentic D public cctx sig k h t"
  using settingD(6)[OF assms(1)] assms(3)
  by (simp add: mayo_system_laws_def authentic_def genuine_system[OF assms(2)])

section \<open>The circuit of a presentation\<close>

lemma circuit_ok_present:
  "one_block D \<Longrightarrow> circuit_ok D (present_circuit D public ch tag) \<longleftrightarrow> ch_limit ch \<noteq> 0"
  by (simp add: circuit_ok_def one_block_def present_circuit_def)

lemma present_accepts_iff:
  assumes st: "setting D emb system_holds" and gen: "genuine D public" and tag: "length tag = 32"
  shows "satisfies D emb system_holds (Presenting (present_circuit D public ch tag)) ws \<longleftrightarrow>
    ch_limit ch \<noteq> 0 \<and>
    (\<exists>P. length (ps_secret P) = 32 \<and> length (ps_hiding_nonce P) = 32 \<and> length (ps_salt P) = 32 \<and>
       presentation_witness D (present_circuit D public ch tag) P = Some ws \<and>
       ps_presentation_nonce P < ch_limit ch \<and>
       authentic D public (ch_credential_context ch) (ps_signature P) (ps_secret P) (ps_hiding_nonce P) (ps_salt P) \<and>
       tag = derive_tag (ps_secret P) (presentation_scope (sha3 D) (pub_context public)
         (credential_digest (ch_credential_context ch)) (presentation_digest (ch_presentation_context ch)))
         (ps_presentation_nonce P))"
proof -
  let ?C = "present_circuit D public ch tag"
  note law = field_lawsD[OF settingD(1)[OF st]]
  have len: "length (pc_credential_scope ?C) = 32" "length (pc_presentation_scope ?C) = 32" "length (pc_tag ?C) = 32"
    by (simp_all add: present_circuit_def length_scopes[OF st] tag)
  note iff = presentation_accepts_iff[OF law len]
  have parts: "pc_mayo_system ?C = pub_mayo_system public" "pc_presentation_limit ?C = ch_limit ch" "pc_tag ?C = tag"
    "pc_credential_scope ?C = cscope D public (ch_credential_context ch)"
    "pc_presentation_scope ?C = presentation_scope (sha3 D) (pub_context public)
         (credential_digest (ch_credential_context ch)) (presentation_digest (ch_presentation_context ch))"
    by (simp_all add: present_circuit_def)
  show ?thesis
    unfolding satisfies_def relation_circuit.case iff circuit_ok_present[OF settingD(8)[OF st]]
      presentation_relation_def parts
    using system_iff[OF st gen] authentic_length[OF settingD(5)[OF st]] by blast
qed

section \<open>Presenting succeeds\<close>

definition pscope ::
  "('g, 'pk, 'sk, 'sys, 'proof, 'rng, 'z) deps_scheme \<Rightarrow> ('pk, 'sys) public_key \<Rightarrow> credential_context \<Rightarrow>
     presentation_context \<Rightarrow> bytes" where
  "pscope D public cctx pctx = presentation_scope (sha3 D) (pub_context public)
     (credential_digest cctx) (presentation_digest pctx)"

lemma verify_proof_only_eq:
  "verify_proof_only D public ch pres =
     (if ch_limit ch = 0 then Inl InvalidPresentationLimit
      else case vole_verify D (profile_params (vole D) (pub_profile public))
             (presentation_statement D (pub_context public) ch (pres_tag pres))
             (Presenting (present_circuit D public ch (pres_tag pres))) (pres_proof pres) of
        Inl e \<Rightarrow> Inl InvalidProof
      | Inr u \<Rightarrow> Inr \<lparr>vp_scope = pscope D public (ch_credential_context ch) (ch_presentation_context ch),
                      vp_tag = pres_tag pres\<rparr>)"
  by (simp add: verify_proof_only_def present_circuit_def pscope_def Let_def proof_error_def split: sum.split)

lemma present_tag_eq:
  "present_guard public ch c = None \<Longrightarrow> present_tag D c ch =
     derive_tag (cred_secret c) (pscope D public (ch_credential_context ch) (ch_presentation_context ch))
       (next_nonce c (ch_presentation_context ch))"
  by (simp add: present_tag_def pscope_def present_guard_None)

lemma present_satisfies:
  assumes st: "setting D emb system_holds" and gen: "genuine D public"
    and valid: "credential_valid D public c" and guard: "present_guard public ch c = None"
  shows "\<exists>ws. presentation_witness D (present_circuit D public ch (present_tag D c ch))
      (present_secrets c (next_nonce c (ch_presentation_context ch))) = Some ws \<and>
    satisfies D emb system_holds (Presenting (present_circuit D public ch (present_tag D c ch))) ws"
proof -
  let ?C = "present_circuit D public ch (present_tag D c ch)"
  let ?P = "present_secrets c (next_nonce c (ch_presentation_context ch))"
  note g = guard[unfolded present_guard_None]
  then have limit: "ch_limit ch \<noteq> 0" by auto
  have lens: "length (ps_secret ?P) = 32" "length (ps_hiding_nonce ?P) = 32" "length (ps_salt ?P) = 32"
    using valid by (simp_all add: present_secrets_def credential_valid_def)
  have scopes: "length (pc_credential_scope ?C) = 32" "length (pc_presentation_scope ?C) = 32"
    by (simp_all add: present_circuit_def length_scopes[OF st])
  have tag: "length (present_tag D c ch) = 32" by (simp add: present_tag_def)
  have "circuit_ok D ?C" using circuit_ok_present[OF settingD(8)[OF st]] limit by blast
  from presentation_witness_eq[OF this scopes lens] obtain ws where ws: "presentation_witness D ?C ?P = Some ws"
    by blast
  have "authentic D public (ch_credential_context ch) (ps_signature ?P) (ps_secret ?P) (ps_hiding_nonce ?P) (ps_salt ?P)"
    using valid g verify_credential_iff[OF settingD(2)[OF st], of public c]
    by (simp add: credential_valid_def present_secrets_def)
  moreover have "ps_presentation_nonce ?P < ch_limit ch" using g by (simp add: present_secrets_def)
  moreover have "present_tag D c ch = derive_tag (ps_secret ?P) (presentation_scope (sha3 D) (pub_context public)
         (credential_digest (ch_credential_context ch)) (presentation_digest (ch_presentation_context ch)))
         (ps_presentation_nonce ?P)"
    using present_tag_eq[OF guard] by (simp add: pscope_def present_secrets_def)
  ultimately have "satisfies D emb system_holds (Presenting ?C) ws"
    unfolding present_accepts_iff[OF st gen tag] using limit lens ws by blast
  with ws show ?thesis by blast
qed

lemma present_succeeds:
  assumes st: "setting D emb system_holds" and gen: "genuine D public"
    and complete: "proof_complete D emb system_holds"
    and valid: "credential_valid D public c" and guard: "present_guard public ch c = None"
  obtains p r' where
    "present D public ch c r = Some (Inr \<lparr>pres_tag = present_tag D c ch, pres_proof = p\<rparr>,
       spend (ch_presentation_context ch) c, r')"
    "verify_proof_only D public ch \<lparr>pres_tag = present_tag D c ch, pres_proof = p\<rparr> =
       Inr \<lparr>vp_scope = pscope D public (ch_credential_context ch) (ch_presentation_context ch),
            vp_tag = present_tag D c ch\<rparr>"
proof -
  let ?C = "present_circuit D public ch (present_tag D c ch)"
  obtain ws where ws: "presentation_witness D ?C
      (present_secrets c (next_nonce c (ch_presentation_context ch))) = Some ws"
    and sat: "satisfies D emb system_holds (Presenting ?C) ws"
    using present_satisfies[OF st gen valid guard] by blast
  obtain p r' where p: "vole_prove D (profile_params (vole D) (pub_profile public))
        (presentation_statement D (pub_context public) ch (present_tag D c ch)) (Presenting ?C) ws r = (Inr p, r')"
      "vole_verify D (profile_params (vole D) (pub_profile public))
        (presentation_statement D (pub_context public) ch (present_tag D c ch)) (Presenting ?C) p = Inr ()"
    using complete sat unfolding proof_complete_def by blast
  have "ch_limit ch \<noteq> 0" using guard by (auto simp: present_guard_None)
  with p ws guard show thesis
    by (intro that[of p r']) (simp_all add: present_eq verify_proof_only_eq)
qed

section \<open>Issuance succeeds\<close>

lemma one_block_target: "one_block D \<Longrightarrow> div_ceil (P_M (mp D)) 2 < 136"
  by (simp add: one_block_def RATE_BYTES_def)

definition commitment_circuit ::
  "('g, 'pk, 'sk, 'sys, 'proof, 'rng, 'z) deps_scheme \<Rightarrow> ('pk, 'sys) public_key \<Rightarrow> credential_context \<Rightarrow>
     'g list \<Rightarrow> 'g issue_circuit" where
  "commitment_circuit D public cctx commitment =
     \<lparr>ic_credential_scope = cscope D public cctx, ic_target = commitment\<rparr>"

lemma commitment_accepts_iff:
  assumes st: "setting D emb system_holds"
  shows "satisfies D emb system_holds (Issuance (commitment_circuit D public cctx cm)) ws \<longleftrightarrow>
    length cm = P_M (mp D) \<and>
    (\<exists>k h. length k = 32 \<and> length h = 32 \<and>
       issue_witness (commitment_circuit D public cctx cm) k h = Some ws \<and>
       credential_target D (cscope D public cctx) k h = cm)"
proof -
  note law = field_lawsD[OF settingD(1)[OF st]]
  have "length (ic_credential_scope (commitment_circuit D public cctx cm)) = 32"
    by (simp add: commitment_circuit_def length_scopes[OF st])
  from issue_accepts_iff[OF law(1,2) one_block_target[OF settingD(8)[OF st]] this]
  show ?thesis
    by (simp add: satisfies_def issue_relation_def) (simp add: commitment_circuit_def)
qed

lemma prepare_succeeds:
  assumes st: "setting D emb system_holds" and gen: "genuine D public"
    and complete: "proof_complete D emb system_holds" and "length (credential_digest cctx) = 32"
  obtains pending request r' where
    "prepare_issue D public cctx r = Some (Inr (pending, request), r')"
    "pending_valid D public pending" "pend_credential_context pending = cctx"
    "req_commitment request = pend_commitment pending" "length (pend_commitment pending) = P_M (mp D)"
    "vole_verify D (profile_params (vole D) (pub_profile public))
       (issue_statement D (pub_context public) (credential_digest cctx) (req_commitment request))
       (Issuance (commitment_circuit D public cctx (req_commitment request))) (req_proof request) = Inr ()"
proof -
  obtain k r1 where k: "fill_bytes D 32 r = (k, r1)" by force
  obtain h r2 where h: "fill_bytes D 32 r1 = (h, r2)" by force
  have len: "length k = 32" "length h = 32"
    using settingD(4)[OF st] k h unfolding rng_laws_def by (metis fst_conv)+
  let ?cm = "credential_target D (cscope D public cctx) k h"
  let ?C = "commitment_circuit D public cctx ?cm"
  have "length (ic_credential_scope ?C) = 32" by (simp add: commitment_circuit_def length_scopes[OF st])
  from issue_witness_eq[OF this len] obtain ws where ws: "issue_witness ?C k h = Some ws" by blast
  then have "satisfies D emb system_holds (Issuance ?C) ws"
    unfolding commitment_accepts_iff[OF st] using len by auto
  then obtain p r3 where p: "vole_prove D (profile_params (vole D) (pub_profile public))
        (issue_statement D (pub_context public) (credential_digest cctx) ?cm) (Issuance ?C) ws r2 = (Inr p, r3)"
      "vole_verify D (profile_params (vole D) (pub_profile public))
        (issue_statement D (pub_context public) (credential_digest cctx) ?cm) (Issuance ?C) p = Inr ()"
    using complete unfolding proof_complete_def by blast
  show thesis
    by (rule that[of "\<lparr>pend_issuer_context = pub_context public, pend_credential_context = cctx,
          pend_secret = k, pend_hiding_nonce = h, pend_commitment = ?cm\<rparr>"
          "\<lparr>req_commitment = ?cm, req_proof = p\<rparr>" r3])
       (use k h ws p assms(4) len genuine_context[OF st gen] in
         \<open>simp_all add: prepare_issue_def Let_def commitment_circuit_def pending_valid_def\<close>)
qed

section \<open>Signing and finishing\<close>

definition issuer_ok ::
  "('g, 'pk, 'sk, 'sys, 'proof, 'rng, 'z) deps_scheme \<Rightarrow> ('pk, 'sk, 'sys) issuer \<Rightarrow> bool" where
  "issuer_ok D issuer \<longleftrightarrow> genuine D (iss_public issuer) \<and>
     pub_mayo (iss_public issuer) = sk_public_key D (iss_secret issuer)"

lemma trapdoor_key: "trapdoor_laws D \<Longrightarrow> trapgen D r = ((sk, pk), r') \<Longrightarrow> sk_public_key D sk = pk"
  unfolding trapdoor_laws_def by blast

lemma generate_issuer_ok:
  assumes "trapdoor_laws D" and "generate_with_profile D app profile r = Some (issuer, r')"
  shows "issuer_ok D issuer"
  using assms
  by (auto simp: generate_with_profile_def issuer_ok_def dest: trapdoor_key[OF assms(1)] split: if_splits prod.splits)

lemma issuer_valid_ok: "issuer_valid D issuer \<Longrightarrow> issuer_ok D issuer"
  unfolding issuer_valid_def issuer_ok_def by (metis genuine_public_of public_of_fields(1))

lemma issue_eq:
  "issue D issuer request cctx r =
     (if length (req_commitment request) \<noteq> P_M (mp D) then (Inl InvalidRequest, r)
      else case vole_verify D (profile_params (vole D) (pub_profile (iss_public issuer)))
             (issue_statement D (pub_context (iss_public issuer)) (credential_digest cctx) (req_commitment request))
             (Issuance (commitment_circuit D (iss_public issuer) cctx (req_commitment request)))
             (req_proof request) of
           Inl e \<Rightarrow> (Inl InvalidProof, r)
         | Inr u \<Rightarrow> (case fill_bytes D 32 r of (salt, r1) \<Rightarrow>
             (case spre D (iss_secret issuer) (signed_credential_target D (req_commitment request) salt) r1 of
                (None, r2) \<Rightarrow> (Inl SigningFailed, r2)
              | (Some s, r2) \<Rightarrow> (Inr \<lparr>resp_signature = s, resp_salt = salt\<rparr>, r2))))"
  by (auto simp: issue_def commitment_circuit_def Let_def proof_error_def SALT_BYTES_def
      split: sum.splits prod.splits option.splits)

lemma finish_iff:
  assumes "slice_laws D"
  shows "finish D pending public request response = Inr c \<longleftrightarrow>
    pend_issuer_context pending = pub_context public \<and> req_commitment request = pend_commitment pending \<and>
    mayo_eval D (pub_mayo public) (resp_signature response) =
      Some (signed_credential_target D (pend_commitment pending) (resp_salt response)) \<and>
    c = \<lparr>cred_issuer_context = pend_issuer_context pending,
         cred_credential_context = pend_credential_context pending,
         cred_signature = resp_signature response, cred_secret = pend_secret pending,
         cred_hiding_nonce = pend_hiding_nonce pending, cred_salt = resp_salt response, cred_next_nonces = []\<rparr>"
  by (auto simp: finish_def slices_equal_iff[OF assms] Let_def rbind_eq_Inr)

lemma finish_valid:
  assumes "slice_laws D" and "eval_laws D" and pend: "pending_valid D public pending"
    and "length (resp_salt response) = 32" and fin: "finish D pending public request response = Inr c"
  shows "credential_valid D public c"
proof -
  note c = fin[unfolded finish_iff[OF assms(1)]]
  have auth: "authentic D public (cred_credential_context c) (cred_signature c) (cred_secret c)
      (cred_hiding_nonce c) (cred_salt c)"
    using c pend by (simp add: authentic_def pending_valid_def)
  from authentic_length[OF assms(2) auth] auth c pend assms(4) show ?thesis
    by (simp add: credential_valid_def verify_credential_iff[OF assms(1)] pending_valid_def)
qed

lemma issue_finishes:
  assumes st: "setting D emb system_holds" and iss: "issuer_ok D issuer"
    and pend: "pending_valid D (iss_public issuer) pending"
    and request: "req_commitment request = pend_commitment pending"
    and issue: "issue D issuer request cctx r = (Inr response, r')"
  obtains c where "finish D pending (iss_public issuer) request response = Inr c"
    "credential_valid D (iss_public issuer) c"
    "cred_credential_context c = pend_credential_context pending" "cred_next_nonces c = []"
proof -
  obtain salt r1 where salt: "fill_bytes D 32 r = (salt, r1)" by force
  have len: "length salt = 32"
    using settingD(4)[OF st] salt unfolding rng_laws_def by (metis fst_conv)
  from issue salt have resp: "resp_salt response = salt"
    and s: "spre D (iss_secret issuer) (signed_credential_target D (req_commitment request) salt) r1 =
        (Some (resp_signature response), r')"
    by (auto simp: issue_eq split: if_splits sum.splits prod.splits option.splits)
  have "mayo_eval D (pub_mayo (iss_public issuer)) (resp_signature response) =
      Some (signed_credential_target D (req_commitment request) salt)"
    using settingD(7)[OF st] s iss unfolding trapdoor_laws_def issuer_ok_def by (metis length_targets(2))
  then obtain c where c: "finish D pending (iss_public issuer) request response = Inr c"
    "cred_credential_context c = pend_credential_context pending" "cred_next_nonces c = []"
    using pend request resp by (auto simp: finish_iff[OF settingD(2)[OF st]] pending_valid_def)
  show thesis
    by (rule that[OF c(1) finish_valid[OF settingD(2)[OF st] settingD(5)[OF st] pend _ c(1)] c(2,3)])
       (simp add: resp len)
qed

lemma issue_honest:
  assumes "length (req_commitment request) = P_M (mp D)"
    and "vole_verify D (profile_params (vole D) (pub_profile (iss_public issuer)))
       (issue_statement D (pub_context (iss_public issuer)) (credential_digest cctx) (req_commitment request))
       (Issuance (commitment_circuit D (iss_public issuer) cctx (req_commitment request))) (req_proof request) = Inr ()"
    and "issue D issuer request cctx r = (Inl e, r')"
  shows "e = SigningFailed"
  using assms by (auto simp: issue_eq split: prod.splits option.splits)

text \<open>Generating an issuer, preparing, issuing and finishing, one after the other: either preimage sampling
  fails, or the client ends with a valid and fresh credential.\<close>

lemma honest_issuance:
  assumes st: "setting D emb system_holds" and complete: "proof_complete D emb system_holds"
    and "length app \<le> MAX_APPLICATION_CONTEXT_BYTES" and len: "length (credential_digest cctx) = 32"
  obtains (signed) issuer r1 pending request r2 response r3 c where
      "generate_with_profile D app profile r = Some (issuer, r1)"
      "prepare_issue D (iss_public issuer) cctx r1 = Some (Inr (pending, request), r2)"
      "issue D issuer request cctx r2 = (Inr response, r3)"
      "finish D pending (iss_public issuer) request response = Inr c"
      "genuine D (iss_public issuer)" "credential_valid D (iss_public issuer) c"
      "cred_credential_context c = cctx" "cred_next_nonces c = []"
  | (failed) issuer r1 pending request r2 r3 where
      "generate_with_profile D app profile r = Some (issuer, r1)"
      "prepare_issue D (iss_public issuer) cctx r1 = Some (Inr (pending, request), r2)"
      "issue D issuer request cctx r2 = (Inl SigningFailed, r3)"
proof -
  obtain issuer r1 where gen: "generate_with_profile D app profile r = Some (issuer, r1)"
    using assms(3) by (cases "trapgen D r"; cases "fst (trapgen D r)") (auto simp: generate_with_profile_def)
  note ok = generate_issuer_ok[OF settingD(7)[OF st] gen]
  then have genuine: "genuine D (iss_public issuer)" by (simp add: issuer_ok_def)
  obtain pending request r2 where prep: "prepare_issue D (iss_public issuer) cctx r1 = Some (Inr (pending, request), r2)"
    and pend: "pending_valid D (iss_public issuer) pending" "pend_credential_context pending = cctx"
      "req_commitment request = pend_commitment pending" "length (pend_commitment pending) = P_M (mp D)"
    and shown: "vole_verify D (profile_params (vole D) (pub_profile (iss_public issuer)))
       (issue_statement D (pub_context (iss_public issuer)) (credential_digest cctx) (req_commitment request))
       (Issuance (commitment_circuit D (iss_public issuer) cctx (req_commitment request))) (req_proof request) = Inr ()"
    by (rule prepare_succeeds[OF st genuine complete len])
  obtain issued r3 where issue: "issue D issuer request cctx r2 = (issued, r3)" by force
  show thesis
  proof (cases issued)
    case (Inl e)
    with issue_honest[OF _ shown issue[unfolded Inl]] pend(3,4) have "e = SigningFailed" by simp
    with gen prep issue Inl show thesis by (intro failed) simp_all
  next
    case (Inr response)
    show thesis
      by (rule issue_finishes[OF st ok pend(1,3) issue[unfolded Inr]])
        (rule signed[OF gen prep issue[unfolded Inr] _ genuine], simp_all add: pend(2))
  qed
qed

lemma issue_signing_failed:
  assumes "issue D issuer request cctx r = (Inl SigningFailed, r')"
  shows "\<exists>sk t r. fst (spre D sk t r) = None"
proof -
  from assms obtain sk t r1 where "spre D sk t r1 = (None, r')"
    unfolding issue_eq by (auto split: if_splits sum.splits prod.splits option.splits)
  then have "fst (spre D sk t r1) = None" by simp
  then show ?thesis by blast
qed

lemma issue_opened:
  assumes st: "setting D emb system_holds" and sound: "proof_sound D emb system_holds"
    and issue: "issue D issuer request cctx r = (Inr response, r')"
  obtains k h where "length k = 32" "length h = 32"
    "credential_target D (cscope D (iss_public issuer) cctx) k h = req_commitment request"
proof -
  from issue obtain u where "vole_verify D (profile_params (vole D) (pub_profile (iss_public issuer)))
       (issue_statement D (pub_context (iss_public issuer)) (credential_digest cctx) (req_commitment request))
       (Issuance (commitment_circuit D (iss_public issuer) cctx (req_commitment request))) (req_proof request) = Inr u"
    by (auto simp: issue_eq split: if_splits sum.splits)
  then have "\<exists>ws. satisfies D emb system_holds
      (Issuance (commitment_circuit D (iss_public issuer) cctx (req_commitment request))) ws"
    using sound unfolding proof_sound_def by (metis old.unit.exhaust)
  then show thesis
    unfolding commitment_accepts_iff[OF st] using that by blast
qed

section \<open>What an accepted presentation shows\<close>

lemma accepted_presentation:
  assumes st: "setting D emb system_holds" and gen: "genuine D public"
    and sound: "proof_sound D emb system_holds" and tag: "length (pres_tag pres) = 32"
    and ok: "verify_proof_only D public ch pres = Inr v"
  obtains sig k h t n where "length k = 32" "length h = 32" "length t = 32"
    "authentic D public (ch_credential_context ch) sig k h t" "n < ch_limit ch"
    "pres_tag pres = derive_tag k (pscope D public (ch_credential_context ch) (ch_presentation_context ch)) n"
    "v = \<lparr>vp_scope = pscope D public (ch_credential_context ch) (ch_presentation_context ch), vp_tag = pres_tag pres\<rparr>"
proof -
  from ok obtain u where v: "v = \<lparr>vp_scope = pscope D public (ch_credential_context ch) (ch_presentation_context ch),
      vp_tag = pres_tag pres\<rparr>" and
    "vole_verify D (profile_params (vole D) (pub_profile public))
      (presentation_statement D (pub_context public) ch (pres_tag pres))
      (Presenting (present_circuit D public ch (pres_tag pres))) (pres_proof pres) = Inr u"
    by (auto simp: verify_proof_only_eq split: if_splits sum.splits)
  then have "\<exists>ws. satisfies D emb system_holds (Presenting (present_circuit D public ch (pres_tag pres))) ws"
    using sound unfolding proof_sound_def by (metis old.unit.exhaust)
  then show thesis
    unfolding present_accepts_iff[OF st gen tag] using that v unfolding pscope_def by blast
qed

section \<open>A concrete client\<close>

lemma demo_generate: "generate_with_profile demo_deps [1, 2] Balanced 0 = Some (demo_issuer, 1)"
  by (simp add: generate_with_profile_def MAX_APPLICATION_CONTEXT_BYTES_def demo_issuer_def demo_public_def)

lemma demo_genuine: "genuine demo_deps demo_public"
  by (simp add: demo_public_def)

definition demo_challenge :: "u32 \<Rightarrow> presentation_challenge" where
  "demo_challenge limit = \<lparr>ch_credential_context = CredentialContext (replicate 32 2),
     ch_presentation_context = PresentationContext (replicate 32 7),
     ch_binding = PresentationBinding (replicate 32 8), ch_limit = limit\<rparr>"

lemma demo_challenge_sel [simp]:
  "ch_limit (demo_challenge l) = l"
  "ch_presentation_context (demo_challenge l) = PresentationContext (replicate 32 7)"
  "ch_credential_context (demo_challenge l) = CredentialContext (replicate 32 2)"
  by (simp_all add: demo_challenge_def)

lemma demo_fresh_valid: "credential_valid demo_deps demo_public (demo_credential [])"
  by (rule demo_credential_valid) simp_all

lemma demo_fresh_nonce: "next_nonce (demo_credential []) p = 0"
  by (simp add: next_nonce_def demo_credential_def bt_get_def)

lemma demo_guard: "l \<noteq> 0 \<Longrightarrow> present_guard demo_public (demo_challenge l) (demo_credential []) = None"
  by (simp add: present_guard_None demo_fresh_nonce word_neq_0_conv context_count_def
      MAX_PRESENTATION_CONTEXTS_def) (simp add: demo_credential_def)

text \<open>The concrete credential is presented once.\<close>

lemma demo_present:
  assumes "l \<noteq> 0"
  obtains p r' where
    "present demo_deps demo_public (demo_challenge l) (demo_credential []) r =
       Some (Inr \<lparr>pres_tag = present_tag demo_deps (demo_credential []) (demo_challenge l), pres_proof = p\<rparr>,
         spend (PresentationContext (replicate 32 7)) (demo_credential []), r')"
    "verify_proof_only demo_deps demo_public (demo_challenge l)
       \<lparr>pres_tag = present_tag demo_deps (demo_credential []) (demo_challenge l), pres_proof = p\<rparr> =
       Inr \<lparr>vp_scope = pscope demo_deps demo_public (CredentialContext (replicate 32 2)) (PresentationContext (replicate 32 7)),
            vp_tag = present_tag demo_deps (demo_credential []) (demo_challenge l)\<rparr>"
  using present_succeeds[OF demo_setting demo_genuine demo_proof_laws(2) demo_fresh_valid demo_guard[OF assms],
      of r] by auto

section \<open>Properties of issuance\<close>

text \<open>C7: honest issuance. With an issuer that \<open>generate_with_profile\<close> made, \<open>prepare_issue\<close> neither
  panics nor fails; \<open>issue\<close> then fails only when preimage sampling does, and otherwise \<open>finish\<close>
  returns a credential that is valid and authentic under the issuer's key, for the agreed context,
  with every counter at zero.\<close>

theorem issuance_flow:
  assumes "setting D emb system_holds" and "proof_complete D emb system_holds"
    and "generate_with_profile D application_context profile r0 = Some (issuer, r1)"
    and "length (credential_digest cctx) = 32"
  shows "\<exists>pending request r3. prepare_issue D (iss_public issuer) cctx r2 = Some (Inr (pending, request), r3) \<and>
    (case issue D issuer request cctx r4 of
       (Inl e, r5) \<Rightarrow> e = SigningFailed
     | (Inr response, r5) \<Rightarrow> \<exists>c. finish D pending (iss_public issuer) request response = Inr c \<and>
         credential_valid D (iss_public issuer) c \<and> cred_credential_context c = cctx \<and>
         (\<forall>p. next_nonce c p = 0))"
proof -
  have ok: "issuer_ok D issuer" using generate_issuer_ok[OF settingD(7)[OF assms(1)] assms(3)] .
  then have gen: "genuine D (iss_public issuer)" by (simp add: issuer_ok_def)
  obtain pending request r3 where prep: "prepare_issue D (iss_public issuer) cctx r2 = Some (Inr (pending, request), r3)"
    and pend: "pending_valid D (iss_public issuer) pending" "pend_credential_context pending = cctx"
    and req: "req_commitment request = pend_commitment pending" "length (pend_commitment pending) = P_M (mp D)"
    and ver: "vole_verify D (profile_params (vole D) (pub_profile (iss_public issuer)))
       (issue_statement D (pub_context (iss_public issuer)) (credential_digest cctx) (req_commitment request))
       (Issuance (commitment_circuit D (iss_public issuer) cctx (req_commitment request))) (req_proof request) = Inr ()"
    by (rule prepare_succeeds[OF assms(1) gen assms(2,4)])
  obtain res r5 where res: "issue D issuer request cctx r4 = (res, r5)" by force
  have "case res of Inl e \<Rightarrow> e = SigningFailed
     | Inr response \<Rightarrow> \<exists>c. finish D pending (iss_public issuer) request response = Inr c \<and>
         credential_valid D (iss_public issuer) c \<and> cred_credential_context c = cctx \<and>
         (\<forall>p. next_nonce c p = 0)"
  proof (cases res)
    case (Inl e)
    then show ?thesis using issue_honest[OF _ ver] req res by simp
  next
    case (Inr response)
    from issue_finishes[OF assms(1) ok pend(1) req(1) res[unfolded Inr]] obtain c where
      "finish D pending (iss_public issuer) request response = Inr c" "credential_valid D (iss_public issuer) c"
      "cred_credential_context c = cctx" "cred_next_nonces c = []"
      unfolding pend(2) by blast
    then show ?thesis by (auto simp: Inr next_nonce_def bt_get_def)
  qed
  with prep res show ?thesis by (auto split: sum.splits)
qed

theorem issuance_flow_witness:
  "\<exists>pending request r3. prepare_issue demo_deps demo_public (CredentialContext (replicate 32 2)) 5 =
      Some (Inr (pending, request), r3) \<and>
    (case issue demo_deps demo_issuer request (CredentialContext (replicate 32 2)) 6 of
       (Inl e, r5) \<Rightarrow> e = SigningFailed
     | (Inr response, r5) \<Rightarrow> \<exists>c. finish demo_deps pending demo_public request response = Inr c \<and>
         credential_valid demo_deps demo_public c)"
proof -
  have pub: "iss_public demo_issuer = demo_public" by (simp add: demo_issuer_def)
  have "length (credential_digest (CredentialContext (replicate 32 2))) = 32" by simp
  from issuance_flow[OF demo_setting demo_proof_laws(2) demo_generate this, of 5 6] show ?thesis
    unfolding pub by (fastforce split: prod.splits sum.splits)
qed


lemma finish_accepts:
  "slice_laws D \<Longrightarrow> pend_issuer_context pending = pub_context public \<Longrightarrow>
     req_commitment request = pend_commitment pending \<Longrightarrow>
     mayo_eval D (pub_mayo public) (resp_signature response) =
       Some (signed_credential_target D (pend_commitment pending) (resp_salt response)) \<Longrightarrow>
     \<exists>c. finish D pending public request response = Inr c"
  by (auto simp: finish_iff)

lemma demo_issue:
  obtains request response r' where
    "issue demo_deps demo_issuer request (CredentialContext (replicate 32 2)) 6 = (Inr response, r')"
proof -
  let ?cctx = "CredentialContext (replicate 32 2)"
  have len: "length (credential_digest ?cctx) = 32" by simp
  have pub: "iss_public demo_issuer = demo_public" by (simp add: demo_issuer_def)
  obtain pending request r' where
    "prepare_issue demo_deps demo_public ?cctx 5 = Some (Inr (pending, request), r')"
    "pending_valid demo_deps demo_public pending" "pend_credential_context pending = ?cctx"
    "req_commitment request = pend_commitment pending" "length (pend_commitment pending) = P_M (mp demo_deps)"
    "vole_verify demo_deps (profile_params (vole demo_deps) (pub_profile demo_public))
       (issue_statement demo_deps (pub_context demo_public) (credential_digest ?cctx) (req_commitment request))
       (Issuance (commitment_circuit demo_deps demo_public ?cctx (req_commitment request))) (req_proof request) = Inr ()"
    by (rule prepare_succeeds[OF demo_setting demo_genuine demo_proof_laws(2) len])
  then show thesis
    by (intro that[of request "\<lparr>resp_signature = signed_credential_target demo_deps (req_commitment request)
        (replicate 32 6) @ replicate 8 0, resp_salt = replicate 32 6\<rparr>" 8])
       (simp add: issue_eq pub)
qed

lemma demo_issuer_ok: "issuer_ok demo_deps demo_issuer"
  by (rule generate_issuer_ok[OF demo_trapdoor_laws demo_generate])




section \<open>Properties of the client\<close>

text \<open>C6: presenting refines spending a budget. Whatever \<open>present\<close> returns on a valid credential: on an
  error the credential is unchanged; on success the budget of exactly this context rises by one (no
  wrap-around), it was below the challenge's limit, every other field and context is unchanged, and the
  tag shown is the one derived from the secret, the scope and the old counter.\<close>

theorem present_refines_budget:
  assumes "credential_valid D public c" and "present D public ch c r = Some (res, c', r')"
  shows "case res of
      Inl e \<Rightarrow> c' = c
    | Inr pres \<Rightarrow>
        spent c (ch_presentation_context ch) < unat (ch_limit ch) \<and>
        spent c' = (spent c)(ch_presentation_context ch := Suc (spent c (ch_presentation_context ch))) \<and>
        same_credential c c' \<and>
        pres_tag pres = nth_tag D c (ch_presentation_context ch) (spent c (ch_presentation_context ch))"
proof (cases res)
  case (Inl e)
  with assms(2) show ?thesis using present_Inl[of D public ch c r e c' r'] by simp
next
  case (Inr pres)
  note step = present_Inr[OF assms(2)[unfolded Inr]]
  have "spent c' p = ((spent c)(ch_presentation_context ch := Suc (spent c (ch_presentation_context ch)))) p" for p
    using spent_spend[OF assms(1) step(1), of p] by (simp add: step(2))
  moreover have "spent c (ch_presentation_context ch) < unat (ch_limit ch)"
    using step(1) by (simp add: present_guard_None spent_def word_less_nat_alt)
  ultimately show ?thesis
    using step(2,3) by (simp add: Inr fun_eq_iff present_tag_nth)
qed

theorem present_refines_budget_witness:
  "\<exists>pres c' r'. present demo_deps demo_public (demo_challenge 2) (demo_credential []) 9 = Some (Inr pres, c', r') \<and>
     spent c' = (\<lambda>p. 0)(PresentationContext (replicate 32 7) := 1)"
proof -
  obtain p r' where
    run: "present demo_deps demo_public (demo_challenge 2) (demo_credential []) 9 =
       Some (Inr \<lparr>pres_tag = present_tag demo_deps (demo_credential []) (demo_challenge 2), pres_proof = p\<rparr>,
         spend (PresentationContext (replicate 32 7)) (demo_credential []), r')"
    by (rule demo_present[of 2 9]) simp_all
  have "spent (demo_credential []) = (\<lambda>p. 0)" by (simp add: fun_eq_iff spent_def demo_fresh_nonce)
  with present_refines_budget[OF demo_fresh_valid run] run show ?thesis by simp
qed

text \<open>C26: the credential invariant. \<open>present\<close> keeps it whatever it returns: the credential stays authentic
  under the key, with at most 4096 counters in strictly ascending order, none of them zero.\<close>

theorem present_keeps_valid:
  assumes "credential_valid D public c" and "present D public ch c r = Some (res, c', r')"
    and "length (presentation_digest (ch_presentation_context ch)) = 32"
  shows "credential_valid D public c' \<and> context_count c' \<le> MAX_PRESENTATION_CONTEXTS"
  using present_valid[OF assms(2,1,3)] by (simp add: credential_valid_def context_count_def)

theorem present_keeps_valid_witness:
  "\<exists>pres c' r'. present demo_deps demo_public (demo_challenge 2) (demo_credential []) 9 = Some (Inr pres, c', r') \<and>
     credential_valid demo_deps demo_public c'"
proof -
  obtain p r' where
    run: "present demo_deps demo_public (demo_challenge 2) (demo_credential []) 9 =
       Some (Inr \<lparr>pres_tag = present_tag demo_deps (demo_credential []) (demo_challenge 2), pres_proof = p\<rparr>,
         spend (PresentationContext (replicate 32 7)) (demo_credential []), r')"
    by (rule demo_present[of 2 9]) simp_all
  have "length (presentation_digest (ch_presentation_context (demo_challenge 2))) = 32" by simp
  from present_keeps_valid[OF demo_fresh_valid run this] run show ?thesis by blast
qed

text \<open>C20: a client shows each counter once. In any run of a client, over any challenges, with any
  failures and any number of times written out and read back in between, the tags shown in a context
  are exactly the derived tags of the consecutive counters from what was spent before the run to what is
  spent after it, and when every challenge of the context has a limit of at most \<open>L\<close>, no counter from
  \<open>L\<close> on is reached.\<close>

theorem client_shows_each_counter_once:
  assumes "client_run D public c evs c'" and "gf16_laws D" and "P_KN (mp D) < usize_max"
    and "credential_valid D public c"
  shows "spent c p \<le> spent c' p \<and>
    shown p evs = map (nth_tag D c p) [spent c p..<spent c' p] \<and>
    ((\<forall>(ch, res)\<in>set evs. ch_presentation_context ch = p \<longrightarrow> unat (ch_limit ch) \<le> L) \<longrightarrow>
       spent c' p \<le> max (spent c p) L)"
  using client_run_tags[OF assms, of p] client_run_bound[OF assms, of p L] by blast

theorem client_shows_each_counter_once_witness:
  "\<exists>evs c'. client_run demo_deps demo_public (demo_credential []) evs c' \<and>
     shown (PresentationContext (replicate 32 7)) evs =
       [nth_tag demo_deps (demo_credential []) (PresentationContext (replicate 32 7)) 0]"
proof -
  obtain p r' where
    run: "present demo_deps demo_public (demo_challenge 2) (demo_credential []) 9 =
       Some (Inr \<lparr>pres_tag = present_tag demo_deps (demo_credential []) (demo_challenge 2), pres_proof = p\<rparr>,
         spend (PresentationContext (replicate 32 7)) (demo_credential []), r')"
    by (rule demo_present[of 2 9]) simp_all
  have len: "length (presentation_digest (ch_presentation_context (demo_challenge 2))) = 32" by simp
  have kn: "P_KN (mp demo_deps) < usize_max" by (simp add: demo_params_def usize_max_def)
  note go = client_run.answer[OF run len client_run.rest]
  have "bt_ok (cred_next_nonces (demo_credential []))" by (simp add: demo_credential_def)
  then have "spent (spend (PresentationContext (replicate 32 7)) (demo_credential [])) (PresentationContext (replicate 32 7)) = 1"
    by (simp add: spent_def next_nonce_spend demo_fresh_nonce)
  with client_shows_each_counter_once[OF go demo_laws_deps(1) kn demo_fresh_valid,
      of "PresentationContext (replicate 32 7)" 0] go
  show ?thesis by (intro exI conjI) (assumption, simp add: spent_def demo_fresh_nonce)
qed

lemma budget_guard:
  assumes "slice_laws D" and "credential_valid D public c"
    and "ch_credential_context ch = cred_credential_context c"
    and "spent c (ch_presentation_context ch) < unat (ch_limit ch)"
    and "spent c (ch_presentation_context ch) \<noteq> 0 \<or> context_count c < MAX_PRESENTATION_CONTEXTS"
  shows "present_guard public ch c = None"
proof -
  have "cred_issuer_context c = pub_context public"
    using assms(2) verify_credential_iff[OF assms(1), of public c] by (simp add: credential_valid_def)
  moreover have "bt_get (cred_next_nonces c) (CounterKey (presentation_digest (ch_presentation_context ch))) \<noteq> None \<or>
      context_count c < MAX_PRESENTATION_CONTEXTS"
    using assms(5) by (auto simp: spent_def next_nonce_def split: option.splits)
  ultimately show ?thesis
    using assms(3,4) by (simp add: present_guard_None spent_def word_less_nat_alt)
qed

text \<open>C8: honest presentation. A valid credential, presented to its issuer's verifier in its own credential
  context, with its budget below the limit and the context known or room for a new one, always yields
  a presentation: no panic, no error. The verifier accepts the proof, and the tag and scope it reports
  are the derived ones.\<close>

theorem presentation_flow:
  assumes "setting D emb system_holds" and "proof_complete D emb system_holds" and "genuine D public"
    and "credential_valid D public c" and "ch_credential_context ch = cred_credential_context c"
    and "spent c (ch_presentation_context ch) < unat (ch_limit ch)"
    and "spent c (ch_presentation_context ch) \<noteq> 0 \<or> context_count c < MAX_PRESENTATION_CONTEXTS"
  shows "\<exists>pres c' r'. present D public ch c r = Some (Inr pres, c', r') \<and>
    verify_proof_only D public ch pres =
      Inr \<lparr>vp_scope = presentation_scope (sha3 D) (pub_context public)
             (credential_digest (ch_credential_context ch)) (presentation_digest (ch_presentation_context ch)),
           vp_tag = nth_tag D c (ch_presentation_context ch) (spent c (ch_presentation_context ch))\<rparr>"
proof -
  have guard: "present_guard public ch c = None"
    by (rule budget_guard[OF settingD(2)[OF assms(1)] assms(4-7)])
  obtain p r' where
    "present D public ch c r = Some (Inr \<lparr>pres_tag = present_tag D c ch, pres_proof = p\<rparr>,
       spend (ch_presentation_context ch) c, r')"
    "verify_proof_only D public ch \<lparr>pres_tag = present_tag D c ch, pres_proof = p\<rparr> =
       Inr \<lparr>vp_scope = pscope D public (ch_credential_context ch) (ch_presentation_context ch),
            vp_tag = present_tag D c ch\<rparr>"
    by (rule present_succeeds[OF assms(1,3,2,4) guard])
  then show ?thesis by (simp add: pscope_def present_tag_nth)
qed

theorem presentation_flow_witness:
  "\<exists>pres c' r'. present demo_deps demo_public (demo_challenge 1) (demo_credential []) 9 = Some (Inr pres, c', r') \<and>
    \<not> isl (verify_proof_only demo_deps demo_public (demo_challenge 1) pres)"
proof -
  have "ch_credential_context (demo_challenge 1) = cred_credential_context (demo_credential [])"
    and "spent (demo_credential []) (ch_presentation_context (demo_challenge 1)) < unat (ch_limit (demo_challenge 1))"
    and "spent (demo_credential []) (ch_presentation_context (demo_challenge 1)) \<noteq> 0 \<or>
      context_count (demo_credential []) < MAX_PRESENTATION_CONTEXTS"
    by (simp_all add: spent_def demo_fresh_nonce)
      (simp_all add: demo_credential_def context_count_def MAX_PRESENTATION_CONTEXTS_def)
  from presentation_flow[OF demo_setting demo_proof_laws(2) demo_genuine demo_fresh_valid this, of 9]
  show ?thesis by auto
qed

text \<open>C28: the errors of \<open>present\<close>. For a valid credential and a complete proof system, \<open>present\<close> fails in
  exactly four cases, tested in this order, and each leaves the credential and the random generator as
  they were: another credential context, a zero limit, a new context when 4096 are already counted,
  and a spent budget.\<close>

theorem present_fails_iff:
  assumes "setting D emb system_holds" and "proof_complete D emb system_holds" and "genuine D public"
    and "credential_valid D public c"
  shows "present D public ch c r = Some (Inl e, c', r') \<longleftrightarrow> c' = c \<and> r' = r \<and>
    (if ch_credential_context ch \<noteq> cred_credential_context c then e = WrongCredentialContext
     else if ch_limit ch = 0 then e = InvalidPresentationLimit
     else if CounterKey (presentation_digest (ch_presentation_context ch)) \<notin> fst ` set (cred_next_nonces c) \<and>
             context_count c = MAX_PRESENTATION_CONTEXTS then e = TooManyPresentationContexts
     else spent c (ch_presentation_context ch) \<ge> unat (ch_limit ch) \<and> e = RateLimitReached)"
  (is "_ \<longleftrightarrow> c' = c \<and> r' = r \<and> ?case")
proof -
  have issuer: "cred_issuer_context c = pub_context public"
    using assms(4) verify_credential_iff[OF settingD(2)[OF assms(1)], of public c]
    by (simp add: credential_valid_def)
  have count: "context_count c \<ge> MAX_PRESENTATION_CONTEXTS \<longleftrightarrow> context_count c = MAX_PRESENTATION_CONTEXTS"
    using assms(4) by (auto simp: credential_valid_def context_count_def)
  have case_iff: "?case \<longleftrightarrow> present_guard public ch c = Some e"
    using issuer by (auto simp: present_guard_def count bt_get_none_iff spent_def word_le_nat_alt)
  show ?thesis
  proof (cases "present_guard public ch c")
    case None
    obtain p r1 where "present D public ch c r = Some (Inr \<lparr>pres_tag = present_tag D c ch, pres_proof = p\<rparr>,
       spend (ch_presentation_context ch) c, r1)"
      by (rule present_succeeds[OF assms(1,3,2,4) None])
    then show ?thesis unfolding case_iff by (simp add: None)
  next
    case (Some e')
    then show ?thesis unfolding case_iff by (auto simp: present_eq)
  qed
qed

theorem present_fails_iff_witness:
  "present demo_deps demo_public (demo_challenge 0) (demo_credential []) 9 =
     Some (Inl InvalidPresentationLimit, demo_credential [], 9)"
  unfolding present_fails_iff[OF demo_setting demo_proof_laws(2) demo_genuine demo_fresh_valid]
  by (simp add: demo_credential_def)

end
