(* ===== verification/Accounting.thy ===== *)
theory Accounting
  imports Flows
begin

text \<open>
  Runs of a verifier, and the rate limit. The lemmas on a verifier are proved in the context of
  \<open>tag_store\<close>, so they hold for every store that keeps the contract of the trait \<open>TagStore\<close>; together
  with what an accepted presentation shows (theory Flows) they bound how many presentations of one
  context can be accepted, and an honest client reaches the bound.
\<close>

lemma same_credential_context: "same_credential c c' \<Longrightarrow> cred_credential_context c' = cred_credential_context c"
  by (cases c; cases c') (auto simp: same_credential_def)

section \<open>Runs of a verifier\<close>

text \<open>The requests a verifier answers, in the order in which it serializes them, and its answers.\<close>

fun verify_all ::
  "('g, 'pk, 'sk, 'sys, 'proof, 'rng, 'z) deps_scheme \<Rightarrow>
     (digest \<Rightarrow> digest \<Rightarrow> 's \<Rightarrow> (error + bool) \<times> 's) \<Rightarrow> (presentation_challenge \<times> 'proof presentation) list \<Rightarrow>
     ('pk, 'sys, 's) verifier \<Rightarrow> (error + verified_presentation) list \<times> ('pk, 'sys, 's) verifier" where
  "verify_all D insert_if_absent [] v = ([], v)"
| "verify_all D insert_if_absent ((ch, pres) # reqs) v =
     (let (r, v) = verifier_verify D insert_if_absent ch pres v;
          (rs, v) = verify_all D insert_if_absent reqs v
      in (r # rs, v))"

fun accepted :: "(error + verified_presentation) list \<Rightarrow> (digest \<times> digest) list" where
  "accepted [] = []"
| "accepted (Inl e # rs) = accepted rs"
| "accepted (Inr x # rs) = (vp_scope x, vp_tag x) # accepted rs"

lemma verifier_verify_public:
  "verifier_verify D insert_if_absent ch pres v = (r, v') \<Longrightarrow> ver_public v' = ver_public v"
  by (auto simp: verifier_verify_def Let_def split: sum.splits prod.splits if_splits)

lemma verify_all_public:
  "verify_all D insert_if_absent reqs v = (rs, v') \<Longrightarrow> ver_public v' = ver_public v \<and> length rs = length reqs"
proof (induction D insert_if_absent reqs v arbitrary: rs v' rule: verify_all.induct)
  case (1 D insert_if_absent v)
  then show ?case by simp
next
  case (2 D insert_if_absent ch pres reqs v)
  obtain r v1 where step: "verifier_verify D insert_if_absent ch pres v = (r, v1)" by force
  obtain rs1 v2 where rest: "verify_all D insert_if_absent reqs v1 = (rs1, v2)" by force
  from 2(1)[OF step[symmetric] refl rest] 2(2) step rest verifier_verify_public[OF step] show ?case by auto
qed

context tag_store
begin

lemma verify_Inr:
  assumes "verifier_verify D insert_if_absent ch pres v = (Inr x, v')"
  shows "verify_proof_only D (ver_public v) ch pres = Inr x"
    and "(vp_scope x, vp_tag x) \<notin> recorded (ver_store v)"
    and "(vp_scope x, vp_tag x) \<in> recorded (ver_store v')"
  using assms inserted
  by (auto simp: verifier_verify_def Let_def split: sum.splits prod.splits if_splits)

lemma verify_durable:
  assumes "verifier_verify D insert_if_absent ch pres v = (r, v')"
  shows "recorded (ver_store v) \<subseteq> recorded (ver_store v')"
  using assms
  by (auto simp: verifier_verify_def Let_def dest: durable[THEN subsetD] split: sum.splits prod.splits if_splits)

text \<open>No pair of scope and tag is accepted twice, whatever else the verifier is asked.\<close>

lemma accepted_fresh:
  "verify_all D insert_if_absent reqs v = (rs, v') \<Longrightarrow>
     distinct (accepted rs) \<and> set (accepted rs) \<inter> recorded (ver_store v) = {} \<and>
     set (accepted rs) \<subseteq> recorded (ver_store v') \<and> recorded (ver_store v) \<subseteq> recorded (ver_store v')"
proof (induction reqs arbitrary: v rs)
  case Nil
  then show ?case by simp
next
  case (Cons q reqs)
  obtain ch pres where q: "q = (ch, pres)" by (cases q)
  obtain r v1 where step: "verifier_verify D insert_if_absent ch pres v = (r, v1)" by force
  obtain rs1 v2 where rest: "verify_all D insert_if_absent reqs v1 = (rs1, v2)" by force
  from Cons.prems step rest have rs: "rs = r # rs1" "v' = v2" by (simp_all add: q)
  note ih = Cons.IH[OF rest[folded rs(2)]]
  show ?case
  proof (cases r)
    case (Inl e)
    with ih verify_durable[OF step] show ?thesis by (auto simp: rs)
  next
    case (Inr x)
    with ih verify_durable[OF step] verify_Inr[OF step[unfolded Inr]] show ?thesis
      by (auto simp: rs Inr)
  qed
qed

end

section \<open>The rate limit\<close>

text \<open>The secrets for which some authentic credential exists in a credential context.\<close>

definition authentic_secrets ::
  "('g, 'pk, 'sk, 'sys, 'proof, 'rng, 'z) deps_scheme \<Rightarrow> ('pk, 'sys) public_key \<Rightarrow> credential_context \<Rightarrow> bytes set" where
  "authentic_secrets D public cctx =
     {secret. length secret = 32 \<and> (\<exists>signature hiding_nonce salt. authentic D public cctx signature secret hiding_nonce salt)}"

lemma finite_authentic_secrets: "finite (authentic_secrets D public cctx)"
proof (rule finite_subset)
  show "authentic_secrets D public cctx \<subseteq> {bs. set bs \<subseteq> UNIV \<and> length bs = 32}"
    by (auto simp: authentic_secrets_def)
  show "finite {bs :: bytes. set bs \<subseteq> UNIV \<and> length bs = 32}"
    by (rule finite_lists_length_eq) simp
qed

text \<open>The tags accepted in one credential context and one presentation context.\<close>

fun accepted_tags ::
  "credential_context \<Rightarrow> presentation_context \<Rightarrow> (presentation_challenge \<times> 'proof presentation) list \<Rightarrow>
     (error + verified_presentation) list \<Rightarrow> digest list" where
  "accepted_tags cctx pctx ((ch, pres) # reqs) (Inr x # rs) =
     (if ch_credential_context ch = cctx \<and> ch_presentation_context ch = pctx
      then vp_tag x # accepted_tags cctx pctx reqs rs else accepted_tags cctx pctx reqs rs)"
| "accepted_tags cctx pctx (q # reqs) (Inl e # rs) = accepted_tags cctx pctx reqs rs"
| "accepted_tags cctx pctx [] rs = []"
| "accepted_tags cctx pctx reqs [] = []"

lemma accepted_tags_spec:
  assumes "setting D emb system_holds" and "proof_sound D emb system_holds"
    and "genuine D (ver_public v)" and "verify_all D insert_if_absent reqs v = (rs, v')"
    and "tag_store insert_if_absent recorded"
    and "\<forall>(ch, pres)\<in>set reqs. length (pres_tag pres) = 32 \<and>
           (ch_credential_context ch = cctx \<and> ch_presentation_context ch = pctx \<longrightarrow> unat (ch_limit ch) \<le> L)"
  shows "set (accepted_tags cctx pctx reqs rs) \<subseteq>
      (\<lambda>(k, n). derive_tag k (pscope D (ver_public v) cctx pctx) (of_nat n)) `
        (authentic_secrets D (ver_public v) cctx \<times> {..<L}) \<and>
    (\<forall>t\<in>set (accepted_tags cctx pctx reqs rs). (pscope D (ver_public v) cctx pctx, t) \<in> set (accepted rs)) \<and>
    (distinct (accepted rs) \<longrightarrow> distinct (accepted_tags cctx pctx reqs rs))"
  using assms
proof (induction reqs arbitrary: v rs)
  case Nil
  then show ?case by simp
next
  case (Cons q reqs)
  obtain ch pres where q: "q = (ch, pres)" by (cases q)
  obtain r v1 where step: "verifier_verify D insert_if_absent ch pres v = (r, v1)" by force
  obtain rs1 v2 where rest: "verify_all D insert_if_absent reqs v1 = (rs1, v2)" by force
  from Cons.prems(4) step rest have rs: "rs = r # rs1" "v' = v2" by (simp_all add: q)
  have pub: "ver_public v1 = ver_public v" using verifier_verify_public[OF step] .
  note ih = Cons.IH[OF Cons.prems(1,2) _ rest[folded rs(2)] Cons.prems(5), unfolded pub, OF Cons.prems(3)]
  show ?case
  proof (cases "\<exists>x. r = Inr x \<and> ch_credential_context ch = cctx \<and> ch_presentation_context ch = pctx")
    case False
    with ih Cons.prems(6) show ?thesis by (cases r) (auto simp: rs q)
  next
    case True
    then obtain x where x: "r = Inr x" and ctx: "ch_credential_context ch = cctx" "ch_presentation_context ch = pctx"
      by blast
    note ver = tag_store.verify_Inr(1)[OF Cons.prems(5) step[unfolded x]]
    have len: "length (pres_tag pres) = 32" and lim: "unat (ch_limit ch) \<le> L"
      using Cons.prems(6) ctx by (auto simp: q)
    obtain sig k h t n where k: "length k = 32" "authentic D (ver_public v) cctx sig k h t" "n < ch_limit ch"
      and tag: "pres_tag pres = derive_tag k (pscope D (ver_public v) cctx pctx) n"
      and out: "x = \<lparr>vp_scope = pscope D (ver_public v) cctx pctx, vp_tag = pres_tag pres\<rparr>"
      by (rule accepted_presentation[OF Cons.prems(1,3,2) len ver, unfolded ctx])
    have "vp_tag x = (\<lambda>(k, n). derive_tag k (pscope D (ver_public v) cctx pctx) (of_nat n)) (k, unat n)"
      by (simp add: out tag)
    moreover have "(k, unat n) \<in> authentic_secrets D (ver_public v) cctx \<times> {..<L}"
      using k lim by (auto simp: authentic_secrets_def word_less_nat_alt)
    ultimately have mem: "vp_tag x \<in> (\<lambda>(k, n). derive_tag k (pscope D (ver_public v) cctx pctx) (of_nat n)) `
        (authentic_secrets D (ver_public v) cctx \<times> {..<L})"
      by (rule image_eqI)
    have "vp_scope x = pscope D (ver_public v) cctx pctx" by (simp add: out)
    with mem ih Cons.prems(6) ctx show ?thesis by (auto simp: rs q x)
  qed
qed

lemma accepted_tags_bound:
  assumes "setting D emb system_holds" and "proof_sound D emb system_holds"
    and "genuine D (ver_public v)" and "verify_all D insert_if_absent reqs v = (rs, v')"
    and store: "tag_store insert_if_absent recorded"
    and "\<forall>(ch, pres)\<in>set reqs. length (pres_tag pres) = 32 \<and>
           (ch_credential_context ch = cctx \<and> ch_presentation_context ch = pctx \<longrightarrow> unat (ch_limit ch) \<le> L)"
  shows "length (accepted_tags cctx pctx reqs rs) \<le> card (authentic_secrets D (ver_public v) cctx) * L"
proof -
  note spec = accepted_tags_spec[OF assms]
  have "distinct (accepted_tags cctx pctx reqs rs)"
    using spec tag_store.accepted_fresh[OF store assms(4)] by blast
  then have "length (accepted_tags cctx pctx reqs rs) = card (set (accepted_tags cctx pctx reqs rs))"
    by (rule distinct_card[symmetric])
  also have "\<dots> \<le> card ((\<lambda>(k, n). derive_tag k (pscope D (ver_public v) cctx pctx) (of_nat n)) `
      (authentic_secrets D (ver_public v) cctx \<times> {..<L}))"
    using spec by (intro card_mono) (simp_all add: finite_authentic_secrets)
  also have "\<dots> \<le> card (authentic_secrets D (ver_public v) cctx \<times> {..<L})"
    by (rule card_image_le) (simp add: finite_authentic_secrets)
  finally show ?thesis by (simp add: card_cartesian_product)
qed

section \<open>Presenting and verifying\<close>

text \<open>An honest client answers the same challenge \<open>n\<close> times and a verifier with a \<open>MemoryTagStore\<close> checks
  each presentation at once: the results the verifier's caller sees, in order.\<close>

fun session ::
  "('g, 'pk, 'sk, 'sys, 'proof, 'rng, 'z) deps_scheme \<Rightarrow> presentation_challenge \<Rightarrow> nat \<Rightarrow> 'g credential \<Rightarrow> 'rng \<Rightarrow>
     ('pk, 'sys, memory_tag_store) verifier \<Rightarrow>
     ((error + verified_presentation) list \<times> 'g credential \<times> 'rng \<times> ('pk, 'sys, memory_tag_store) verifier) option" where
  "session D ch 0 c r v = Some ([], c, r, v)"
| "session D ch (Suc n) c r v =
     (case present D (ver_public v) ch c r of
        None \<Rightarrow> None
      | Some (res, c, r) \<Rightarrow>
          let (x, v) = (case res of Inl e \<Rightarrow> (Inl e, v) | Inr pres \<Rightarrow> verifier_verify D memory_insert_if_absent ch pres v)
          in map_option (\<lambda>(xs, rest). (x # xs, rest)) (session D ch n c r v))"

lemma verify_memory:
  "verify_proof_only D (ver_public v) ch pres = Inr x \<Longrightarrow> (vp_scope x, vp_tag x) \<notin> tags (ver_store v) \<Longrightarrow>
     verifier_verify D memory_insert_if_absent ch pres v =
       (Inr x, v\<lparr>ver_store := \<lparr>tags = insert (vp_scope x, vp_tag x) (tags (ver_store v))\<rparr>\<rparr>)"
  by (cases "ver_store v") (simp add: verifier_verify_def memory_insert_if_absent_def Let_def)

lemma session_succeeds:
  assumes "setting D emb system_holds" and "proof_complete D emb system_holds" and "genuine D (ver_public v)"
    and "credential_valid D (ver_public v) c" and "ch_credential_context ch = cred_credential_context c"
    and "length (presentation_digest (ch_presentation_context ch)) = 32"
    and "spent c (ch_presentation_context ch) + n \<le> unat (ch_limit ch)"
    and "spent c (ch_presentation_context ch) \<noteq> 0 \<or> context_count c < MAX_PRESENTATION_CONTEXTS"
    and "inj_on (nth_tag D c (ch_presentation_context ch))
           {spent c (ch_presentation_context ch)..<spent c (ch_presentation_context ch) + n}"
    and "\<forall>m\<in>{spent c (ch_presentation_context ch)..<spent c (ch_presentation_context ch) + n}.
           (pscope D (ver_public v) (ch_credential_context ch) (ch_presentation_context ch),
              nth_tag D c (ch_presentation_context ch) m) \<notin> tags (ver_store v)"
    and "finite (tags (ver_store v))"
  shows "\<exists>c' r' v'. session D ch n c r v =
      Some (map (\<lambda>m. Inr \<lparr>vp_scope = pscope D (ver_public v) (ch_credential_context ch) (ch_presentation_context ch),
                          vp_tag = nth_tag D c (ch_presentation_context ch) m\<rparr>)
              [spent c (ch_presentation_context ch)..<spent c (ch_presentation_context ch) + n], c', r', v') \<and>
    credential_valid D (ver_public v) c' \<and> same_credential c c' \<and> ver_public v' = ver_public v \<and>
    spent c' (ch_presentation_context ch) = spent c (ch_presentation_context ch) + n \<and>
    accepted_count v' = accepted_count v + n"
  using assms
proof (induction n arbitrary: c r v)
  case 0
  then show ?case by simp
next
  case (Suc n)
  let ?p = "ch_presentation_context ch" and ?sc = "pscope D (ver_public v) (ch_credential_context ch) (ch_presentation_context ch)"
  have guard: "present_guard (ver_public v) ch c = None"
    using budget_guard[OF settingD(2)[OF Suc.prems(1)] Suc.prems(4,5) _ Suc.prems(8)] Suc.prems(7) by simp
  obtain p r1 where
    pres: "present D (ver_public v) ch c r = Some (Inr \<lparr>pres_tag = present_tag D c ch, pres_proof = p\<rparr>, spend ?p c, r1)"
    and ver: "verify_proof_only D (ver_public v) ch \<lparr>pres_tag = present_tag D c ch, pres_proof = p\<rparr> =
       Inr \<lparr>vp_scope = ?sc, vp_tag = present_tag D c ch\<rparr>"
    by (rule present_succeeds[OF Suc.prems(1,3,2,4) guard])
  let ?x = "\<lparr>vp_scope = ?sc, vp_tag = nth_tag D c ?p (spent c ?p)\<rparr>"
  let ?v = "v\<lparr>ver_store := \<lparr>tags = insert (?sc, nth_tag D c ?p (spent c ?p)) (tags (ver_store v))\<rparr>\<rparr>"
  have ins: "verifier_verify D memory_insert_if_absent ch \<lparr>pres_tag = present_tag D c ch, pres_proof = p\<rparr> v = (Inr ?x, ?v)"
    using verify_memory[OF ver] Suc.prems(10) by (simp add: present_tag_nth)
  have sp: "spent (spend ?p c) ?p = Suc (spent c ?p)"
    using spent_spend[OF Suc.prems(4) guard] by simp
  have valid: "credential_valid D (ver_public v) (spend ?p c)"
    by (rule spend_valid[OF Suc.prems(4) guard Suc.prems(6)])
  have new: "\<forall>m\<in>{Suc (spent c ?p)..<Suc (spent c ?p) + n}. (?sc, nth_tag D c ?p m) \<notin> tags (ver_store ?v)"
    using Suc.prems(9,10) by (auto dest: inj_onD)
  have inj: "inj_on (nth_tag D c ?p) {Suc (spent c ?p)..<Suc (spent c ?p) + n}"
    by (rule inj_on_subset[OF Suc.prems(9)]) auto
  have count: "accepted_count ?v = Suc (accepted_count v)"
    using Suc.prems(10,11) by (simp add: accepted_count_def memory_len_def)
  have pub: "ver_public ?v = ver_public v" by simp
  have "\<exists>c' r' v'. session D ch n (spend ?p c) r1 ?v =
      Some (map (\<lambda>m. Inr \<lparr>vp_scope = ?sc, vp_tag = nth_tag D c ?p m\<rparr>)
              [Suc (spent c ?p)..<Suc (spent c ?p) + n], c', r', v') \<and>
    credential_valid D (ver_public v) c' \<and> same_credential (spend ?p c) c' \<and> ver_public v' = ver_public v \<and>
    spent c' ?p = Suc (spent c ?p) + n \<and> accepted_count v' = Suc (accepted_count v) + n"
    using Suc.IH[of ?v "spend ?p c" r1, unfolded sp count pub nth_tag_spend] Suc.prems(1-3,5-7,11) valid new inj
    by (simp del: upt_Suc)
  then obtain c' r' v' where "session D ch n (spend ?p c) r1 ?v =
      Some (map (\<lambda>m. Inr \<lparr>vp_scope = ?sc, vp_tag = nth_tag D c ?p m\<rparr>)
              [Suc (spent c ?p)..<Suc (spent c ?p) + n], c', r', v')"
    "credential_valid D (ver_public v) c'" "same_credential c c'" "ver_public v' = ver_public v"
    "spent c' ?p = Suc (spent c ?p) + n" "accepted_count v' = Suc (accepted_count v) + n"
    using same_credential_trans[OF same_credential_spend[of c ?p]] by blast
  then show ?case
    using pres ins by (simp add: upt_conv_Cons del: upt_Suc)
qed

section \<open>Properties\<close>

text \<open>C1: the rate limit. Take any verifier over any store that keeps the contract of \<open>TagStore\<close>, and any
  sequence of requests, honest or not, serialized in any order. In one credential context and one
  presentation context, with limits of at most \<open>L\<close>, it accepts at most \<open>L\<close> presentations for each secret
  that some authentic credential of this issuer holds.\<close>

theorem rate_limit:
  assumes "setting D emb system_holds" and "proof_sound D emb system_holds"
    and "genuine D (ver_public v)" and "tag_store insert_if_absent recorded"
    and "verify_all D insert_if_absent reqs v = (rs, v')"
    and "\<forall>(ch, pres)\<in>set reqs. length (pres_tag pres) = 32 \<and>
           (ch_credential_context ch = cctx \<and> ch_presentation_context ch = pctx \<longrightarrow> unat (ch_limit ch) \<le> L)"
  shows "length (accepted_tags cctx pctx reqs rs) \<le> card (authentic_secrets D (ver_public v) cctx) * L"
  by (rule accepted_tags_bound[OF assms(1-3,5,4,6)])

text \<open>Every accepted tag counts. Whatever the verifier is asked, the pairs of scope and tag it accepts
  are distinct, none of them was recorded before, all of them are recorded afterwards, and nothing
  recorded is forgotten.\<close>

theorem accepted_once:
  assumes "tag_store insert_if_absent recorded" and "verify_all D insert_if_absent reqs v = (rs, v')"
  shows "distinct (accepted rs) \<and> set (accepted rs) \<inter> recorded (ver_store v) = {} \<and>
    set (accepted rs) \<subseteq> recorded (ver_store v') \<and> recorded (ver_store v) \<subseteq> recorded (ver_store v')"
  by (rule tag_store.accepted_fresh[OF assms])


section \<open>The first presentation\<close>

lemma fresh_guard:
  assumes "slice_laws D" and "credential_valid D public c" and "cred_next_nonces c = []"
    and "ch_credential_context ch = cred_credential_context c" and "ch_limit ch \<noteq> 0"
  shows "present_guard public ch c = None"
  using assms verify_credential_iff[OF assms(1), of public c]
  by (simp add: present_guard_None credential_valid_def next_nonce_def bt_get_def context_count_def
      MAX_PRESENTATION_CONTEXTS_def word_neq_0_conv)

text \<open>A presentation from a fresh credential is accepted by a fresh verifier.\<close>

lemma first_presentation:
  assumes st: "setting D emb system_holds" and complete: "proof_complete D emb system_holds"
    and gen: "genuine D public" and valid: "credential_valid D public c" and "cred_next_nonces c = []"
    and "ch_credential_context ch = cred_credential_context c" and "ch_limit ch \<noteq> 0"
  obtains pres c' r' x v' where "present D public ch c r = Some (Inr pres, c', r')"
    "verify_proof_only D public ch pres = Inr x"
    "verifier_verify D memory_insert_if_absent ch pres (verifier_new public) = (Inr x, v')" "vp_tag x = pres_tag pres"
proof -
  from present_succeeds[OF st gen complete valid fresh_guard[OF settingD(2)[OF st] valid assms(5-7)]]
  obtain p r' where run: "present D public ch c r = Some (Inr \<lparr>pres_tag = present_tag D c ch, pres_proof = p\<rparr>,
       spend (ch_presentation_context ch) c, r')"
    and ver: "verify_proof_only D public ch \<lparr>pres_tag = present_tag D c ch, pres_proof = p\<rparr> =
       Inr \<lparr>vp_scope = pscope D public (ch_credential_context ch) (ch_presentation_context ch),
            vp_tag = present_tag D c ch\<rparr>"
    by blast
  show thesis
    by (rule that[OF run ver])
      (simp_all add: verifier_verify_def verifier_new_def memory_default_def ver memory_insert_if_absent_def)
qed

section \<open>Concrete runs\<close>

lemma demo_accept:
  obtains pres x v' where
    "verify_all demo_deps memory_insert_if_absent [(demo_challenge 1, pres), (demo_challenge 1, pres)]
       (verifier_new demo_public) = ([Inr x, Inl TagAlreadyUsed], v')" and "length (pres_tag pres) = 32"
proof -
  obtain p r' where
    ver: "verify_proof_only demo_deps demo_public (demo_challenge 1)
       \<lparr>pres_tag = present_tag demo_deps (demo_credential []) (demo_challenge 1), pres_proof = p\<rparr> =
       Inr \<lparr>vp_scope = pscope demo_deps demo_public (CredentialContext (replicate 32 2)) (PresentationContext (replicate 32 7)),
            vp_tag = present_tag demo_deps (demo_credential []) (demo_challenge 1)\<rparr>"
    by (rule demo_present[of 1 9]) simp_all
  let ?pres = "\<lparr>pres_tag = present_tag demo_deps (demo_credential []) (demo_challenge 1), pres_proof = p\<rparr>"
  obtain x v' where "verify_all demo_deps memory_insert_if_absent [(demo_challenge 1, ?pres), (demo_challenge 1, ?pres)]
       (verifier_new demo_public) = ([Inr x, Inl TagAlreadyUsed], v')"
    by (simp add: verifier_verify_def verifier_new_def memory_default_def ver memory_insert_if_absent_def)
  then show thesis
    by (rule that) (simp add: present_tag_def)
qed

theorem rate_limit_witness:
  "\<exists>reqs rs v'. verify_all demo_deps memory_insert_if_absent reqs (verifier_new demo_public) = (rs, v') \<and>
     length (accepted_tags (CredentialContext (replicate 32 2)) (PresentationContext (replicate 32 7)) reqs rs) = 1 \<and>
     1 \<le> card (authentic_secrets demo_deps demo_public (CredentialContext (replicate 32 2))) * 1"
proof -
  obtain pres x v' where run: "verify_all demo_deps memory_insert_if_absent
      [(demo_challenge 1, pres), (demo_challenge 1, pres)] (verifier_new demo_public) = ([Inr x, Inl TagAlreadyUsed], v')"
    and len: "length (pres_tag pres) = 32"
    by (rule demo_accept)
  have pub: "ver_public (verifier_new demo_public) = demo_public" by (simp add: verifier_new_def)
  have gen: "genuine demo_deps (ver_public (verifier_new demo_public))" by (simp add: pub demo_genuine)
  have lim: "\<forall>(ch, pres)\<in>set [(demo_challenge 1, pres), (demo_challenge 1, pres)]. length (pres_tag pres) = 32 \<and>
      (ch_credential_context ch = CredentialContext (replicate 32 2) \<and>
       ch_presentation_context ch = PresentationContext (replicate 32 7) \<longrightarrow> unat (ch_limit ch) \<le> 1)"
    by (simp add: len)
  have one: "length (accepted_tags (CredentialContext (replicate 32 2)) (PresentationContext (replicate 32 7))
     [(demo_challenge 1, pres), (demo_challenge 1, pres)] [Inr x, Inl TagAlreadyUsed]) = 1" by simp
  note bound = rate_limit[OF demo_setting demo_proof_laws(1) gen mem.tag_store_axioms run lim, unfolded one pub]
  from run one bound show ?thesis by blast
qed

theorem accepted_once_witness:
  "\<exists>reqs rs v'. verify_all demo_deps memory_insert_if_absent reqs (verifier_new demo_public) = (rs, v') \<and>
     length (accepted rs) = 1 \<and> set (accepted rs) \<subseteq> tags (ver_store v')"
proof -
  obtain pres x v' where run: "verify_all demo_deps memory_insert_if_absent
      [(demo_challenge 1, pres), (demo_challenge 1, pres)] (verifier_new demo_public) = ([Inr x, Inl TagAlreadyUsed], v')"
    by (rule demo_accept)
  have one: "length (accepted [Inr x, Inl TagAlreadyUsed]) = 1" by simp
  show ?thesis
    using accepted_once[OF mem.tag_store_axioms run] run one by blast
qed


section \<open>Outcomes, rollback and the zero limit\<close>

text \<open>The verifier over \<open>MemoryTagStore\<close>, on every branch. A presentation whose proof fails changes
  nothing; one whose pair of scope and tag is already recorded is refused and changes nothing; every
  other one is accepted, recorded, and raises the count by one.\<close>

lemma verifier_outcomes:
  assumes "finite (tags (ver_store v))"
  shows "verifier_verify D memory_insert_if_absent ch pres v =
    (case verify_proof_only D (ver_public v) ch pres of
       Inl e \<Rightarrow> (Inl e, v)
     | Inr x \<Rightarrow>
         if (vp_scope x, vp_tag x) \<in> tags (ver_store v) then (Inl TagAlreadyUsed, v)
         else (Inr x, v\<lparr>ver_store := \<lparr>tags = insert (vp_scope x, vp_tag x) (tags (ver_store v))\<rparr>\<rparr>)) \<and>
    accepted_count (snd (verifier_verify D memory_insert_if_absent ch pres v)) =
      accepted_count v + (if isl (fst (verifier_verify D memory_insert_if_absent ch pres v)) then 0 else 1)"
  using assms
  by (cases v; cases "ver_store v")
     (auto simp: verifier_verify_def memory_insert_if_absent_def accepted_count_def memory_len_def Let_def insert_absorb
       split: sum.split)

lemma verify_proof_only_pair:
  "verify_proof_only D public ch pres = Inr y \<Longrightarrow>
     vp_scope y = pscope D public (ch_credential_context ch) (ch_presentation_context ch) \<and> vp_tag y = pres_tag pres"
  by (auto simp: verify_proof_only_eq split: if_splits sum.splits)

text \<open>C37: a rolled-back credential is detected. Two credentials with the same secret (an older copy, one
  whose counters were stripped, one from a second response to the same request) that are presented at
  the same counter of the same context show the same tag, whatever the limits and bindings of the two
  challenges; after the first was accepted, and whatever the verifier was asked in between, the second
  is refused.\<close>

theorem rollback_detected:
  assumes "tag_store insert_if_absent recorded" and "cred_secret c1 = cred_secret c2"
    and "present D public ch1 c1 r1 = Some (Inr pres1, c1', r1')"
    and "present D public ch2 c2 r2 = Some (Inr pres2, c2', r2')"
    and "ch_credential_context ch1 = ch_credential_context ch2"
    and "ch_presentation_context ch1 = ch_presentation_context ch2"
    and "spent c1 (ch_presentation_context ch1) = spent c2 (ch_presentation_context ch1)"
    and "verifier_verify D insert_if_absent ch1 pres1 v = (Inr x, v1)"
    and "verify_all D insert_if_absent reqs v1 = (rs, v2)"
  shows "pres_tag pres1 = pres_tag pres2 \<and> isl (fst (verifier_verify D insert_if_absent ch2 pres2 v2))"
proof -
  note s1 = present_Inr[OF assms(3)] and s2 = present_Inr[OF assms(4)]
  have nonce: "next_nonce c1 (ch_presentation_context ch1) = next_nonce c2 (ch_presentation_context ch2)"
    using assms(6,7) by (simp add: spent_def word_unat_eq_iff)
  have tag: "pres_tag pres1 = pres_tag pres2"
    unfolding s1(3) s2(3) present_tag_eq[OF s1(1)] present_tag_eq[OF s2(1)] nonce by (simp add: assms(2,5,6))
  have pub: "ver_public v2 = ver_public v"
    using verifier_verify_public[OF assms(8)] verify_all_public[OF assms(9)] by simp
  note first = tag_store.verify_Inr[OF assms(1,8)]
  have rec: "(vp_scope x, vp_tag x) \<in> recorded (ver_store v2)"
    using first(3) tag_store.accepted_fresh[OF assms(1,9)] by blast
  have "\<not> (\<exists>y w. verifier_verify D insert_if_absent ch2 pres2 v2 = (Inr y, w))"
  proof
    assume "\<exists>y w. verifier_verify D insert_if_absent ch2 pres2 v2 = (Inr y, w)"
    then obtain y w where "verifier_verify D insert_if_absent ch2 pres2 v2 = (Inr y, w)" by blast
    note second = tag_store.verify_Inr(1,2)[OF assms(1) this]
    show False
      using second(2) rec verify_proof_only_pair[OF second(1)] verify_proof_only_pair[OF first(1)] assms(5,6) tag pub by simp
  qed
  then have "isl (fst (verifier_verify D insert_if_absent ch2 pres2 v2))"
    by (metis isl_def prod.collapse sum.exhaust)
  with tag show ?thesis by simp
qed

theorem rollback_detected_witness:
  "\<exists>pres1 pres2 x v1. verifier_verify demo_deps memory_insert_if_absent (demo_challenge 1) pres1 (verifier_new demo_public) =
       (Inr x, v1) \<and> pres_tag pres1 = pres_tag pres2 \<and>
     isl (fst (verifier_verify demo_deps memory_insert_if_absent (demo_challenge 2) pres2 v1))"
proof -
  obtain p r' where
    run: "present demo_deps demo_public (demo_challenge 1) (demo_credential []) 9 =
       Some (Inr \<lparr>pres_tag = present_tag demo_deps (demo_credential []) (demo_challenge 1), pres_proof = p\<rparr>,
         spend (PresentationContext (replicate 32 7)) (demo_credential []), r')"
    and ver: "verify_proof_only demo_deps demo_public (demo_challenge 1)
       \<lparr>pres_tag = present_tag demo_deps (demo_credential []) (demo_challenge 1), pres_proof = p\<rparr> =
       Inr \<lparr>vp_scope = pscope demo_deps demo_public (CredentialContext (replicate 32 2)) (PresentationContext (replicate 32 7)),
            vp_tag = present_tag demo_deps (demo_credential []) (demo_challenge 1)\<rparr>"
    by (rule demo_present[of 1 9]) simp_all
  obtain q r'' where
    run2: "present demo_deps demo_public (demo_challenge 2) (demo_credential []) 9 =
       Some (Inr \<lparr>pres_tag = present_tag demo_deps (demo_credential []) (demo_challenge 2), pres_proof = q\<rparr>,
         spend (PresentationContext (replicate 32 7)) (demo_credential []), r'')"
    by (rule demo_present[of 2 9]) simp_all
  obtain x v1 where first: "verifier_verify demo_deps memory_insert_if_absent (demo_challenge 1)
      \<lparr>pres_tag = present_tag demo_deps (demo_credential []) (demo_challenge 1), pres_proof = p\<rparr>
      (verifier_new demo_public) = (Inr x, v1)"
    by (simp add: verifier_verify_def verifier_new_def memory_default_def ver memory_insert_if_absent_def)
  have none: "verify_all demo_deps memory_insert_if_absent [] v1 = ([], v1)" by simp
  have same: "ch_credential_context (demo_challenge 1) = ch_credential_context (demo_challenge 2)"
    "ch_presentation_context (demo_challenge 1) = ch_presentation_context (demo_challenge 2)" by simp_all
  note both = rollback_detected[OF mem.tag_store_axioms refl run run2 same refl first none]
  from first both show ?thesis by blast
qed

text \<open>A zero limit is refused everywhere: the constructor of a challenge, \<open>present\<close>, \<open>verify_proof_only\<close>
  and the circuit each reject it on their own, so a challenge that was decoded or built by hand gains
  nothing.\<close>

lemma zero_limit_refused:
  "challenge_new cctx pctx 0 binding = Inl InvalidPresentationLimit \<and>
   verify_proof_only D public (ch\<lparr>ch_limit := 0\<rparr>) pres = Inl InvalidPresentationLimit \<and>
   (\<exists>e. present D public (ch\<lparr>ch_limit := 0\<rparr>) c r = Some (Inl e, c, r)) \<and>
   fst (run_state (presentation_build B S emb (C\<lparr>pc_presentation_limit := 0\<rparr>)) s) = Inl InvalidParameters"
  by (simp add: challenge_new_def verify_proof_only_def present_def presentation_build_def)

end
