(* ===== verification/Binding.thy ===== *)
theory Binding
  imports Flows
begin

text \<open>
  What the hash inputs and the proof statements bind: the framing of \<open>src/src/context.rs\<close>, the messages
  of \<open>src/src/circuit.rs\<close> and the statements of \<open>src/src/protocol.rs\<close> are injective, and inputs of different
  purposes never coincide. Where a digest stands in for its input, the one exception (a collision of the
  hash) is part of the statement.
\<close>

section \<open>Statements\<close>

lemma append_fixed: "length a = length b \<Longrightarrow> a @ x = b @ y \<longleftrightarrow> a = b \<and> x = y"
  by (rule append_eq_append_conv) (rule disjI1)

lemma framed_append:
  assumes "small c" and "small c'"
  shows "len_u64 c @ c @ r = len_u64 c' @ c' @ r' \<longleftrightarrow> c = c' \<and> r = r'"
  using assms by (auto simp: append_fixed len_u64_inject small_def)

lemma domains_differ:
  "ISSUE_STATEMENT @ x \<noteq> PRESENTATION_STATEMENT @ y"
  "CREDENTIAL_DOMAIN @ x \<noteq> SIGNED_CREDENTIAL_DOMAIN @ y"
  "CREDENTIAL_DOMAIN @ x \<noteq> TAG_DOMAIN @ y"
  "SIGNED_CREDENTIAL_DOMAIN @ x \<noteq> TAG_DOMAIN @ y"
  "PRESENTATION_SCOPE_DOMAIN @ x \<noteq> PRESENTATION_CONTEXT_DOMAIN @ y"
  "CREDENTIAL_CONTEXT_DOMAIN @ x \<noteq> PRESENTATION_CONTEXT_DOMAIN @ y"
  "CREDENTIAL_CONTEXT_DOMAIN @ x \<noteq> PRESENTATION_SCOPE_DOMAIN @ y"
  "CREDENTIAL_CONTEXT_DOMAIN @ x \<noteq> PRESENTATION_BINDING_DOMAIN @ y"
  "PRESENTATION_CONTEXT_DOMAIN @ x \<noteq> PRESENTATION_BINDING_DOMAIN @ y"
  "PRESENTATION_SCOPE_DOMAIN @ x \<noteq> PRESENTATION_BINDING_DOMAIN @ y"
  by (simp_all add: ascii_def ISSUE_STATEMENT_def PRESENTATION_STATEMENT_def CREDENTIAL_DOMAIN_def
      SIGNED_CREDENTIAL_DOMAIN_def TAG_DOMAIN_def PRESENTATION_SCOPE_DOMAIN_def PRESENTATION_CONTEXT_DOMAIN_def
      CREDENTIAL_CONTEXT_DOMAIN_def PRESENTATION_BINDING_DOMAIN_def)

lemma presentation_statement_eq:
  "presentation_statement S ic ch tag =
     PRESENTATION_STATEMENT @ len_u64 (P_NAME (mp S)) @ P_NAME (mp S) @ ic @
     credential_digest (ch_credential_context ch) @ presentation_digest (ch_presentation_context ch) @
     u32_to_le (ch_limit ch) @ binding_digest (ch_binding ch) @ tag"
  by (simp add: presentation_statement_def encode_bytes_def Let_def)

lemma issue_statement_eq:
  "issue_statement S ic cc cm =
     ISSUE_STATEMENT @ len_u64 (P_NAME (mp S)) @ P_NAME (mp S) @ ic @ cc @ len_u64 cm @ map (gf16_to_u8 S) cm"
  by (simp add: issue_statement_def encode_bytes_def encode_target_def Let_def)

text \<open>A challenge as the Rust types have it: three 32-byte digests.\<close>

definition challenge_sized :: "presentation_challenge \<Rightarrow> bool" where
  "challenge_sized ch \<longleftrightarrow> length (credential_digest (ch_credential_context ch)) = 32 \<and>
     length (presentation_digest (ch_presentation_context ch)) = 32 \<and> length (binding_digest (ch_binding ch)) = 32"

lemma challenge_eqI:
  "credential_digest (ch_credential_context ch) = credential_digest (ch_credential_context ch') \<Longrightarrow>
   presentation_digest (ch_presentation_context ch) = presentation_digest (ch_presentation_context ch') \<Longrightarrow>
   binding_digest (ch_binding ch) = binding_digest (ch_binding ch') \<Longrightarrow>
   ch_limit ch = ch_limit ch' \<Longrightarrow> ch = (ch' :: presentation_challenge)"
  by (cases ch; cases ch')
    (auto intro: credential_context.expand presentation_context.expand presentation_binding.expand)

lemma issuer_context_message_eq:
  "issuer_context_message D app pkh profile = ascii ''VOLE-ARC/issuer-context/v1'' @ len_u64 app @ app @
      pkh @ P_NAME (mp D) @ u64_to_le 32 @ u64_to_le (vp_tau (profile_params (vole D) profile)) @
      u64_to_le (vp_k (profile_params (vole D) profile))"
  by (simp add: issuer_context_message_def Let_def)

lemma presentation_statement_inject:
  assumes "small (P_NAME (mp S))" and "small (P_NAME (mp S'))"
    and "length ic = 32" and "length ic' = 32" and "challenge_sized ch" and "challenge_sized ch'"
  shows "presentation_statement S ic ch tag = presentation_statement S' ic' ch' tag' \<longleftrightarrow>
      P_NAME (mp S) = P_NAME (mp S') \<and> ic = ic' \<and> ch = ch' \<and> tag = tag'"
  unfolding presentation_statement_eq same_append_eq framed_append[OF assms(1,2)]
  using assms(3-6) by (auto simp: challenge_sized_def append_fixed intro: challenge_eqI)

lemma issue_statement_inject:
  assumes "gf16_laws S" and "length ic = 32" and "length ic' = 32" and "length cc = 32" and "length cc' = 32"
    and "length cm < 2 ^ 64" and "length cm' < 2 ^ 64"
  shows "issue_statement S ic cc cm = issue_statement S ic' cc' cm' \<longleftrightarrow> ic = ic' \<and> cc = cc' \<and> cm = cm'"
proof -
  have "inj (gf16_to_u8 S)" using gf16_lawsD(3)[OF assms(1)] by (rule inj_on_inverseI)
  with assms show ?thesis
    by (auto simp: issue_statement_eq append_fixed inj_map_eq_map)
qed

lemma statements_separate: "presentation_statement S ic ch tag \<noteq> issue_statement S' ic' cc cm"
  by (metis presentation_statement_eq issue_statement_eq domains_differ(1))

section \<open>Properties\<close>

text \<open>The statement of a presentation proof binds everything the proof must not be moved away from.
  Two statements are equal only for the same parameter set name, issuer context, challenge (credential
  context, presentation context, limit, request binding) and tag; and no statement of an issuance is a
  statement of a presentation, so a proof cannot be replayed across the two.\<close>

theorem presentation_statement_binds:
  assumes "small (P_NAME (mp S))" and "small (P_NAME (mp S'))"
    and "length ic = 32" and "length ic' = 32" and "challenge_sized ch" and "challenge_sized ch'"
  shows "(presentation_statement S ic ch tag = presentation_statement S' ic' ch' tag' \<longleftrightarrow>
      P_NAME (mp S) = P_NAME (mp S') \<and> ic = ic' \<and> ch = ch' \<and> tag = tag') \<and>
    presentation_statement S ic ch tag \<noteq> issue_statement S' ic' cc cm"
proof
  show "presentation_statement S ic ch tag = presentation_statement S' ic' ch' tag' \<longleftrightarrow>
      P_NAME (mp S) = P_NAME (mp S') \<and> ic = ic' \<and> ch = ch' \<and> tag = tag'"
    by (rule presentation_statement_inject[OF assms])
qed (rule statements_separate)

theorem presentation_statement_binds_witness:
  "presentation_statement demo_suite (replicate 32 1) (demo_challenge 1) [9] \<noteq>
     presentation_statement demo_suite (replicate 32 1) (demo_challenge 2) [9] \<and>
   presentation_statement demo_suite (replicate 32 1) (demo_challenge 1) [9] \<noteq>
     issue_statement demo_suite (replicate 32 1) (replicate 32 2) [3]"
proof -
  have "small (P_NAME (mp demo_suite))" by (simp add: small_def demo_params_def)
  moreover have "length (replicate 32 (1 :: byte)) = 32" by simp
  moreover have "challenge_sized (demo_challenge l)" for l
    by (simp add: challenge_sized_def) (simp add: demo_challenge_def)
  moreover have "demo_challenge 1 \<noteq> demo_challenge 2" by (simp add: demo_challenge_def)
  ultimately show ?thesis
    using presentation_statement_binds[of demo_suite demo_suite "replicate 32 1" "replicate 32 1"
        "demo_challenge 1" "demo_challenge 2" "[9]" "[9]" "replicate 32 2" "[3]"] by blast
qed

text \<open>The statement of an issuance proof binds the parameter set name, the issuer context, the
  credential context and the commitment.\<close>

theorem issue_statement_binds:
  assumes "gf16_laws S" and "length ic = 32" and "length ic' = 32" and "length cc = 32" and "length cc' = 32"
    and "length cm < 2 ^ 64" and "length cm' < 2 ^ 64"
  shows "issue_statement S ic cc cm = issue_statement S ic' cc' cm' \<longleftrightarrow> ic = ic' \<and> cc = cc' \<and> cm = cm'"
  by (rule issue_statement_inject[OF assms])

theorem issue_statement_binds_witness:
  "issue_statement demo_suite (replicate 32 1) (replicate 32 2) [3, 4] \<noteq>
   issue_statement demo_suite (replicate 32 1) (replicate 32 2) [3, 5]"
  using issue_statement_binds[OF demo_laws, of "replicate 32 1" "replicate 32 1" "replicate 32 2" "replicate 32 2"
      "[3, 4]" "[3, 5]"] by simp

text \<open>C30: contexts are framed injectively. Two relying-party scopes give the same presentation context
  only when party, purpose and epoch (also its absence) are the same, or two different inputs collide
  under SHAKE256; the context of plain application data, a scoped one, a credential context and a
  request binding never share a hash input.\<close>

theorem contexts_bind:
  assumes "small rp" and "small purpose" and "small rp'" and "small purpose'"
    and "\<forall>b. epoch = Some b \<longrightarrow> small b" and "\<forall>b. epoch' = Some b \<longrightarrow> small b"
  shows "(scoped xof rp purpose epoch = scoped xof rp' purpose' epoch' \<longleftrightarrow>
      (rp = rp' \<and> purpose = purpose' \<and> epoch = epoch') \<or>
      collides xof (frame_message PRESENTATION_SCOPE_DOMAIN (scoped_components rp purpose epoch))
                   (frame_message PRESENTATION_SCOPE_DOMAIN (scoped_components rp' purpose' epoch'))) \<and>
    (scoped xof rp purpose epoch = presentation_context_new xof app \<longleftrightarrow>
      collides xof (frame_message PRESENTATION_SCOPE_DOMAIN (scoped_components rp purpose epoch))
                   (frame_message PRESENTATION_CONTEXT_DOMAIN [app]))"
proof
  have small: "\<forall>c\<in>set (scoped_components rp purpose epoch) \<union> set (scoped_components rp' purpose' epoch'). small c"
    using assms by (blast intro: small_scoped_components)
  show "scoped xof rp purpose epoch = scoped xof rp' purpose' epoch' \<longleftrightarrow>
      (rp = rp' \<and> purpose = purpose' \<and> epoch = epoch') \<or>
      collides xof (frame_message PRESENTATION_SCOPE_DOMAIN (scoped_components rp purpose epoch))
                   (frame_message PRESENTATION_SCOPE_DOMAIN (scoped_components rp' purpose' epoch'))"
    by (simp add: scoped_def hash_framed_def digest_eq_iff frame_message_inject[OF small] scoped_components_inject)
  have "frame_message PRESENTATION_SCOPE_DOMAIN cs \<noteq> frame_message PRESENTATION_CONTEXT_DOMAIN ds" for cs ds
    by (simp only: frame_message_eq domains_differ not_False_eq_True)
  then show "scoped xof rp purpose epoch = presentation_context_new xof app \<longleftrightarrow>
      collides xof (frame_message PRESENTATION_SCOPE_DOMAIN (scoped_components rp purpose epoch))
                   (frame_message PRESENTATION_CONTEXT_DOMAIN [app])"
    by (simp add: scoped_def presentation_context_new_def hash_framed_def digest_eq_iff)
qed

theorem contexts_bind_witness:
  "scoped shake256 [1, 2] [3] None = scoped shake256 [1] [2, 3] None \<longleftrightarrow>
     collides shake256 (frame_message PRESENTATION_SCOPE_DOMAIN (scoped_components [1, 2] [3] None))
                       (frame_message PRESENTATION_SCOPE_DOMAIN (scoped_components [1] [2, 3] None))"
proof -
  have "small [1, 2]" "small [3]" "small [1]" "small [2, 3]"
    "\<forall>b. None = Some b \<longrightarrow> small b" "\<forall>b. None = Some b \<longrightarrow> small b"
    by (simp_all add: small_def)
  from contexts_bind[OF this, of shake256 "[]"] show ?thesis by simp
qed

text \<open>C29: the hash inputs of the relations are separated and injective. The messages of the commitment, of
  the salted commitment and of the tag never coincide, and two tags are equal only for the same secret,
  scope and counter, or when two different messages collide under SHAKE256.\<close>

theorem hash_inputs_separate:
  assumes "length k = 32" and "length k' = 32" and "length sc = 32" and "length sc' = 32"
  shows "credential_message sc1 k1 h1 \<noteq> signed_credential_message S cm t \<and>
    credential_message sc1 k1 h1 \<noteq> tag_message k2 sc2 n2 \<and>
    signed_credential_message S cm t \<noteq> tag_message k2 sc2 n2 \<and>
    (derive_tag k sc n = derive_tag k' sc' n' \<longleftrightarrow>
       (k = k' \<and> sc = sc' \<and> n = n') \<or> collides shake256 (tag_message k sc n) (tag_message k' sc' n'))"
proof -
  have "tag_message k sc n = tag_message k' sc' n' \<longleftrightarrow> k = k' \<and> sc = sc' \<and> n = n'"
    using assms by (simp add: tag_message_def append_fixed)
  then show ?thesis
    using domains_differ
    by (simp add: derive_tag_def digest_eq_iff credential_message_def signed_credential_message_def tag_message_def)
qed

theorem hash_inputs_separate_witness:
  "derive_tag (replicate 32 1) (replicate 32 2) 3 = derive_tag (replicate 32 1) (replicate 32 2) 4 \<longleftrightarrow>
     collides shake256 (tag_message (replicate 32 1) (replicate 32 2) 3) (tag_message (replicate 32 1) (replicate 32 2) 4)"
proof -
  have len: "length (replicate 32 (x :: byte)) = 32" for x by simp
  note hash_inputs_separate[OF len len len len, THEN conjunct2, THEN conjunct2, THEN conjunct2, of 1 2 3 1 2 4]
  then show ?thesis by simp
qed

text \<open>C31: the issuer context binds the issuer. Two issuers have the same context only when application
  context, public key hash, parameter set name and the two parameters of the performance profile agree,
  or two different hash inputs collide.\<close>

theorem issuer_context_binds:
  assumes "small app" and "small app'" and "length pkh = 32" and "length pkh' = 32" and "sha3 D = sha3 D'"
  shows "derive_issuer_context D app pkh profile = derive_issuer_context D' app' pkh' profile' \<longleftrightarrow>
    (app = app' \<and> pkh = pkh' \<and> P_NAME (mp D) = P_NAME (mp D') \<and>
     vp_tau (profile_params (vole D) profile) = vp_tau (profile_params (vole D') profile') \<and>
     vp_k (profile_params (vole D) profile) = vp_k (profile_params (vole D') profile')) \<or>
    collides (sha3 D) (issuer_context_message D app pkh profile) (issuer_context_message D' app' pkh' profile')"
proof -
  have "issuer_context_message D app pkh profile = issuer_context_message D' app' pkh' profile' \<longleftrightarrow>
    (app = app' \<and> pkh = pkh' \<and> P_NAME (mp D) = P_NAME (mp D') \<and>
     vp_tau (profile_params (vole D) profile) = vp_tau (profile_params (vole D') profile') \<and>
     vp_k (profile_params (vole D) profile) = vp_k (profile_params (vole D') profile'))"
    unfolding issuer_context_message_eq same_append_eq framed_append[OF assms(1,2)]
    using assms(3,4) by (auto simp: append_fixed append_eq_append_conv)
  then show ?thesis
    by (simp add: derive_issuer_context_def digest_eq_iff flip: assms(5))
qed

theorem issuer_context_binds_witness:
  "derive_issuer_context demo_deps [1] (replicate 32 2) Balanced =
     derive_issuer_context demo_deps [1] (replicate 32 2) Compact \<longleftrightarrow>
   collides shake256 (issuer_context_message demo_deps [1] (replicate 32 2) Balanced)
     (issuer_context_message demo_deps [1] (replicate 32 2) Compact)"
proof -
  have small: "small [1]" by (simp add: small_def)
  have len: "length (replicate 32 (2 :: byte)) = 32" by simp
  have "vole demo_deps = demo_vole" by (simp add: demo_deps_def suite.defs gf16_ops.defs)
  then have "vp_tau (profile_params (vole demo_deps) Balanced) \<noteq> vp_tau (profile_params (vole demo_deps) Compact)"
    by (simp add: demo_vole_def)
  with issuer_context_binds[OF small small len len refl, of demo_deps Balanced Compact] show ?thesis by simp
qed

end
