(* ===== verification/PrefixFree.thy ===== *)
theory PrefixFree imports Artifacts begin

text \<open>
  The encodings of \<open>src/src/protocol.rs\<close> are prefix-free: every decoder reads the same bytes whatever
  follows them, and each ends with \<open>Decoder::finish\<close>, so of an accepted input no proper extension and no
  proper prefix is accepted. Each decoder is a chain of reads; the lemmas below go through such a chain
  one read at a time.
\<close>

section \<open>Reading on a longer input\<close>

definition extend :: "bytes \<Rightarrow> decoder \<Rightarrow> decoder" where
  "extend ys d = d\<lparr>dec_input := dec_input d @ ys\<rparr>"

text \<open>A read that succeeds gives the same value on every longer input.\<close>

definition steady :: "(decoder \<Rightarrow> wire_error + ('a \<times> decoder)) \<Rightarrow> bool" where
  "steady op \<longleftrightarrow> (\<forall>d v d' ys. op d = Inr (v, d') \<longrightarrow> op (extend ys d) = Inr (v, extend ys d'))"

text \<open>Not both inputs are accepted.\<close>

definition rejects :: "'e + 'a \<Rightarrow> 'e + 'b \<Rightarrow> bool" where
  "rejects r r' \<longleftrightarrow> (\<not> isl r \<longrightarrow> isl r')"

named_theorems prefix_intros

lemma steady_read [prefix_intros]:
  assumes "steady op" and "\<And>v. steady (f v)"
  shows "steady (\<lambda>d. rbind (op d) (\<lambda>(v, d). f v d))"
  using assms unfolding steady_def rbind_eq_Inr by fastforce

lemma steady_pure [prefix_intros]: "(\<And>v. steady (f v)) \<Longrightarrow> steady (\<lambda>d. rbind r (\<lambda>v. f v d))"
  unfolding steady_def rbind_eq_Inr by blast

lemma steady_Inr [prefix_intros]: "steady (\<lambda>d. Inr (v, d))"
  by (simp add: steady_def)

lemma steady_Inl [prefix_intros]: "steady (\<lambda>d. Inl e)"
  by (simp add: steady_def)

lemma steady_if [prefix_intros]: "steady f \<Longrightarrow> steady g \<Longrightarrow> steady (\<lambda>d. if b then f d else g d)"
  by (cases b) simp_all

lemma steady_take [prefix_intros]: "steady (dec_take n)"
  by (auto simp: steady_def extend_def dec_take_def checked_add_def split: option.splits if_splits)

lemma steady_array [prefix_intros]: "steady (dec_array n)"
  unfolding dec_array_def by (intro prefix_intros)

lemma steady_u8 [prefix_intros]: "steady dec_u8"
  unfolding dec_u8_def by (intro prefix_intros)

lemma steady_u32 [prefix_intros]: "steady dec_u32"
  unfolding dec_u32_def by (intro prefix_intros)

lemma steady_bytes [prefix_intros]: "steady dec_bytes"
  unfolding dec_bytes_def by (intro prefix_intros)

lemma steady_nibbles [prefix_intros]: "steady (dec_nibbles G n)"
  unfolding dec_nibbles_def by (intro prefix_intros)

lemma steady_counters [prefix_intros]: "steady (decode_counters n previous m)"
proof (induction n arbitrary: previous m)
  case 0
  have "decode_counters 0 previous m = (\<lambda>d. Inr (m, d))" by (simp add: fun_eq_iff)
  then show ?case by (simp add: steady_Inr)
next
  case (Suc n)
  show ?case unfolding decode_counters.simps(2)[abs_def] by (intro prefix_intros Suc)
qed

lemma rejects_read [prefix_intros]:
  assumes "steady op" and "\<And>v d. rejects (f v d) (f' v (extend ys d))"
  shows "rejects (rbind (op d) (\<lambda>(v, d). f v d)) (rbind (op (extend ys d)) (\<lambda>(v, d). f' v d))"
proof (cases "op d")
  case (Inr x)
  with assms show ?thesis by (cases x) (auto simp: steady_def)
qed (simp add: rejects_def)

lemma rejects_pure [prefix_intros]:
  "(\<And>v. rejects (f v) (f' v)) \<Longrightarrow> rejects (rbind r f) (rbind r f')"
  by (cases r) (auto simp: rejects_def)

lemma rejects_if [prefix_intros]:
  "rejects x x' \<Longrightarrow> rejects y y' \<Longrightarrow> rejects (if b then x else y) (if b then x' else y')"
  by simp

lemma rejects_Inl [prefix_intros]: "rejects (Inl e) r" "rejects r (Inl e)"
  by (simp_all add: rejects_def)

lemma rejects_finish [prefix_intros]:
  "ys \<noteq> [] \<Longrightarrow> rejects (rbind (dec_finish d) f) (rbind (dec_finish (extend ys d)) f')"
  by (auto simp: rejects_def dec_finish_def extend_def)

section \<open>The envelope\<close>

lemma rejects_new [prefix_intros]:
  assumes "\<And>d. rejects (f d) (f (extend ys d))"
  shows "rejects (rbind (decoder_new bs a p) f) (rbind (decoder_new (bs @ ys) a p) f)"
proof -
  have "extend ys \<lparr>dec_input = bs, dec_offset = 0\<rparr> = \<lparr>dec_input = bs @ ys, dec_offset = 0\<rparr>"
    by (simp add: extend_def)
  moreover have "steady (\<lambda>d. rbind (dec_take (length MAGIC) d) (\<lambda>(magic, d).
      if magic \<noteq> MAGIC then Inl InvalidEncoding
      else rbind (dec_u8 d) (\<lambda>(version, d).
        if version \<noteq> WIRE_VERSION then Inl UnsupportedVersion
        else rbind (dec_array 4 d) (\<lambda>(actual, d).
          if actual ! 0 \<noteq> a then Inl WrongArtifact
          else if actual ! 1 \<noteq> p then Inl WrongParameterSet
          else if drop 2 actual \<noteq> [0, 0] then Inl InvalidEncoding
          else Inr ((), d)))))" (is "steady ?read")
    by (intro prefix_intros)
  then have "rejects (rbind (?read \<lparr>dec_input = bs, dec_offset = 0\<rparr>) (\<lambda>(_, d). f d))
      (rbind (?read (extend ys \<lparr>dec_input = bs, dec_offset = 0\<rparr>)) (\<lambda>(_, d). f d))"
    using assms by (rule rejects_read)
  moreover have "rbind (decoder_new bs a p) f = (if length bs > MAX_WIRE_BYTES then Inl TooLarge
      else rbind (?read \<lparr>dec_input = bs, dec_offset = 0\<rparr>) (\<lambda>(_, d). f d))" for bs
    by (auto simp: decoder_new_def rbind_def split: sum.split)
  ultimately show ?thesis by (auto simp: rejects_def)
qed

section \<open>The artifacts\<close>

lemma rejects_Let [prefix_intros]: "rejects (f v) (f' v) \<Longrightarrow> rejects (let x = v in f x) (let x = v in f' x)"
  by (simp add: Let_def)

lemma decoders_reject:
  assumes "ys \<noteq> []"
  shows "rejects (public_key_from_bytes D bs) (public_key_from_bytes D (bs @ ys))"
    and "rejects (issuer_from_key_bytes D bs) (issuer_from_key_bytes D (bs @ ys))"
    and "rejects (request_from_bytes D bs) (request_from_bytes D (bs @ ys))"
    and "rejects (response_from_bytes S bs) (response_from_bytes S (bs @ ys))"
    and "rejects (pending_from_bytes S public bs) (pending_from_bytes S public (bs @ ys))"
    and "rejects (credential_from_bytes D public bs) (credential_from_bytes D public (bs @ ys))"
    and "rejects (presentation_from_bytes D bs) (presentation_from_bytes D (bs @ ys))"
  unfolding public_key_from_bytes_def issuer_from_key_bytes_def request_from_bytes_def
    response_from_bytes_def pending_from_bytes_def credential_from_bytes_def presentation_from_bytes_def
  by (intro prefix_intros assms)+

lemmas wire_ids = WIRE_PUBLIC_KEY_def WIRE_ISSUER_KEY_def WIRE_ISSUE_REQUEST_def WIRE_ISSUE_RESPONSE_def
  WIRE_PENDING_ISSUE_def WIRE_CREDENTIAL_def WIRE_PRESENTATION_def

text \<open>C39: the encodings are prefix-free. When a decoder accepts some bytes, no decoder of the same parameter
  set accepts them with anything appended, or a part of them from the start: so trailing data and
  truncation are always noticed, for all seven artifacts and whatever the other crates do.\<close>

theorem encodings_prefix_free:
  assumes "decodes_as D public i bs" and "decodes_as D public j (bs @ ys)"
  shows "i = j \<and> ys = []"
proof -
  obtain r r' where "bs = header [] i (P_WIRE_ID (mp D)) @ r" "bs @ ys = header [] j (P_WIRE_ID (mp D)) @ r'"
    using decodes_as_header[OF assms(1)] decodes_as_header[OF assms(2)] by blast
  then have "i = j" by (simp add: header_inject)
  have "ys = []"
  proof (rule ccontr)
    assume "ys \<noteq> []"
    note reject = decoders_reject[OF this, unfolded rejects_def, rule_format]
    from assms(1) consider
      "i = WIRE_PUBLIC_KEY" "\<not> isl (public_key_from_bytes D bs)" | "i = WIRE_ISSUER_KEY" "\<not> isl (issuer_from_key_bytes D bs)"
      | "i = WIRE_ISSUE_REQUEST" "\<not> isl (request_from_bytes D bs)" | "i = WIRE_ISSUE_RESPONSE" "\<not> isl (response_from_bytes D bs)"
      | "i = WIRE_PENDING_ISSUE" "\<not> isl (pending_from_bytes D public bs)" | "i = WIRE_CREDENTIAL" "\<not> isl (credential_from_bytes D public bs)"
      | "i = WIRE_PRESENTATION" "\<not> isl (presentation_from_bytes D bs)"
      unfolding decodes_as_def by blast
    then show False
      using assms(2) \<open>i = j\<close> by cases (simp_all add: decodes_as_def wire_ids reject)
  qed
  with \<open>i = j\<close> show ?thesis by simp
qed

theorem encodings_prefix_free_witness:
  "\<exists>bs. \<forall>i ys. decodes_as demo_deps demo_public i (bs @ ys) \<longleftrightarrow> i = WIRE_PUBLIC_KEY \<and> ys = []"
proof -
  obtain bs where here: "decodes_as demo_deps demo_public WIRE_PUBLIC_KEY bs" by (rule demo_decodes)
  then show ?thesis
    by (intro exI[of _ bs]) (auto dest: encodings_prefix_free[OF here])
qed

end
