(* ===== verification/Capacity.thy ===== *)
theory Capacity
  imports Artifacts
begin

text \<open>
  How much room the source reserves for what it builds (\<open>Vec::with_capacity\<close>), and how much it writes. The
  buffers of \<open>src/src/circuit.rs\<close> hold secrets and are wiped when they are dropped; one that had to grow
  could be moved, and its old block freed as it is. They never grow: each reservation is exact. The
  encoders of \<open>src/src/protocol.rs\<close> reserve estimates, and one of those that write secrets is short.
\<close>

section \<open>Reservations\<close>

definition KECCAK_CHECKPOINT_BITS :: nat where
  "KECCAK_CHECKPOINT_BITS = 6 * 1600"

definition credential_message_capacity :: nat where
  "credential_message_capacity = length CREDENTIAL_DOMAIN + 32 + SECRET_BYTES + HIDING_NONCE_BYTES"

definition signed_credential_message_capacity :: "bytes \<Rightarrow> nat" where
  "signed_credential_message_capacity packed = length SIGNED_CREDENTIAL_DOMAIN + length packed + SALT_BYTES"

definition tag_message_capacity :: nat where
  "tag_message_capacity = length TAG_DOMAIN + SECRET_BYTES + 32 + 4"

definition issue_witness_capacity :: nat where
  "issue_witness_capacity = (SECRET_BYTES + HIDING_NONCE_BYTES) * 8 + KECCAK_CHECKPOINT_BITS"

definition presentation_witness_capacity :: "('g, 'z) suite_scheme \<Rightarrow> nat" where
  "presentation_witness_capacity S =
     4 * P_KN (mp S) + (SECRET_BYTES + HIDING_NONCE_BYTES + SALT_BYTES) * 8 + 2 * PRESENTATION_NONCE_BITS
       + 3 * KECCAK_CHECKPOINT_BITS"

definition public_key_capacity ::
  "('g, 'pk, 'sk, 'sys, 'proof, 'rng, 'z) deps_scheme \<Rightarrow> ('pk, 'sys) public_key \<Rightarrow> nat" where
  "public_key_capacity D public = 16 + length (pub_application_context public) + length (pk_to_bytes D (pub_mayo public))"

definition issuer_key_capacity ::
  "('g, 'pk, 'sk, 'sys, 'proof, 'rng, 'z) deps_scheme \<Rightarrow> ('pk, 'sk, 'sys) issuer \<Rightarrow> nat" where
  "issuer_key_capacity D issuer =
     16 + length (pub_application_context (iss_public issuer)) + length (sk_to_bytes D (iss_secret issuer))"

definition pending_capacity :: nat where
  "pending_capacity = 144"

definition request_capacity ::
  "('g, 'pk, 'sk, 'sys, 'proof, 'rng, 'z) deps_scheme \<Rightarrow> ('g, 'proof) issue_request \<Rightarrow> nat" where
  "request_capacity D request =
     16 + div_ceil (length (req_commitment request)) 2 + length (proof_to_bytes D (req_proof request))"

definition response_capacity :: "'g issue_response \<Rightarrow> nat" where
  "response_capacity response = 16 + div_ceil (length (resp_signature response)) 2 + SALT_BYTES"

definition credential_capacity :: "'g credential \<Rightarrow> nat" where
  "credential_capacity cred = 160 + div_ceil (length (cred_signature cred)) 2 + 36 * length (cred_next_nonces cred)"

definition presentation_capacity ::
  "('g, 'pk, 'sk, 'sys, 'proof, 'rng, 'z) deps_scheme \<Rightarrow> 'proof presentation \<Rightarrow> nat" where
  "presentation_capacity D pres = 48 + length (proof_to_bytes D (pres_proof pres))"

section \<open>Witnesses\<close>

lemma length_append_checkpoints:
  "append_keccak_checkpoints w m = Some w' \<Longrightarrow> length w' = length w + 9600"
proof (cases "length m < 136")
  case True
  then show "append_keccak_checkpoints w m = Some w' \<Longrightarrow> length w' = length w + 9600"
    by (auto simp: append_keccak_checkpoints_eq simp del: upt_Suc)
qed (simp add: append_keccak_checkpoints_def pad_single_block_def RATE_BYTES_def)

lemma length_issue_witness:
  "issue_witness C k h = Some ws \<Longrightarrow> length ws = 8 * length k + 8 * length h + 9600"
  by (auto simp: issue_witness_def append_bits dest!: length_append_checkpoints)

lemma length_presentation_witness:
  "presentation_witness S C P = Some ws \<Longrightarrow>
     length ws = 4 * length (ps_signature P) + 8 * (length (ps_secret P) + length (ps_hiding_nonce P) + length (ps_salt P))
       + 64 + 28800"
  by (auto simp: presentation_witness_def Let_def append_bits append_u32_bits_eq append_less_than_carries_eq
      bind_eq_Some_conv simp del: upt_Suc dest!: length_append_checkpoints)

section \<open>Encodings\<close>

lemma length_put_bytes: "put_bytes out bs = Some z \<Longrightarrow> length z = length out + 4 + length bs"
  by (auto simp: put_bytes_def split: if_splits)

lemma length_enc_counters: "list_all counter_ok m \<Longrightarrow> length (enc_counters m) = 36 * length m"
  by (induction m) (auto simp: enc_counters_def counter_ok_def)

section \<open>Properties\<close>

text \<open>C32: the buffers that hold secrets never grow. The messages to be hashed and the witnesses of both
  circuits have exactly the length that is reserved for them, so no freed block keeps a copy that escapes
  being wiped.\<close>

theorem secret_buffers_exact:
  assumes "length scope = 32" and "length secret = 32" and "length hiding_nonce = 32" and "length salt = 32"
    and "length signature = P_KN (mp S)"
  shows "length (credential_message scope secret hiding_nonce) = credential_message_capacity \<and>
    length (signed_credential_message S commitment salt) = signed_credential_message_capacity (pack_gf16 S commitment) \<and>
    length (tag_message secret scope nonce) = tag_message_capacity \<and>
    (issue_witness I secret hiding_nonce = Some ws \<longrightarrow> length ws = issue_witness_capacity) \<and>
    (presentation_witness S C \<lparr>ps_signature = signature, ps_secret = secret, ps_hiding_nonce = hiding_nonce,
        ps_salt = salt, ps_presentation_nonce = nonce\<rparr> = Some ws' \<longrightarrow>
       length ws' = presentation_witness_capacity S)"
  using assms
  by (auto simp: credential_message_capacity_def signed_credential_message_capacity_def tag_message_capacity_def
      issue_witness_capacity_def presentation_witness_capacity_def KECCAK_CHECKPOINT_BITS_def SECRET_BYTES_def
      HIDING_NONCE_BYTES_def SALT_BYTES_def PRESENTATION_NONCE_BITS_def div_ceil_2 enc_len
      dest: length_issue_witness length_presentation_witness)

theorem secret_buffers_exact_witness:
  "\<exists>ws. issue_witness \<lparr>ic_credential_scope = replicate 32 1, ic_target = [] :: 4 word list\<rparr> (replicate 32 2) (replicate 32 3) = Some ws \<and>
     length ws = issue_witness_capacity"
proof -
  have "length (ic_credential_scope \<lparr>ic_credential_scope = replicate 32 1, ic_target = [] :: 4 word list\<rparr>) = 32" by simp
  from issue_witness_eq[OF this, of "replicate 32 2" "replicate 32 3"]
  obtain ws where ws: "issue_witness \<lparr>ic_credential_scope = replicate 32 1, ic_target = [] :: 4 word list\<rparr>
      (replicate 32 2) (replicate 32 3) = Some ws" by auto
  have "length (replicate 12 0 :: 4 word list) = P_KN (mp demo_suite)" by (simp add: demo_params_def)
  note exact = secret_buffers_exact[OF length_replicate length_replicate length_replicate length_replicate this,
      THEN conjunct2, THEN conjunct2, THEN conjunct2, THEN conjunct1, rule_format, OF ws]
  from ws exact show ?thesis by (intro exI conjI)
qed

text \<open>C33: what the encoders reserve. The encodings of a pending request, a request, a response and a
  presentation fit their reservation. Those of the two keys exceed it by two bytes, and that of a
  credential by thirteen, whatever its counters: the buffer of a credential always has to grow when the
  secret, the signature and the hiding nonce are in it, and a move leaves them in the freed block.\<close>

theorem encoders_reserve:
  assumes "pending_valid S public pending" and "length (resp_salt response) = 32" and "length (pres_tag pres) = 32"
    and "credential_valid D public c"
  shows "(issuer_key_bytes D issuer = Some b1 \<longrightarrow> length b1 = issuer_key_capacity D issuer + 2) \<and>
    (public_key_to_bytes D public = Some b2 \<longrightarrow> length b2 = public_key_capacity D public + 2) \<and>
    length (pending_to_bytes S pending) + 7 = pending_capacity \<and>
    (request_to_bytes D request = Some b3 \<longrightarrow> length b3 + 3 = request_capacity D request) \<and>
    (response_to_bytes S response = Some b4 \<longrightarrow> length b4 + 7 = response_capacity response) \<and>
    (presentation_to_bytes D pres = Some b5 \<longrightarrow> length b5 + 3 = presentation_capacity D pres) \<and>
    (credential_to_bytes D c = Some b6 \<longrightarrow> length b6 = credential_capacity c + 13)"
  using assms
  by (auto simp: issuer_key_bytes_def issuer_key_capacity_def public_key_to_bytes_def public_key_capacity_def
      pending_to_bytes_def pending_capacity_def pending_valid_def request_to_bytes_def request_capacity_def
      response_to_bytes_def response_capacity_def presentation_to_bytes_def presentation_capacity_def
      credential_to_bytes_def credential_capacity_def credential_valid_def enc_counters_fold length_enc_counters
      div_ceil_2 pack_nibbles_eq bind_eq_Some_conv SALT_BYTES_def Let_def dest!: length_put_bytes)

theorem encoders_reserve_witness:
  "\<exists>bs. credential_to_bytes demo_deps (demo_credential []) = Some bs \<and>
     length bs = credential_capacity (demo_credential []) + 13"
proof -
  let ?scope = "credential_scope shake256 (pub_context demo_public) (replicate 32 2)"
  let ?pending = "\<lparr>pend_issuer_context = pub_context demo_public, pend_credential_context = CredentialContext (replicate 32 2),
    pend_secret = replicate 32 3, pend_hiding_nonce = replicate 32 4,
    pend_commitment = credential_target demo_deps ?scope (replicate 32 3) (replicate 32 4)\<rparr>"
  have "pending_valid demo_deps demo_public ?pending" by (simp add: pending_valid_def)
  moreover have "length (resp_salt \<lparr>resp_signature = [] :: 4 word list, resp_salt = replicate 32 5\<rparr>) = 32"
    and "length (pres_tag \<lparr>pres_tag = replicate 32 6, pres_proof = []\<rparr>) = 32" by simp_all
  moreover have "credential_valid demo_deps demo_public (demo_credential [])"
    by (rule demo_credential_valid) simp_all
  moreover obtain bs where "credential_to_bytes demo_deps (demo_credential []) = Some bs"
    by (simp add: credential_to_bytes_def pack_nibbles_eq)
  ultimately show ?thesis using encoders_reserve by blast
qed

end
