(* ===== verification/Example.thy ===== *)
theory Example
  imports Accounting
 begin

text \<open>
  \<open>src/examples/scoped_rate_limit.rs\<close>: the program that puts the operations together, from a new issuer
  to an accepted presentation. An error that \<open>?\<close> propagates is \<open>Inl\<close>; a panic, of an operation or of
  the final assertion, is \<open>None\<close>.
\<close>

definition example_main ::
  "('g, 'pk, 'sk, 'sys, 'proof, 'rng, 'z) deps_scheme \<Rightarrow> 'rng \<Rightarrow> ((error + unit) \<times> 'rng) option" where
  "example_main D rng =
     Option.bind (generate D (ascii ''issuer.example/key-epoch-7'') rng) (\<lambda>(issuer, rng).
       let public = iss_public issuer;
           credential_context = credential_context_new (sha3 D) (ascii ''attestation/basic'')
       in Option.bind (prepare_issue D public credential_context rng) (\<lambda>(prepared, rng).
         case prepared of Inl e \<Rightarrow> Some (Inl e, rng) | Inr (pending, request) \<Rightarrow>
         (case issue D issuer request credential_context rng of (issued, rng) \<Rightarrow>
          case issued of Inl e \<Rightarrow> Some (Inl e, rng) | Inr response \<Rightarrow>
         (case finish D pending public request response of Inl e \<Rightarrow> Some (Inl e, rng) | Inr credential \<Rightarrow>
           let presentation_context = scoped (sha3 D) (ascii ''rp.example'') (ascii ''account-create'')
                 (Some (ascii ''epoch-42''))
           in (case challenge_new credential_context presentation_context 2
                  (presentation_binding_new (sha3 D) (ascii ''canonical request or challenge bytes'')) of
                 Inl e \<Rightarrow> Some (Inl e, rng)
               | Inr challenge \<Rightarrow>
                   Option.bind (present D public challenge credential rng) (\<lambda>(presented, credential, rng).
                   case presented of Inl e \<Rightarrow> Some (Inl e, rng) | Inr presentation \<Rightarrow>
                   (case verifier_verify D memory_insert_if_absent challenge presentation (verifier_new public) of
                     (result, verifier) \<Rightarrow>
                    case result of Inl e \<Rightarrow> Some (Inl e, rng) | Inr verified \<Rightarrow>
                      if vp_tag verified = pres_tag presentation then Some (Inr (), rng) else None)))))))"

text \<open>C9: the example program succeeds. Whatever the random generator gives, it runs to its end without a
  panic, its assertion included, and returns \<open>Ok\<close>, except that the preimage sampling of the trapdoor
  function may fail, which is the one error it can return.\<close>

theorem example_succeeds:
  assumes "setting D emb system_holds" and "proof_complete D emb system_holds"
  shows "\<exists>res r'. example_main D r = Some (res, r') \<and> (res = Inr () \<or> res = Inl SigningFailed) \<and>
    ((\<forall>sk t r. fst (spre D sk t r) \<noteq> None) \<longrightarrow> res = Inr ())"
proof -
  let ?cctx = "credential_context_new (sha3 D) (ascii ''attestation/basic'')"
  let ?ch = "\<lparr>ch_credential_context = ?cctx,
    ch_presentation_context = scoped (sha3 D) (ascii ''rp.example'') (ascii ''account-create'') (Some (ascii ''epoch-42'')),
    ch_binding = presentation_binding_new (sha3 D) (ascii ''canonical request or challenge bytes''), ch_limit = 2\<rparr>"
  have app: "length (ascii ''issuer.example/key-epoch-7'') \<le> MAX_APPLICATION_CONTEXT_BYTES"
    by (simp add: MAX_APPLICATION_CONTEXT_BYTES_def)
  have len: "length (credential_digest ?cctx) = 32"
    using length_sha3[OF assms(1)] by (simp add: credential_context_new_def hash_framed_def)
  show ?thesis
  proof (rule honest_issuance[OF assms app len, of Balanced r], goal_cases signed failed)
    case (failed issuer r1 pending request r2 r3)
    with issue_signing_failed[OF failed(3)] show ?thesis by (simp add: example_main_def generate_def)
  next
    case (signed issuer r1 pending request r2 response r3 c)
    have "ch_credential_context ?ch = cred_credential_context c" "ch_limit ?ch \<noteq> 0" by (simp_all add: signed(7))
    then obtain pres c' r' x v' where "present D (iss_public issuer) ?ch c r3 = Some (Inr pres, c', r')"
      "verifier_verify D memory_insert_if_absent ?ch pres (verifier_new (iss_public issuer)) = (Inr x, v')"
      "vp_tag x = pres_tag pres"
      using first_presentation[OF assms signed(5,6,8)] by metis
    with signed(1-4) show ?thesis by (simp add: example_main_def generate_def challenge_new_def)
  qed
qed

theorem example_succeeds_witness: "\<exists>r'. example_main demo_deps 0 = Some (Inr (), r')"
  using example_succeeds[OF demo_setting demo_proof_laws(2), of 0] by simp

end
