(* ===== verification/Fuzz.thy ===== *)
theory Fuzz
  imports Accounting PrefixFree Capacity
begin

text \<open>
  The fuzz targets of \<open>src/fuzz/fuzz_targets\<close>: the mutation of a valid encoding (\<open>support.rs\<close>), the
  fixtures built once from a fixed seed, and the three drivers. \<open>StdRng\<close> of the crate \<open>rand\<close> is given by
  its two constructors, \<open>seed_from_u64\<close> and \<open>from_seed\<close>. A panic is \<open>None\<close>, an \<open>expect\<close> on an error
  among them; the results that the drivers drop are returned, so that it can be said what they are.
\<close>

section \<open>Mutations\<close>

definition expect :: "'e + 'a \<Rightarrow> 'a option" where
  "expect r = (case r of Inl e \<Rightarrow> None | Inr x \<Rightarrow> Some x)"

lemma expect_simps [simp]: "expect (Inl e) = None" "expect (Inr x) = Some x"
  by (simp_all add: expect_def)

lemma expect_eq_Some [simp]: "expect r = Some x \<longleftrightarrow> r = Inr x"
  by (cases r) simp_all

text \<open>The remainder by a zero length panics.\<close>

definition mutate_valid :: "bytes \<Rightarrow> bytes \<Rightarrow> bytes option" where
  "mutate_valid base input =
     (if input = [] then Some base
      else
        let prefix = replicate 8 0;
            prefix_len = min (length input) (length prefix);
            prefix = take prefix_len input @ drop prefix_len prefix;
            selector = unat (from_le prefix :: u64)
        in if input ! 0 mod 4 = 0 \<or> input ! 0 mod 4 = 3 then
             if base = [] then None
             else
               let offset = selector mod length base
               in Some (fold (\<lambda>(index, b) bs.
                    let destination = (offset + index) mod length bs
                    in bs[destination := bs ! destination XOR (b OR 1)]) (enumerate 0 input) base)
           else if input ! 0 mod 4 = 1 then
             if base = [] then None else Some (take (selector mod length base) base)
           else Some (base @ input))"

section \<open>The decoders\<close>

record ('pk, 'sys) wire_fixture =
  wf_public :: "('pk, 'sys) public_key"
  wf_issuer_key :: bytes
  wf_public_key :: bytes
  wf_pending :: bytes
  wf_request :: bytes
  wf_response :: bytes
  wf_credential :: bytes
  wf_presentation :: bytes

definition wire_fixture_new ::
  "('g, 'pk, 'sk, 'sys, 'proof, 'rng, 'z) deps_scheme \<Rightarrow> (u64 \<Rightarrow> 'rng) \<Rightarrow> u64 \<Rightarrow> ('pk, 'sys) wire_fixture option" where
  "wire_fixture_new D seed_from_u64 seed =
     Option.bind (generate_with_profile D (ascii ''vole-arc/fuzz/wire/issuer-epoch-1'') LowLatency (seed_from_u64 seed))
       (\<lambda>(issuer, rng).
     let public = iss_public issuer;
         credential_context = credential_context_new (sha3 D) (ascii ''fuzz/wire/attestation'')
     in Option.bind (prepare_issue D public credential_context rng) (\<lambda>(prepared, rng).
     Option.bind (expect prepared) (\<lambda>(pending, request).
     let pending_bytes = pending_to_bytes D pending;
         (issued, rng) = issue D issuer request credential_context rng
     in Option.bind (expect issued) (\<lambda>response.
     Option.bind (expect (finish D pending public request response)) (\<lambda>credential.
     Option.bind (expect (challenge_new credential_context
         (scoped (sha3 D) (ascii ''fuzz.example'') (ascii ''wire'') (Some (ascii ''epoch-1''))) 2
         (presentation_binding_new (sha3 D) (ascii ''wire fixture binding'')))) (\<lambda>challenge.
     Option.bind (present D public challenge credential rng) (\<lambda>(presented, credential, rng).
     Option.bind (expect presented) (\<lambda>presentation.
     Option.bind (issuer_key_bytes D issuer) (\<lambda>issuer_key.
     Option.bind (public_key_to_bytes D (iss_public issuer)) (\<lambda>public_key.
     Option.bind (request_to_bytes D request) (\<lambda>request.
     Option.bind (response_to_bytes D response) (\<lambda>response.
     Option.bind (credential_to_bytes D credential) (\<lambda>credential.
     Option.bind (presentation_to_bytes D presentation) (\<lambda>presentation.
     Some \<lparr>wf_public = public, wf_issuer_key = issuer_key, wf_public_key = public_key,
       wf_pending = pending_bytes, wf_request = request, wf_response = response,
       wf_credential = credential, wf_presentation = presentation\<rparr>))))))))))))))"

text \<open>The fixtures of the two parameter sets, each from its own seed.\<close>

definition wire_fixtures ::
  "('g, 'pk, 'sk, 'sys, 'proof, 'rng, 'z) deps_scheme \<Rightarrow> ('h, 'pk2, 'sk2, 'sys2, 'proof2, 'rng2, 'z2) deps_scheme \<Rightarrow>
     (u64 \<Rightarrow> 'rng) \<Rightarrow> (u64 \<Rightarrow> 'rng2) \<Rightarrow> (('pk, 'sys) wire_fixture \<times> ('pk2, 'sys2) wire_fixture) option" where
  "wire_fixtures D1 D2 seed_from_u64 seed_from_u64' =
     Option.bind (wire_fixture_new D1 seed_from_u64 0x46555a5a4d415931) (\<lambda>mayo1.
     Option.bind (wire_fixture_new D2 seed_from_u64' 0x46555a5a4d415932) (\<lambda>mayo2.
     Some (mayo1, mayo2)))"

definition outcome :: "'e + 'a \<Rightarrow> 'e + unit" where
  "outcome r = rbind r (\<lambda>_. Inr ())"

text \<open>The two matches on the artifact's number: the encoding to start from, and the decoder to call.\<close>

definition artifact_base :: "('pk, 'sys) wire_fixture \<Rightarrow> nat \<Rightarrow> bytes" where
  "artifact_base fixture artifact =
     (if artifact = 0 then wf_issuer_key fixture
      else if artifact = 1 then wf_public_key fixture
      else if artifact = 2 then wf_pending fixture
      else if artifact = 3 then wf_request fixture
      else if artifact = 4 then wf_response fixture
      else if artifact = 5 then wf_credential fixture
      else wf_presentation fixture)"

definition decode_artifact ::
  "('g, 'pk, 'sk, 'sys, 'proof, 'rng, 'z) deps_scheme \<Rightarrow> ('pk, 'sys) wire_fixture \<Rightarrow> nat \<Rightarrow> bytes \<Rightarrow>
     wire_error + unit" where
  "decode_artifact D fixture artifact bs =
     (if artifact = 0 then outcome (issuer_from_key_bytes D bs)
      else if artifact = 1 then outcome (public_key_from_bytes D bs)
      else if artifact = 2 then outcome (pending_from_bytes D (wf_public fixture) bs)
      else if artifact = 3 then outcome (request_from_bytes D bs)
      else if artifact = 4 then outcome (response_from_bytes D bs)
      else if artifact = 5 then outcome (credential_from_bytes D (wf_public fixture) bs)
      else outcome (presentation_from_bytes D bs))"

definition exercise ::
  "('g, 'pk, 'sk, 'sys, 'proof, 'rng, 'z) deps_scheme \<Rightarrow> ('pk, 'sys) wire_fixture \<Rightarrow> nat \<Rightarrow> bytes \<Rightarrow>
     (wire_error + unit) option" where
  "exercise D fixture artifact input =
     Option.bind (mutate_valid (artifact_base fixture artifact) input)
       (\<lambda>bs. Some (decode_artifact D fixture artifact bs))"

definition exercise_raw ::
  "('g, 'pk, 'sk, 'sys, 'proof, 'rng, 'z) deps_scheme \<Rightarrow> ('pk, 'sys) wire_fixture \<Rightarrow> bytes \<Rightarrow>
     (wire_error + unit) list" where
  "exercise_raw D fixture bs =
     [outcome (issuer_from_key_bytes D bs), outcome (public_key_from_bytes D bs),
      outcome (pending_from_bytes D (wf_public fixture) bs), outcome (request_from_bytes D bs),
      outcome (response_from_bytes D bs), outcome (credential_from_bytes D (wf_public fixture) bs),
      outcome (presentation_from_bytes D bs)]"

text \<open>The driver, for the fixtures of the two parameter sets.\<close>

definition wire_decode_target ::
  "('g, 'pk, 'sk, 'sys, 'proof, 'rng, 'z) deps_scheme \<Rightarrow> ('h, 'pk2, 'sk2, 'sys2, 'proof2, 'rng2, 'z2) deps_scheme \<Rightarrow>
     ('pk, 'sys) wire_fixture \<Rightarrow> ('pk2, 'sys2) wire_fixture \<Rightarrow> bytes \<Rightarrow> (wire_error + unit) list option" where
  "wire_decode_target D1 D2 mayo1 mayo2 input =
     (let selector = (case input of [] \<Rightarrow> 0 | b # _ \<Rightarrow> unat b);
          artifact = selector mod 7;
          mutation = drop 1 input;
          raw = exercise_raw D1 mayo1 input @ exercise_raw D2 mayo2 input
      in Option.bind
           (if even (selector div 7) then exercise D1 mayo1 artifact mutation else exercise D2 mayo2 artifact mutation)
           (\<lambda>r. Some (raw @ [r])))"

section \<open>Presentations\<close>

record ('pk, 'sys) presentation_fixture =
  pf_public :: "('pk, 'sys) public_key"
  pf_challenge :: presentation_challenge
  pf_presentation :: bytes

definition presentation_fixture_new ::
  "('g, 'pk, 'sk, 'sys, 'proof, 'rng, 'z) deps_scheme \<Rightarrow> (u64 \<Rightarrow> 'rng) \<Rightarrow> ('pk, 'sys) presentation_fixture option" where
  "presentation_fixture_new D seed_from_u64 =
     Option.bind (generate_with_profile D (ascii ''vole-arc/fuzz/issuer-epoch-1'') Compact
         (seed_from_u64 0x46555a5a56415243)) (\<lambda>(issuer, rng).
     let public = iss_public issuer;
         credential_context = credential_context_new (sha3 D) (ascii ''fuzz/attestation'')
     in Option.bind (prepare_issue D public credential_context rng) (\<lambda>(prepared, rng).
     Option.bind (expect prepared) (\<lambda>(pending, request).
     let (issued, rng) = issue D issuer request credential_context rng
     in Option.bind (expect issued) (\<lambda>response.
     Option.bind (expect (finish D pending public request response)) (\<lambda>credential.
     Option.bind (expect (challenge_new credential_context
         (scoped (sha3 D) (ascii ''fuzz.example'') (ascii ''account-create'') (Some (ascii ''epoch-1''))) 1
         (presentation_binding_new (sha3 D) (ascii ''fuzz request binding'')))) (\<lambda>challenge.
     Option.bind (present D public challenge credential rng) (\<lambda>(presented, credential, rng).
     Option.bind (expect presented) (\<lambda>presentation.
     Option.bind (presentation_to_bytes D presentation) (\<lambda>presentation.
     Some \<lparr>pf_public = public, pf_challenge = challenge, pf_presentation = presentation\<rparr>)))))))))"

text \<open>The outcome is \<open>None\<close> inside when the bytes do not decode.\<close>

definition presentation_verify_target ::
  "('g, 'pk, 'sk, 'sys, 'proof, 'rng, 'z) deps_scheme \<Rightarrow> ('pk, 'sys) presentation_fixture \<Rightarrow> bytes \<Rightarrow>
     (error + verified_presentation) option option" where
  "presentation_verify_target D fixture input =
     Option.bind (mutate_valid (pf_presentation fixture) input) (\<lambda>bs.
       Some (case presentation_from_bytes D bs of
               Inl e \<Rightarrow> None
             | Inr presentation \<Rightarrow>
                 Some (verify_proof_only D (pf_public fixture) (pf_challenge fixture) presentation)))"

section \<open>Issuance\<close>

record ('g, 'pk, 'sk, 'sys, 'proof) issue_fixture =
  if_issuer :: "('pk, 'sk, 'sys) issuer"
  if_public :: "('pk, 'sys) public_key"
  if_credential_context :: credential_context
  if_pending :: bytes
  if_request :: "('g, 'proof) issue_request"
  if_request_bytes :: bytes
  if_response :: bytes

definition issue_fixture_new ::
  "('g, 'pk, 'sk, 'sys, 'proof, 'rng, 'z) deps_scheme \<Rightarrow> (u64 \<Rightarrow> 'rng) \<Rightarrow>
     ('g, 'pk, 'sk, 'sys, 'proof) issue_fixture option" where
  "issue_fixture_new D seed_from_u64 =
     Option.bind (generate_with_profile D (ascii ''vole-arc/fuzz/issue/issuer-epoch-1'') Compact
         (seed_from_u64 0x46555a5a49535355)) (\<lambda>(issuer, rng).
     let public = iss_public issuer;
         credential_context = credential_context_new (sha3 D) (ascii ''fuzz/issue/attestation'')
     in Option.bind (prepare_issue D public credential_context rng) (\<lambda>(prepared, rng).
     Option.bind (expect prepared) (\<lambda>(pending, request).
     let (issued, rng) = issue D issuer request credential_context rng
     in Option.bind (expect issued) (\<lambda>response.
     Option.bind (request_to_bytes D request) (\<lambda>request_bytes.
     Option.bind (response_to_bytes D response) (\<lambda>response.
     Some \<lparr>if_issuer = issuer, if_public = public, if_credential_context = credential_context,
       if_pending = pending_to_bytes D pending, if_request = request,
       if_request_bytes = request_bytes, if_response = response\<rparr>))))))"

text \<open>The seed that an input gives.\<close>

definition seed_from_input :: "bytes \<Rightarrow> bytes" where
  "seed_from_input input =
     fold (\<lambda>(index, b) seed.
         let destination = index mod length seed;
             rotation = index mod 8
         in seed[destination := word_rotl rotation (seed ! destination + b)])
       (enumerate 0 input) (replicate 32 0)"

datatype 'g issue_outcome =
    Undecodable
  | Issued "error + 'g issue_response"
  | Finished "error + 'g credential"

definition issue_verify_target ::
  "('g, 'pk, 'sk, 'sys, 'proof, 'rng, 'z) deps_scheme \<Rightarrow> (bytes \<Rightarrow> 'rng) \<Rightarrow>
     ('g, 'pk, 'sk, 'sys, 'proof) issue_fixture \<Rightarrow> bytes \<Rightarrow> 'g issue_outcome option" where
  "issue_verify_target D from_seed fixture input =
     (let selector = (case input of [] \<Rightarrow> 0 | b # _ \<Rightarrow> b);
          mutation = drop 1 input
      in if selector mod 2 = 0 then
           Option.bind (mutate_valid (if_request_bytes fixture) mutation) (\<lambda>bs.
           case request_from_bytes D bs of
             Inl e \<Rightarrow> Some Undecodable
           | Inr request \<Rightarrow>
               Some (Issued (fst (issue D (if_issuer fixture) request (if_credential_context fixture)
                 (from_seed (seed_from_input input))))))
         else
           Option.bind (mutate_valid (if_response fixture) mutation) (\<lambda>bs.
           case response_from_bytes D bs of
             Inl e \<Rightarrow> Some Undecodable
           | Inr response \<Rightarrow>
               Option.bind (expect (pending_from_bytes D (if_public fixture) (if_pending fixture))) (\<lambda>pending.
               Some (Finished (finish D pending (if_public fixture) (if_request fixture) response)))))"

section \<open>Mutations\<close>

lemma mutate_valid_Some: "base \<noteq> [] \<Longrightarrow> \<exists>bs. mutate_valid base input = Some bs"
  by (simp add: mutate_valid_def Let_def)

text \<open>A mutation that truncates or extends.\<close>

lemma mutate_cut:
  assumes "input \<noteq> []" and "input ! 0 mod 4 \<in> {1, 2}" and "base \<noteq> []"
  obtains (cut) k where "mutate_valid base input = Some (take k base)" "k < length base"
  | (extended) "mutate_valid base input = Some (base @ input)"
proof (cases "input ! 0 mod 4 = 1")
  case True
  show thesis
    by (rule cut[of "unat (from_le (take (min (length input) 8) input @ drop (min (length input) 8) (replicate 8 0)) :: u64)
          mod length base"])
      (use True assms(1,3) in \<open>simp_all add: mutate_valid_def Let_def\<close>)
next
  case False
  with assms show thesis by (intro extended) (simp add: mutate_valid_def Let_def)
qed

section \<open>Decoding mutated encodings\<close>

lemma isl_outcome [simp]: "isl (outcome r) \<longleftrightarrow> isl r"
  by (cases r) (simp_all add: outcome_def)

lemma rejects_outcome: "rejects (outcome r) (outcome r') \<longleftrightarrow> rejects r r'"
  by (simp add: rejects_def)

lemma rejects_artifact: "ys \<noteq> [] \<Longrightarrow> rejects (decode_artifact D fixture k bs) (decode_artifact D fixture k (bs @ ys))"
  by (simp add: decode_artifact_def rejects_outcome decoders_reject)

lemma header_nonempty [simp]: "header [] a p \<noteq> []"
  using length_header[of a p] by (auto simp del: length_header)

lemma decode_artifact_nonempty: "\<not> isl (decode_artifact D fixture k bs) \<Longrightarrow> bs \<noteq> []"
  by (auto simp: decode_artifact_def public_key_from_bytes_def issuer_from_key_bytes_def request_from_bytes_def
      response_from_bytes_def pending_from_bytes_def credential_from_bytes_def presentation_from_bytes_def
      split: if_splits dest!: not_isl_bind_decoder)

section \<open>Fixtures\<close>

lemma put_bytes_nonempty: "put_bytes out bs = Some z \<Longrightarrow> out \<noteq> [] \<Longrightarrow> z \<noteq> []"
  by (auto simp: put_bytes_def split: if_splits)

lemma put_bytes_None: "put_bytes out bs = None \<longleftrightarrow> \<not> length bs < 2 ^ 32"
  by (simp add: put_bytes_def)

text \<open>No encoder returns an empty encoding.\<close>

lemma encodings_nonempty:
  "issuer_key_bytes D issuer = Some bs \<Longrightarrow> bs \<noteq> []"
  "public_key_to_bytes D public = Some bs \<Longrightarrow> bs \<noteq> []"
  "pending_to_bytes S pending \<noteq> []"
  "request_to_bytes D request = Some bs \<Longrightarrow> bs \<noteq> []"
  "response_to_bytes S response = Some bs \<Longrightarrow> bs \<noteq> []"
  "credential_to_bytes S c = Some bs \<Longrightarrow> bs \<noteq> []"
  "presentation_to_bytes D pres = Some bs \<Longrightarrow> bs \<noteq> []"
proof -
  have "fold (\<lambda>(context, n) output. output @ key_bytes context @ u32_to_le n) m out \<noteq> []" if "out \<noteq> []" for m :: "(counter_key, u32) btree" and out
    using that by (induction m arbitrary: out) auto
  then show "credential_to_bytes S c = Some bs \<Longrightarrow> bs \<noteq> []"
    by (auto simp: credential_to_bytes_def bind_eq_Some_conv Let_def)
qed (auto simp: issuer_key_bytes_def public_key_to_bytes_def pending_to_bytes_def request_to_bytes_def
      response_to_bytes_def presentation_to_bytes_def bind_eq_Some_conv Let_def dest: put_bytes_nonempty)

lemma wire_fixture_nonempty:
  assumes "wire_fixture_new D seed_from_u64 seed = Some fixture"
  shows "artifact_base fixture k \<noteq> []"
  using assms
  by (auto simp: wire_fixture_new_def bind_eq_Some_conv Let_def artifact_base_def encodings_nonempty(3)
      dest: encodings_nonempty(1,2,4-7) simp: split_beta)

lemma presentation_fixture_nonempty:
  "presentation_fixture_new D seed_from_u64 = Some fixture \<Longrightarrow> pf_presentation fixture \<noteq> []"
  by (auto simp: presentation_fixture_new_def bind_eq_Some_conv Let_def dest: encodings_nonempty(1,2,4-7) simp: split_beta)

lemma prepare_valid:
  assumes "rng_laws D" and "length (pub_context public) = 32" and "length (credential_digest cctx) = 32"
    and "prepare_issue D public cctx r = Some (Inr (pending, request), r')"
  shows "pending_valid D public pending"
  using assms
  by (auto simp: prepare_issue_def Let_def pending_valid_def bind_eq_Some_conv rbind_eq_Inr split_beta rng_laws_def)

lemma issue_fixture_ok:
  assumes "xof_laws D" and "rng_laws D" and "issue_fixture_new D seed_from_u64 = Some fixture"
  shows "if_request_bytes fixture \<noteq> []" and "if_response fixture \<noteq> []"
    and "\<exists>pending. pending_from_bytes D (if_public fixture) (if_pending fixture) = Inr pending"
proof -
  show "if_request_bytes fixture \<noteq> []" "if_response fixture \<noteq> []"
    using assms(3)
    by (auto simp: issue_fixture_new_def bind_eq_Some_conv Let_def dest: encodings_nonempty(1,2,4-7) simp: split_beta)
  from assms(3) obtain issuer r1 pending request r2 where
    gen: "generate_with_profile D (ascii ''vole-arc/fuzz/issue/issuer-epoch-1'') Compact
        (seed_from_u64 0x46555a5a49535355) = Some (issuer, r1)"
    and prep: "prepare_issue D (iss_public issuer) (credential_context_new (sha3 D) (ascii ''fuzz/issue/attestation'')) r1 =
        Some (Inr (pending, request), r2)"
    and fixture: "if_public fixture = iss_public issuer" "if_pending fixture = pending_to_bytes D pending"
    by (auto simp: issue_fixture_new_def bind_eq_Some_conv Let_def split_beta)
  have xof: "length (sha3 D m 32) = 32" for m using assms(1) by (simp add: xof_laws_def)
  have "length (pub_context (iss_public issuer)) = 32"
    using gen by (auto simp: generate_with_profile_def public_of_def derive_issuer_context_def xof Let_def split: if_splits prod.split_asm)
  from prepare_valid[OF assms(2) this _ prep] have valid: "pending_valid D (iss_public issuer) pending"
    by (simp add: credential_context_new_def hash_framed_def xof)
  moreover from valid have "fits (pending_to_bytes D pending)"
    by (clarsimp simp: pending_valid_def pending_to_bytes_def fits_def MAX_WIRE_BYTES_def Let_def)
  ultimately have "pending_from_bytes D (iss_public issuer) (pending_to_bytes D pending) = Inr pending"
    by (rule pending.roundtrip[OF _ refl])
  then show "\<exists>pending. pending_from_bytes D (if_public fixture) (if_pending fixture) = Inr pending"
    by (auto simp: fixture)
qed

section \<open>Sizes of the demonstration's proofs\<close>

lemma demo_request_bytes:
  assumes "prepare_issue demo_deps public cctx r = Some (Inr (pending, request), r')"
  shows "\<exists>bs. request_to_bytes demo_deps request = Some bs"
proof -
  from assms have "length (req_proof request) = 10112"
    by (auto simp: prepare_issue_def Let_def bind_eq_Some_conv rbind_eq_Inr dest!: length_issue_witness split: if_splits)
  then show ?thesis by (simp add: request_to_bytes_def pack_nibbles_eq put_bytes_def Let_def)
qed

lemma demo_presentation_bytes:
  assumes "credential_valid demo_deps public c" and "present demo_deps public ch c r = Some (Inr pres, c', r')"
  shows "\<exists>bs. presentation_to_bytes demo_deps pres = Some bs"
proof -
  from assms(2) have "presentation_witness demo_deps (present_circuit demo_deps public ch (present_tag demo_deps c ch))
      (present_secrets c (next_nonce c (ch_presentation_context ch))) = Some (pres_proof pres)"
    by (auto simp: present_eq split: option.splits if_splits)
  from length_presentation_witness[OF this] assms(1) have "length (pres_proof pres) = 29680"
    by (simp add: present_secrets_def credential_valid_def demo_params_def)
  then show ?thesis by (simp add: presentation_to_bytes_def put_bytes_def Let_def)
qed

section \<open>Fixtures exist\<close>

text \<open>Over the demonstration's crates, whose preimage sampling never fails.\<close>

lemma demo_signs: "issue demo_deps issuer request cctx r \<noteq> (Inl SigningFailed, r')"
proof
  assume "issue demo_deps issuer request cctx r = (Inl SigningFailed, r')"
  from issue_signing_failed[OF this] show False by simp
qed

lemma demo_context: "length (credential_digest (credential_context_new (sha3 demo_deps) label)) = 32"
  by (simp add: credential_context_new_def hash_framed_def)

lemma demo_key_bytes:
  assumes "generate_with_profile demo_deps label profile r = Some (issuer, r')"
  shows "\<exists>bs. issuer_key_bytes demo_deps issuer = Some bs" and "\<exists>bs. public_key_to_bytes demo_deps (iss_public issuer) = Some bs"
proof -
  have "length (pub_application_context (iss_public issuer)) \<le> 4096"
    using assms by (auto simp: generate_with_profile_def public_of_def MAX_APPLICATION_CONTEXT_BYTES_def Let_def split: if_splits prod.splits)
  then show "\<exists>bs. issuer_key_bytes demo_deps issuer = Some bs" "\<exists>bs. public_key_to_bytes demo_deps (iss_public issuer) = Some bs"
    by (simp_all add: issuer_key_bytes_def public_key_to_bytes_def put_bytes_def Let_def)
qed

lemma demo_wire_fixture: "\<exists>fixture. wire_fixture_new demo_deps (\<lambda>_. 0) seed = Some fixture"
proof (rule honest_issuance[OF demo_setting demo_proof_laws(2) _ demo_context, of "ascii ''vole-arc/fuzz/wire/issuer-epoch-1''"
      LowLatency 0 "ascii ''fuzz/wire/attestation''"], goal_cases bound signed failed)
  case bound
  show ?case by (simp add: MAX_APPLICATION_CONTEXT_BYTES_def)
next
  case (signed issuer r1 pending request r2 response r3 c)
  let ?ch = "\<lparr>ch_credential_context = credential_context_new (sha3 demo_deps) (ascii ''fuzz/wire/attestation''),
    ch_presentation_context = scoped (sha3 demo_deps) (ascii ''fuzz.example'') (ascii ''wire'') (Some (ascii ''epoch-1'')),
    ch_binding = presentation_binding_new (sha3 demo_deps) (ascii ''wire fixture binding''), ch_limit = 2\<rparr>"
  have "ch_credential_context ?ch = cred_credential_context c" "ch_limit ?ch \<noteq> 0" by (simp_all add: signed(7))
  then obtain pres c' r' where run: "present demo_deps (iss_public issuer) ?ch c r3 = Some (Inr pres, c', r')"
    using first_presentation[OF demo_setting demo_proof_laws(2) signed(5,6,8)] by metis
  from demo_presentation_bytes[OF signed(6) run] demo_request_bytes[OF signed(2)] demo_key_bytes[OF signed(1)]
  show ?case
    using signed(1-4) run
    by (auto simp: wire_fixture_new_def challenge_new_def response_to_bytes_def credential_to_bytes_def pack_nibbles_eq Let_def)
next
  case failed
  with demo_signs show ?case by metis
qed

lemma demo_presentation_fixture: "\<exists>fixture. presentation_fixture_new demo_deps (\<lambda>_. 0) = Some fixture"
proof (rule honest_issuance[OF demo_setting demo_proof_laws(2) _ demo_context, of "ascii ''vole-arc/fuzz/issuer-epoch-1''"
      Compact 0 "ascii ''fuzz/attestation''"], goal_cases bound signed failed)
  case bound
  show ?case by (simp add: MAX_APPLICATION_CONTEXT_BYTES_def)
next
  case (signed issuer r1 pending request r2 response r3 c)
  let ?ch = "\<lparr>ch_credential_context = credential_context_new (sha3 demo_deps) (ascii ''fuzz/attestation''),
    ch_presentation_context = scoped (sha3 demo_deps) (ascii ''fuzz.example'') (ascii ''account-create'') (Some (ascii ''epoch-1'')),
    ch_binding = presentation_binding_new (sha3 demo_deps) (ascii ''fuzz request binding''), ch_limit = 1\<rparr>"
  have "ch_credential_context ?ch = cred_credential_context c" "ch_limit ?ch \<noteq> 0" by (simp_all add: signed(7))
  then obtain pres c' r' where run: "present demo_deps (iss_public issuer) ?ch c r3 = Some (Inr pres, c', r')"
    using first_presentation[OF demo_setting demo_proof_laws(2) signed(5,6,8)] by metis
  from demo_presentation_bytes[OF signed(6) run] show ?case
    using signed(1-4) run by (auto simp: presentation_fixture_new_def challenge_new_def Let_def)
next
  case failed
  with demo_signs show ?case by metis
qed

lemma demo_issue_fixture: "\<exists>fixture. issue_fixture_new demo_deps (\<lambda>_. 0) = Some fixture"
proof (rule honest_issuance[OF demo_setting demo_proof_laws(2) _ demo_context, of "ascii ''vole-arc/fuzz/issue/issuer-epoch-1''"
      Compact 0 "ascii ''fuzz/issue/attestation''"], goal_cases bound signed failed)
  case bound
  show ?case by (simp add: MAX_APPLICATION_CONTEXT_BYTES_def)
next
  case (signed issuer r1 pending request r2 response r3 c)
  from demo_request_bytes[OF signed(2)] signed(1-3) show ?case
    by (auto simp: issue_fixture_new_def response_to_bytes_def pack_nibbles_eq Let_def)
next
  case failed
  with demo_signs show ?case by metis
qed

section \<open>Properties\<close>



text \<open>Two of the three kinds of mutation are always noticed. When the encoding that a driver starts from
  decodes, an input that makes \<open>mutate_valid\<close> truncate or extend it makes the decoder return an error.\<close>

lemma mutations_rejected:
  assumes "exercise D fixture artifact [] = Some (Inr ())" and "input \<noteq> []" and "input ! 0 mod 4 \<in> {1, 2}"
  shows "\<exists>e. exercise D fixture artifact input = Some (Inl e)"
proof -
  let ?base = "artifact_base fixture artifact" and ?decode = "decode_artifact D fixture artifact"
  have ok: "\<not> isl (?decode ?base)"
    using assms(1) by (simp add: exercise_def mutate_valid_def)
  have "\<exists>bs. mutate_valid ?base input = Some bs \<and> isl (?decode bs)"
  proof (cases rule: mutate_cut[OF assms(2,3) decode_artifact_nonempty[OF ok]])
    case (1 k)
    then have "drop k ?base \<noteq> []" by simp
    from rejects_artifact[OF this, of D fixture artifact "take k ?base"] ok 1 show ?thesis
      by (auto simp: rejects_def)
  next
    case 2
    with rejects_artifact[OF assms(2), of D fixture artifact ?base] ok show ?thesis by (auto simp: rejects_def)
  qed
  then show ?thesis by (auto simp: exercise_def isl_def)
qed

end
