(* ===== verification/Replicas.thy ===== *)
theory Replicas
  imports Accounting "HOL-Library.Multiset"
begin

text \<open>
  Verifier replicas over one shared store. \<open>Verifier::verify\<close> is two actions, a proof check that touches
  nothing shared and one \<open>insert_if_absent\<close>, which the trait \<open>TagStore\<close> asks to be one linearizable
  operation across every replica. Here each replica runs that function in steps which interleave freely
  with the others', and may crash between any two of them.
\<close>

section \<open>Steps of a replica\<close>

type_synonym 'proof request = "presentation_challenge \<times> 'proof presentation"
type_synonym answer = "error + verified_presentation"

text \<open>How far one call of \<open>verify\<close> has got: not started, called, its proof checked, its answer known.\<close>

datatype 'proof phase =
    Idle
  | Called "'proof request"
  | Checked "'proof request" verified_presentation
  | Decided "'proof request" answer

datatype 'proof event =
    Call nat "'proof request"
  | Check nat
  | Decide nat "'proof request" answer
  | Return nat "'proof request" answer
  | Crash nat

text \<open>The last lines of \<open>verify\<close>: what the store answered, and the verified presentation, give the result.\<close>

fun verify_answer :: "error + bool \<Rightarrow> verified_presentation \<Rightarrow> answer" where
  "verify_answer (Inl e) verified = Inl e"
| "verify_answer (Inr inserted) verified = (if \<not> inserted then Inl TagAlreadyUsed else Inr verified)"

inductive replica_step ::
  "('g, 'pk, 'sk, 'sys, 'proof, 'rng, 'z) deps_scheme \<Rightarrow>
     (digest \<Rightarrow> digest \<Rightarrow> 's \<Rightarrow> (error + bool) \<times> 's) \<Rightarrow> ('pk, 'sys) public_key \<Rightarrow>
     (nat \<Rightarrow> 'proof phase) \<times> 's \<Rightarrow> 'proof event \<Rightarrow> (nat \<Rightarrow> 'proof phase) \<times> 's \<Rightarrow> bool"
  for D insert_if_absent public where
  call: "F i = Idle \<Longrightarrow> replica_step D insert_if_absent public (F, s) (Call i q) (F(i := Called q), s)"
| refuse: "F i = Called (ch, pres) \<Longrightarrow> verify_proof_only D public ch pres = Inl e \<Longrightarrow>
     replica_step D insert_if_absent public (F, s) (Decide i (ch, pres) (Inl e))
       (F(i := Decided (ch, pres) (Inl e)), s)"
| check: "F i = Called (ch, pres) \<Longrightarrow> verify_proof_only D public ch pres = Inr verified \<Longrightarrow>
     replica_step D insert_if_absent public (F, s) (Check i) (F(i := Checked (ch, pres) verified), s)"
| insert: "F i = Checked q verified \<Longrightarrow>
     insert_if_absent (vp_scope verified) (vp_tag verified) s = (r, s') \<Longrightarrow>
     replica_step D insert_if_absent public (F, s) (Decide i q (verify_answer r verified))
       (F(i := Decided q (verify_answer r verified)), s')"
| return: "F i = Decided q a \<Longrightarrow> replica_step D insert_if_absent public (F, s) (Return i q a) (F(i := Idle), s)"
| crash: "F i \<noteq> Idle \<Longrightarrow> replica_step D insert_if_absent public (F, s) (Crash i) (F(i := Idle), s)"

inductive_cases replica_stepE: "replica_step D insert_if_absent public (F, s) ev \<sigma>"

inductive replicas_run ::
  "('g, 'pk, 'sk, 'sys, 'proof, 'rng, 'z) deps_scheme \<Rightarrow>
     (digest \<Rightarrow> digest \<Rightarrow> 's \<Rightarrow> (error + bool) \<times> 's) \<Rightarrow> ('pk, 'sys) public_key \<Rightarrow>
     's \<Rightarrow> 'proof event list \<Rightarrow> (nat \<Rightarrow> 'proof phase) \<times> 's \<Rightarrow> bool"
  for D insert_if_absent public s where
  start: "replicas_run D insert_if_absent public s [] (\<lambda>_. Idle, s)"
| step: "replicas_run D insert_if_absent public s tr \<sigma> \<Longrightarrow> replica_step D insert_if_absent public \<sigma> ev \<sigma>' \<Longrightarrow>
     replicas_run D insert_if_absent public s (tr @ [ev]) \<sigma>'"

section \<open>What a run shows\<close>

text \<open>The calls, the answers that were decided and the answers that were returned, each with the replica.\<close>

definition calls :: "'proof event list \<Rightarrow> (nat \<times> 'proof request) list" where
  "calls tr = concat (map (\<lambda>ev. case ev of Call i q \<Rightarrow> [(i, q)] | _ \<Rightarrow> []) tr)"

definition decisions :: "'proof event list \<Rightarrow> (nat \<times> 'proof request \<times> answer) list" where
  "decisions tr = concat (map (\<lambda>ev. case ev of Decide i q a \<Rightarrow> [(i, q, a)] | _ \<Rightarrow> []) tr)"

definition returns :: "'proof event list \<Rightarrow> (nat \<times> 'proof request \<times> answer) list" where
  "returns tr = concat (map (\<lambda>ev. case ev of Return i q a \<Rightarrow> [(i, q, a)] | _ \<Rightarrow> []) tr)"

definition requests :: "(nat \<times> 'proof request \<times> answer) list \<Rightarrow> 'proof request list" where
  "requests xs = map (\<lambda>(i, q, a). q) xs"

definition answers :: "(nat \<times> 'proof request \<times> answer) list \<Rightarrow> answer list" where
  "answers xs = map (\<lambda>(i, q, a). a) xs"

text \<open>The acceptances for one credential context and one presentation context.\<close>

definition granted ::
  "credential_context \<Rightarrow> presentation_context \<Rightarrow> (nat \<times> 'proof request \<times> answer) list \<Rightarrow>
     (nat \<times> 'proof request \<times> answer) list" where
  "granted cctx pctx xs =
     filter (\<lambda>(i, (ch, pres), a). \<not> isl a \<and> ch_credential_context ch = cctx \<and> ch_presentation_context ch = pctx) xs"

lemma observe_snoc [simp]:
  "calls [] = []" "decisions [] = []" "returns [] = []"
  "calls (tr @ [ev]) = calls tr @ (case ev of Call i q \<Rightarrow> [(i, q)] | _ \<Rightarrow> [])"
  "decisions (tr @ [ev]) = decisions tr @ (case ev of Decide i q a \<Rightarrow> [(i, q, a)] | _ \<Rightarrow> [])"
  "returns (tr @ [ev]) = returns tr @ (case ev of Return i q a \<Rightarrow> [(i, q, a)] | _ \<Rightarrow> [])"
  by (simp_all add: calls_def decisions_def returns_def)

lemma requests_answers [simp]:
  "requests [] = []" "requests (x # xs) = fst (snd x) # requests xs" "requests (xs @ ys) = requests xs @ requests ys"
  "answers [] = []" "answers (x # xs) = snd (snd x) # answers xs" "answers (xs @ ys) = answers xs @ answers ys"
  by (simp_all add: requests_def answers_def split_beta)

lemma verify_all_snoc:
  "verify_all D insert_if_absent reqs v = (rs, v1) \<Longrightarrow> verifier_verify D insert_if_absent ch pres v1 = (r, v2) \<Longrightarrow>
     verify_all D insert_if_absent (reqs @ [(ch, pres)]) v = (rs @ [r], v2)"
  by (induction D insert_if_absent reqs v arbitrary: rs rule: verify_all.induct)
    (auto simp: Let_def split: prod.splits)

text \<open>\<open>verify\<close> run without interruption is the check and then the insertion.\<close>

lemma verify_refuses:
  "verify_proof_only D (ver_public v) ch pres = Inl e \<Longrightarrow> verifier_verify D insert_if_absent ch pres v = (Inl e, v)"
  by (simp add: verifier_verify_def)

lemma verify_inserts:
  "verify_proof_only D (ver_public v) ch pres = Inr verified \<Longrightarrow>
     insert_if_absent (vp_scope verified) (vp_tag verified) (ver_store v) = (r, s') \<Longrightarrow>
     verifier_verify D insert_if_absent ch pres v = (verify_answer r verified, v\<lparr>ver_store := s'\<rparr>)"
  by (cases r) (simp_all add: verifier_verify_def)

section \<open>Sums over the replicas\<close>

text \<open>What the calls under way still owe: a request without a decision, a decision without a return, and the
  number of steps.\<close>

fun phase_request :: "nat \<Rightarrow> 'proof phase \<Rightarrow> (nat \<times> 'proof request) multiset" where
  "phase_request i Idle = {#}"
| "phase_request i (Called q) = {#(i, q)#}"
| "phase_request i (Checked q v) = {#(i, q)#}"
| "phase_request i (Decided q a) = {#}"

fun phase_answer :: "nat \<Rightarrow> 'proof phase \<Rightarrow> (nat \<times> 'proof request \<times> answer) multiset" where
  "phase_answer i (Decided q a) = {#(i, q, a)#}"
| "phase_answer i p = {#}"

fun phase_steps :: "nat \<Rightarrow> 'proof phase \<Rightarrow> nat" where
  "phase_steps i Idle = 0"
| "phase_steps i (Decided q a) = 1"
| "phase_steps i (Checked q v) = 2"
| "phase_steps i (Called q) = 3"

definition busy :: "(nat \<Rightarrow> 'proof phase) \<Rightarrow> nat set" where
  "busy F = {i. F i \<noteq> Idle}"

definition phase_total :: "(nat \<Rightarrow> 'proof phase \<Rightarrow> 'm :: comm_monoid_add) \<Rightarrow> (nat \<Rightarrow> 'proof phase) \<Rightarrow> 'm" where
  "phase_total f F = (\<Sum>i\<in>busy F. f i (F i))"

lemma phase_total_Idle [simp]: "phase_total f (\<lambda>_. Idle) = 0"
  by (simp add: phase_total_def busy_def)

lemma busy_upd: "finite (busy F) \<Longrightarrow> finite (busy (F(i := p)))"
  by (rule finite_subset[of _ "insert i (busy F)"]) (auto simp: busy_def)

lemma phase_total_upd:
  fixes f :: "nat \<Rightarrow> 'proof phase \<Rightarrow> 'm :: comm_monoid_add"
  assumes "finite (busy F)" and "f i Idle = 0"
  shows "phase_total f (F(i := p)) + f i (F i) = phase_total f F + f i p"
proof -
  define rest where "rest = (\<Sum>j\<in>busy F - {i}. f j (F j))"
  have split: "phase_total f G = f i (G i) + (\<Sum>j\<in>busy G - {i}. f j (G j))" if "finite (busy G)" for G
  proof (cases "i \<in> busy G")
    case True
    with that show ?thesis by (simp add: phase_total_def sum.remove)
  next
    case False
    then show ?thesis using assms(2) by (simp add: phase_total_def busy_def)
  qed
  have "busy (F(i := p)) - {i} = busy F - {i}" by (auto simp: busy_def)
  then have "(\<Sum>j\<in>busy (F(i := p)) - {i}. f j ((F(i := p)) j)) = rest"
    unfolding rest_def by (intro sum.cong) auto
  with split[OF busy_upd[OF assms(1), of i p]] split[OF assms(1)] show ?thesis
    by (simp add: rest_def ac_simps)
qed

fun replica :: "'proof event \<Rightarrow> nat" where
  "replica (Call i q) = i"
| "replica (Check i) = i"
| "replica (Decide i q a) = i"
| "replica (Return i q a) = i"
| "replica (Crash i) = i"

lemma step_local:
  "replica_step D insert_if_absent public \<sigma> ev \<sigma>' \<Longrightarrow> fst \<sigma>' = (fst \<sigma>)(replica ev := fst \<sigma>' (replica ev))"
  by (induction rule: replica_step.induct) simp_all

lemma run_busy: "replicas_run D insert_if_absent public s tr \<sigma> \<Longrightarrow> finite (busy (fst \<sigma>))"
proof (induction rule: replicas_run.induct)
  case start
  show ?case by (simp add: busy_def)
next
  case (step tr \<sigma> ev \<sigma>')
  show ?case using busy_upd[OF step.IH] by (subst step_local[OF step.hyps(2)])
qed

lemma step_total:
  fixes f :: "nat \<Rightarrow> 'proof phase \<Rightarrow> 'm :: comm_monoid_add"
  assumes "replicas_run D insert_if_absent public s tr \<sigma>" and "replica_step D insert_if_absent public \<sigma> ev \<sigma>'"
    and "\<And>i. f i Idle = 0"
  shows "phase_total f (fst \<sigma>') + f (replica ev) (fst \<sigma> (replica ev)) =
    phase_total f (fst \<sigma>) + f (replica ev) (fst \<sigma>' (replica ev))"
  using phase_total_upd[where F = "fst \<sigma>" and f = f and i = "replica ev" and p = "fst \<sigma>' (replica ev)"]
    run_busy[OF assms(1)] assms(3)
  by (simp add: step_local[OF assms(2), symmetric])

lemma subset_mset_less: "X + A \<subseteq># M \<Longrightarrow> B + C = A \<Longrightarrow> X + B \<subseteq># M" for A B C :: "'a multiset"
  by (metis add.assoc mset_subset_eq_add_left subset_mset.order_trans)

lemma subset_mset_move: "X + A \<subseteq># M \<Longrightarrow> add_mset x B = A \<Longrightarrow> add_mset x (X + B) \<subseteq># M" for A B :: "'a multiset"
  by auto

section \<open>The invariants of a run\<close>

text \<open>A checked presentation is one that \<open>verify_proof_only\<close> accepts, and the
  decisions are the answers of one verifier asked one request after the other.\<close>

lemma run_decisions:
  "replicas_run D insert_if_absent public s tr \<sigma> \<Longrightarrow>
    (\<forall>i ch pres verified. fst \<sigma> i = Checked (ch, pres) verified \<longrightarrow> verify_proof_only D public ch pres = Inr verified) \<and>
    verify_all D insert_if_absent (requests (decisions tr)) \<lparr>ver_public = public, ver_store = s\<rparr> =
      (answers (decisions tr), \<lparr>ver_public = public, ver_store = snd \<sigma>\<rparr>)"
proof (induction rule: replicas_run.induct)
  case start
  then show ?case by simp
next
  case (step tr \<sigma> ev \<sigma>')
  from step.hyps(2) step.IH show ?case
  proof (induction rule: replica_step.induct)
    case (refuse F i ch pres e t)
    from refuse.prems have "verify_all D insert_if_absent (requests (decisions tr)) \<lparr>ver_public = public, ver_store = s\<rparr> =
      (answers (decisions tr), \<lparr>ver_public = public, ver_store = t\<rparr>)" by simp
    from verify_all_snoc[OF this verify_refuses, of ch pres e] refuse.hyps refuse.prems show ?case by simp
  next
    case (insert F i q verified t r t')
    obtain ch pres where q: "q = (ch, pres)" by (cases q)
    from insert.prems have run: "verify_all D insert_if_absent (requests (decisions tr)) \<lparr>ver_public = public, ver_store = s\<rparr> =
      (answers (decisions tr), \<lparr>ver_public = public, ver_store = t\<rparr>)" by simp
    have "verifier_verify D insert_if_absent ch pres \<lparr>ver_public = public, ver_store = t\<rparr> =
        (verify_answer r verified, \<lparr>ver_public = public, ver_store = t'\<rparr>)"
      using verify_inserts[of D "\<lparr>ver_public = public, ver_store = t\<rparr>" ch pres verified insert_if_absent r t'] insert
      by (simp add: q)
    from verify_all_snoc[OF run this] insert.prems show ?case by (simp add: q)
  qed simp_all
qed

text \<open>Answers come from decisions, decisions from calls, and no call takes more than four steps.\<close>

lemma run_returns:
  "replicas_run D insert_if_absent public s tr \<sigma> \<Longrightarrow>
     mset (returns tr) + phase_total phase_answer (fst \<sigma>) \<subseteq># mset (decisions tr)"
proof (induction rule: replicas_run.induct)
  case start
  then show ?case by simp
next
  case (step tr \<sigma> ev \<sigma>')
  from step.hyps(2) step.IH step_total[OF step.hyps, of phase_answer] show ?case
  proof cases
    case (crash F i t)
    with step.IH step_total[OF step.hyps, of phase_answer] show ?thesis
      by (simp add: fun_upd_same subset_mset_less del: fun_upd_apply)
  qed (simp_all add: fun_upd_same subset_mset_move del: fun_upd_apply)
qed

lemma run_calls:
  "replicas_run D insert_if_absent public s tr \<sigma> \<Longrightarrow>
     mset (map (\<lambda>(i, q, a). (i, q)) (decisions tr)) + phase_total phase_request (fst \<sigma>) \<subseteq># mset (calls tr)"
proof (induction rule: replicas_run.induct)
  case start
  then show ?case by simp
next
  case (step tr \<sigma> ev \<sigma>')
  from step.hyps(2) step.IH step_total[OF step.hyps, of phase_request] show ?case
  proof cases
    case (crash F i t)
    with step.IH step_total[OF step.hyps, of phase_request] show ?thesis
      by (simp add: fun_upd_same subset_mset_less del: fun_upd_apply)
  qed (simp_all add: fun_upd_same subset_mset_move del: fun_upd_apply)
qed

lemma run_steps:
  "replicas_run D insert_if_absent public s tr \<sigma> \<Longrightarrow> length tr + phase_total phase_steps (fst \<sigma>) \<le> 4 * length (calls tr)"
proof (induction rule: replicas_run.induct)
  case start
  then show ?case by simp
next
  case (step tr \<sigma> ev \<sigma>')
  from step.hyps(2) step.IH step_total[OF step.hyps, of phase_steps] show ?case
  proof cases
    case (crash F i t)
    with step.IH step_total[OF step.hyps, of phase_steps] show ?thesis by (cases "F i") (simp_all add: fun_upd_same del: fun_upd_apply)
  qed (simp_all add: fun_upd_same del: fun_upd_apply)
qed

lemma run_prefix:
  "replicas_run D insert_if_absent public s tr \<sigma> \<Longrightarrow> tr = early @ late \<Longrightarrow> \<exists>\<tau>. replicas_run D insert_if_absent public s early \<tau>"
proof (induction arbitrary: late rule: replicas_run.induct)
  case start
  then show ?case by (auto intro: replicas_run.start)
next
  case (step tr \<sigma> ev \<sigma>')
  then show ?case
    using replicas_run.step[OF step.hyps] by (cases late rule: rev_cases) (auto simp del: split_paired_Ex)
qed

lemma subset_mset_weaken: "X + A \<subseteq># M \<Longrightarrow> X \<subseteq># M" for X :: "'a multiset"
  by (rule mset_subset_eq_add_left[THEN subset_mset.order_trans])

lemma returned_decided: "replicas_run D insert_if_absent public s tr \<sigma> \<Longrightarrow> mset (returns tr) \<subseteq># mset (decisions tr)"
  by (rule run_returns[THEN subset_mset_weaken])

text \<open>The acceptances of a part are a part of the acceptances.\<close>

lemma mset_accepted:
  "mset (accepted rs) = image_mset (\<lambda>r. (vp_scope (projr r), vp_tag (projr r))) (filter_mset (\<lambda>r. \<not> isl r) (mset rs))"
  by (induction rs rule: accepted.induct) simp_all

lemma accepted_mono:
  "mset xs \<subseteq># mset ys \<Longrightarrow> mset (accepted (answers xs)) \<subseteq># mset (accepted (answers ys))"
  unfolding mset_accepted answers_def mset_map by (intro image_mset_subseteq_mono multiset_filter_mono)

lemma distinct_submset:
  assumes "mset xs \<subseteq># mset ys" and "distinct ys"
  shows "distinct xs"
proof -
  have "count (mset xs) a \<le> 1" for a
    using mset_subset_eq_count[OF assms(1), of a] assms(2) by (auto simp: distinct_count_atmost_1 not_in_iff simp flip: count_mset_0_iff split: if_splits)
  then show ?thesis
    by (simp add: distinct_count_atmost_1 le_Suc_eq flip: not_in_iff)
qed

lemma granted_mono: "mset xs \<subseteq># mset ys \<Longrightarrow> length (granted cctx pctx xs) \<le> length (granted cctx pctx ys)"
  unfolding granted_def size_mset[symmetric] mset_filter by (intro size_mset_mono multiset_filter_mono)

lemma length_granted: "length (granted cctx pctx xs) = length (accepted_tags cctx pctx (requests xs) (answers xs))"
proof (induction xs)
  case Nil
  show ?case by (simp add: granted_def)
next
  case (Cons x xs)
  obtain i ch pres a where "x = (i, (ch, pres), a)" by (cases x) auto
  with Cons show ?case by (cases a) (simp_all add: granted_def)
qed

lemma run_return:
  "replicas_run D insert_if_absent public s tr (F, t) \<Longrightarrow> F i = Decided q a \<Longrightarrow>
     \<exists>\<sigma>. replicas_run D insert_if_absent public s (tr @ [Return i q a]) \<sigma>"
  by (rule exI, rule replicas_run.step, assumption, erule replica_step.return)

section \<open>What the replicas guarantee together\<close>

text \<open>C3: the replicas are one verifier. In every run of any number of replicas over one store, however their
  steps interleave and whichever of them crash, the requests in the order of their decisions and the
  answers decided are what a single verifier over that store answers when it is asked these requests one
  after the other, and it ends with the same store. At every moment of the run, each replica has returned
  only what was decided for it, and only a request it had been called with is decided. (So the order of the
  decisions is a linearization: a call that returned before another began was decided before it.) Nothing
  is asked of the store but that \<open>insert_if_absent\<close> is one action.\<close>

theorem replicas_linearize:
  assumes "replicas_run D insert_if_absent public s tr (F, s')"
  shows "verify_all D insert_if_absent (requests (decisions tr)) \<lparr>ver_public = public, ver_store = s\<rparr> =
      (answers (decisions tr), \<lparr>ver_public = public, ver_store = s'\<rparr>) \<and>
    (\<forall>early late. tr = early @ late \<longrightarrow>
      mset (returns early) \<subseteq># mset (decisions early) \<and>
      mset (map (\<lambda>(i, q, a). (i, q)) (decisions early)) \<subseteq># mset (calls early))"
proof (intro conjI allI impI)
  show "verify_all D insert_if_absent (requests (decisions tr)) \<lparr>ver_public = public, ver_store = s\<rparr> =
      (answers (decisions tr), \<lparr>ver_public = public, ver_store = s'\<rparr>)"
    using run_decisions[OF assms] by simp
next
  fix early late assume "tr = early @ late"
  then obtain \<tau> where "replicas_run D insert_if_absent public s early \<tau>" using run_prefix[OF assms] by blast
  then show "mset (returns early) \<subseteq># mset (decisions early)"
    and "mset (map (\<lambda>(i, q, a). (i, q)) (decisions early)) \<subseteq># mset (calls early)"
    by (rule returned_decided, rule run_calls[THEN subset_mset_weaken])
qed

text \<open>C11: no presentation is accepted twice, on any replica: among all acceptances that the replicas return
  to their callers, in every run with any interleaving and any crashes, no pair of scope and tag occurs
  twice, none of them was recorded before the run, and all of them are recorded in the shared store.\<close>

theorem replicas_accept_once:
  assumes "tag_store insert_if_absent recorded" and "replicas_run D insert_if_absent public s tr (F, s')"
  shows "distinct (accepted (answers (returns tr))) \<and>
    set (accepted (answers (returns tr))) \<inter> recorded s = {} \<and>
    set (accepted (answers (returns tr))) \<subseteq> recorded s'"
proof -
  have "distinct (accepted (answers (decisions tr))) \<and>
      set (accepted (answers (decisions tr))) \<inter> recorded s = {} \<and>
      set (accepted (answers (decisions tr))) \<subseteq> recorded s'"
    using tag_store.accepted_fresh[OF assms(1)] run_decisions[OF assms(2)] by fastforce
  moreover have part: "mset (accepted (answers (returns tr))) \<subseteq># mset (accepted (answers (decisions tr)))"
    by (rule accepted_mono[OF returned_decided[OF assms(2)]])
  ultimately show ?thesis
    using distinct_submset[OF part] set_mset_mono[OF part] by auto
qed

text \<open>C2: the rate limit of a cluster. However many replicas verify the presentations of one credential context
  and one presentation context, with challenge limits at most \<open>L\<close>, and whatever their interleaving and
  their crashes, they return at most \<open>L\<close> acceptances for each secret with an authentic credential.\<close>

theorem replicas_rate_limit:
  assumes "setting D emb system_holds" and "proof_sound D emb system_holds" and "genuine D public"
    and "tag_store insert_if_absent recorded" and "replicas_run D insert_if_absent public s tr (F, s')"
    and "\<forall>(i, ch, pres)\<in>set (calls tr). length (pres_tag pres) = 32 \<and>
           (ch_credential_context ch = cctx \<and> ch_presentation_context ch = pctx \<longrightarrow> unat (ch_limit ch) \<le> L)"
  shows "length (granted cctx pctx (returns tr)) \<le> card (authentic_secrets D public cctx) * L"
proof -
  let ?v = "\<lparr>ver_public = public, ver_store = s\<rparr>"
  have run: "verify_all D insert_if_absent (requests (decisions tr)) ?v =
      (answers (decisions tr), \<lparr>ver_public = public, ver_store = s'\<rparr>)"
    using run_decisions[OF assms(5)] by simp
  have "\<forall>(ch, pres)\<in>set (requests (decisions tr)). length (pres_tag pres) = 32 \<and>
      (ch_credential_context ch = cctx \<and> ch_presentation_context ch = pctx \<longrightarrow> unat (ch_limit ch) \<le> L)"
    using assms(6) set_mset_mono[OF run_calls[OF assms(5), THEN subset_mset_weaken]]
    by (fastforce simp: requests_def)
  with accepted_tags_bound[OF assms(1,2) _ run assms(4)] assms(3)
  have "length (granted cctx pctx (decisions tr)) \<le> card (authentic_secrets D public cctx) * L"
    by (simp add: length_granted)
  with granted_mono[OF returned_decided[OF assms(5)]] show ?thesis by (rule order.trans)
qed


section \<open>A race between two replicas\<close>

text \<open>Replicas 0 and 1 are called with the same presentation and both check its proof before either reaches
  the store. Replica 1 inserts first; both return, and only replica 1 accepts.\<close>

definition race :: "'proof request \<Rightarrow> verified_presentation \<Rightarrow> 'proof event list" where
  "race q x = [Call 0 q, Call 1 q, Check 0, Check 1, Decide 1 q (Inr x), Decide 0 q (Inl TagAlreadyUsed),
     Return 0 q (Inl TagAlreadyUsed), Return 1 q (Inr x)]"

lemma race_runs:
  assumes ver: "verify_proof_only D public ch pres = Inr x"
  shows "\<exists>\<sigma>. replicas_run D memory_insert_if_absent public memory_default (race (ch, pres) x) \<sigma>"
proof -
  let ?q = "(ch, pres)" and ?run = "replicas_run D memory_insert_if_absent public memory_default"
  let ?s = "\<lparr>tags = {(vp_scope x, vp_tag x)}\<rparr>"
  have empty: "memory_insert_if_absent (vp_scope x) (vp_tag x) memory_default = (Inr True, ?s)"
    and full: "memory_insert_if_absent (vp_scope x) (vp_tag x) ?s = (Inr False, ?s)"
    by (simp_all add: memory_insert_if_absent_def memory_default_def)
  note go = replicas_run.step
  have "?run [Call 0 ?q] (((\<lambda>_. Idle)(0 := Called ?q)), memory_default)"
    using go[OF replicas_run.start replica_step.call] by simp
  from go[OF this replica_step.call, of 1 ?q] 
  have "?run [Call 0 ?q, Call 1 ?q] ((\<lambda>_. Idle)(0 := Called ?q, 1 := Called ?q), memory_default)" by simp
  from go[OF this replica_step.check[OF _ ver], of 0]
  have "?run [Call 0 ?q, Call 1 ?q, Check 0] ((\<lambda>_. Idle)(0 := Checked ?q x, 1 := Called ?q), memory_default)"
    by (simp add: fun_upd_twist)
  from go[OF this replica_step.check[OF _ ver], of 1]
  have "?run [Call 0 ?q, Call 1 ?q, Check 0, Check 1] ((\<lambda>_. Idle)(0 := Checked ?q x, 1 := Checked ?q x), memory_default)" by simp
  from go[OF this replica_step.insert[where insert_if_absent = memory_insert_if_absent and verified = x, OF _ empty], of 1]
  have "?run [Call 0 ?q, Call 1 ?q, Check 0, Check 1, Decide 1 ?q (Inr x)]
      ((\<lambda>_. Idle)(0 := Checked ?q x, 1 := Decided ?q (Inr x)), ?s)" by simp
  from go[OF this replica_step.insert[where insert_if_absent = memory_insert_if_absent and verified = x, OF _ full], of 0]
  have "?run [Call 0 ?q, Call 1 ?q, Check 0, Check 1, Decide 1 ?q (Inr x), Decide 0 ?q (Inl TagAlreadyUsed)]
      ((\<lambda>_. Idle)(0 := Decided ?q (Inl TagAlreadyUsed), 1 := Decided ?q (Inr x)), ?s)" by (simp add: fun_upd_twist)
  from go[OF this replica_step.return, of 0]
  have "?run [Call 0 ?q, Call 1 ?q, Check 0, Check 1, Decide 1 ?q (Inr x), Decide 0 ?q (Inl TagAlreadyUsed),
        Return 0 ?q (Inl TagAlreadyUsed)]
      ((\<lambda>_. Idle)(0 := Idle, 1 := Decided ?q (Inr x)), ?s)" by (simp add: fun_upd_twist)
  from go[OF this replica_step.return, of 1] show ?thesis by (auto simp: race_def simp del: split_paired_Ex)
qed

lemma demo_race:
  obtains pres x F s' where "replicas_run demo_deps memory_insert_if_absent demo_public memory_default
      (race (demo_challenge 1, pres) x) (F, s')" and "length (pres_tag pres) = 32"
proof -
  let ?pres = "\<lambda>p. \<lparr>pres_tag = present_tag demo_deps (demo_credential []) (demo_challenge 1), pres_proof = p\<rparr>"
  obtain p x where ver: "verify_proof_only demo_deps demo_public (demo_challenge 1) (?pres p) = Inr x"
    by (rule demo_present[of 1 9]) simp_all
  obtain F s' where "replicas_run demo_deps memory_insert_if_absent demo_public memory_default
      (race (demo_challenge 1, ?pres p) x) (F, s')"
    using race_runs[OF ver] by auto
  then show thesis by (rule that) (simp add: present_tag_def)
qed

lemma race_observed:
  "calls (race q x) = [(0, q), (1, q)]" "requests (decisions (race q x)) = [q, q]"
  "answers (decisions (race q x)) = [Inr x, Inl TagAlreadyUsed]"
  "returns (race q x) = [(0, q, Inl TagAlreadyUsed), (1, q, Inr x)]"
  by (simp_all add: race_def calls_def decisions_def returns_def)

theorem replicas_linearize_witness:
  "\<exists>pres x s'. verify_all demo_deps memory_insert_if_absent [(demo_challenge 1, pres), (demo_challenge 1, pres)]
     \<lparr>ver_public = demo_public, ver_store = memory_default\<rparr> =
     ([Inr x, Inl TagAlreadyUsed], \<lparr>ver_public = demo_public, ver_store = s'\<rparr>)"
proof -
  obtain pres x F s' where "replicas_run demo_deps memory_insert_if_absent demo_public memory_default
      (race (demo_challenge 1, pres) x) (F, s')" by (rule demo_race)
  from replicas_linearize[OF this] show ?thesis unfolding race_observed by blast
qed

theorem replicas_accept_once_witness:
  "\<exists>pres x F s'. replicas_run demo_deps memory_insert_if_absent demo_public memory_default
       (race (demo_challenge 1, pres) x) (F, s') \<and>
     accepted (answers (returns (race (demo_challenge 1, pres) x))) = [(vp_scope x, vp_tag x)] \<and>
     (vp_scope x, vp_tag x) \<in> tags s'"
proof -
  obtain pres x F s' where run: "replicas_run demo_deps memory_insert_if_absent demo_public memory_default
      (race (demo_challenge 1, pres) x) (F, s')" by (rule demo_race)
  have "accepted (answers (returns (race (demo_challenge 1, pres) x))) = [(vp_scope x, vp_tag x)]"
    by (simp add: race_observed)
  with run replicas_accept_once[OF mem.tag_store_axioms run] show ?thesis
    by (intro exI[of _ pres] exI[of _ x] exI[of _ F] exI[of _ s']) simp
qed

theorem replicas_rate_limit_witness:
  "\<exists>pres x. length (granted (CredentialContext (replicate 32 2)) (PresentationContext (replicate 32 7))
       (returns (race (demo_challenge 1, pres :: bool list presentation) x))) = 1 \<and>
     1 \<le> card (authentic_secrets demo_deps demo_public (CredentialContext (replicate 32 2))) * 1"
proof -
  obtain pres x F s' where run: "replicas_run demo_deps memory_insert_if_absent demo_public memory_default
      (race (demo_challenge 1, pres) x) (F, s')" and len: "length (pres_tag pres) = 32" by (rule demo_race)
  let ?race = "race (demo_challenge 1, pres) x"
  have lim: "\<forall>(i, ch, p)\<in>set (calls ?race). length (pres_tag p) = 32 \<and>
      (ch_credential_context ch = CredentialContext (replicate 32 2) \<and>
       ch_presentation_context ch = PresentationContext (replicate 32 7) \<longrightarrow> unat (ch_limit ch) \<le> 1)"
    by (simp add: len race_observed)
  have one: "length (granted (CredentialContext (replicate 32 2)) (PresentationContext (replicate 32 7)) (returns ?race)) = 1"
    by (simp add: race_observed granted_def)
  from replicas_rate_limit[OF demo_setting demo_proof_laws(1) demo_genuine mem.tag_store_axioms run lim, unfolded one]
  show ?thesis using one by blast
qed


end
