(* ===== verification/Confinement.thy ===== *)
theory Confinement
  imports Flows
begin

text \<open>
  What objects of \<open>src/src/protocol.rs\<close> and \<open>src/src/context.rs\<close> let out: their accessors, the two
  \<open>Debug\<close> implementations written by hand, and \<open>Drop\<close>. The methods of the crate \<open>zeroize\<close> are the
  parameter \<open>zeroize\<close>, on arrays of bytes, vectors of field elements and counters. A \<open>drop\<close> returns what
  is in the object's memory after it: the fields as its body leaves them, and then as the drops of the
  fields themselves leave them. Copies that were made of a value before are not part of the object.
\<close>

section \<open>Accessors\<close>

definition public_context :: "('pk, 'sys) public_key \<Rightarrow> bytes" where
  "public_context public = pub_context public"

definition public_performance_profile :: "('pk, 'sys) public_key \<Rightarrow> performance_profile" where
  "public_performance_profile public = pub_profile public"

definition public_application_context :: "('pk, 'sys) public_key \<Rightarrow> bytes" where
  "public_application_context public = pub_application_context public"

text \<open>A clone shares the immutable contents.\<close>

definition public_clone :: "('pk, 'sys) public_key \<Rightarrow> ('pk, 'sys) public_key" where
  "public_clone public = public"

definition issuer_public_key :: "('pk, 'sk, 'sys) issuer \<Rightarrow> ('pk, 'sys) public_key" where
  "issuer_public_key issuer = iss_public issuer"

definition request_commitment :: "('g, 'proof) issue_request \<Rightarrow> 'g list" where
  "request_commitment request = req_commitment request"

definition request_proof :: "('g, 'proof) issue_request \<Rightarrow> 'proof" where
  "request_proof request = req_proof request"

definition response_clone :: "'g issue_response \<Rightarrow> 'g issue_response" where
  "response_clone response = \<lparr>resp_signature = resp_signature response, resp_salt = resp_salt response\<rparr>"

definition credential_context_of :: "'g credential \<Rightarrow> credential_context" where
  "credential_context_of cred = cred_credential_context cred"

definition presentation_tag :: "'proof presentation \<Rightarrow> bytes" where
  "presentation_tag pres = pres_tag pres"

definition presentation_proof :: "'proof presentation \<Rightarrow> 'proof" where
  "presentation_proof pres = pres_proof pres"

definition storage_scope :: "verified_presentation \<Rightarrow> bytes" where
  "storage_scope verified = vp_scope verified"

definition verified_tag :: "verified_presentation \<Rightarrow> bytes" where
  "verified_tag verified = vp_tag verified"

definition verifier_public_key :: "('pk, 'sys, 's) verifier \<Rightarrow> ('pk, 'sys) public_key" where
  "verifier_public_key v = ver_public v"

definition verifier_store :: "('pk, 'sys, 's) verifier \<Rightarrow> 's" where
  "verifier_store v = ver_store v"

text \<open>What a caller does through the mutable borrow is a function on the store.\<close>

definition verifier_store_mut :: "('s \<Rightarrow> 's) \<Rightarrow> ('pk, 'sys, 's) verifier \<Rightarrow> ('pk, 'sys, 's) verifier" where
  "verifier_store_mut change v = v\<lparr>ver_store := change (ver_store v)\<rparr>"

definition challenge_credential_context :: "presentation_challenge \<Rightarrow> credential_context" where
  "challenge_credential_context challenge = ch_credential_context challenge"

definition challenge_presentation_context :: "presentation_challenge \<Rightarrow> presentation_context" where
  "challenge_presentation_context challenge = ch_presentation_context challenge"

definition challenge_binding :: "presentation_challenge \<Rightarrow> presentation_binding" where
  "challenge_binding challenge = ch_binding challenge"

definition challenge_limit :: "presentation_challenge \<Rightarrow> u32" where
  "challenge_limit challenge = ch_limit challenge"

section \<open>Debug\<close>

text \<open>What the builder \<open>debug_struct\<close> of the standard library is given: the name of the struct, the fields
  shown, and whether \<open>finish_non_exhaustive\<close> says that there are others.\<close>

datatype debug_value = DebugStr bytes | DebugArray bytes

record debug_struct =
  debug_name :: string
  debug_fields :: "(string \<times> debug_value) list"
  debug_non_exhaustive :: bool

definition debug_public_key ::
  "('g, 'z) suite_scheme \<Rightarrow> ('pk, 'sys) public_key \<Rightarrow> debug_struct" where
  "debug_public_key S public = \<lparr>debug_name = ''PublicKey'',
     debug_fields = [(''parameter_set'', DebugStr (P_NAME (mp S))), (''context'', DebugArray (pub_context public))],
     debug_non_exhaustive = True\<rparr>"

definition debug_response :: "('g, 'z) suite_scheme \<Rightarrow> 'g issue_response \<Rightarrow> debug_struct" where
  "debug_response S response = \<lparr>debug_name = ''IssueResponse'',
     debug_fields = [(''parameter_set'', DebugStr (P_NAME (mp S)))], debug_non_exhaustive = True\<rparr>"

section \<open>Drop\<close>

record 'g zeroize =
  zeroize_array :: "bytes \<Rightarrow> bytes"
  zeroize_vec :: "'g list \<Rightarrow> 'g list"
  zeroize_u32 :: "u32 \<Rightarrow> u32"

definition drop_counter_key :: "'g zeroize \<Rightarrow> counter_key \<Rightarrow> counter_key" where
  "drop_counter_key Z key = CounterKey (zeroize_array Z (key_bytes key))"

definition drop_pending :: "'g zeroize \<Rightarrow> 'g pending_issue \<Rightarrow> 'g pending_issue" where
  "drop_pending Z p =
     (let p = p\<lparr>pend_issuer_context := zeroize_array Z (pend_issuer_context p)\<rparr>;
          p = p\<lparr>pend_credential_context :=
                CredentialContext (zeroize_array Z (credential_digest (pend_credential_context p)))\<rparr>;
          p = p\<lparr>pend_secret := zeroize_array Z (pend_secret p)\<rparr>;
          p = p\<lparr>pend_hiding_nonce := zeroize_array Z (pend_hiding_nonce p)\<rparr>
      in p\<lparr>pend_commitment := zeroize_vec Z (pend_commitment p)\<rparr>)"

definition drop_response :: "'g zeroize \<Rightarrow> 'g issue_response \<Rightarrow> 'g issue_response" where
  "drop_response Z r =
     (let r = r\<lparr>resp_signature := zeroize_vec Z (resp_signature r)\<rparr>
      in r\<lparr>resp_salt := zeroize_array Z (resp_salt r)\<rparr>)"

text \<open>The body of \<open>Drop\<close> for \<open>Credential\<close>; then its fields are dropped, the keys of the counter map
  among them.\<close>

definition drop_credential_body :: "'g zeroize \<Rightarrow> 'g credential \<Rightarrow> 'g credential" where
  "drop_credential_body Z c =
     (let c = c\<lparr>cred_issuer_context := zeroize_array Z (cred_issuer_context c)\<rparr>;
          c = c\<lparr>cred_credential_context :=
                CredentialContext (zeroize_array Z (credential_digest (cred_credential_context c)))\<rparr>;
          c = c\<lparr>cred_signature := zeroize_vec Z (cred_signature c)\<rparr>;
          c = c\<lparr>cred_secret := zeroize_array Z (cred_secret c)\<rparr>;
          c = c\<lparr>cred_hiding_nonce := zeroize_array Z (cred_hiding_nonce c)\<rparr>;
          c = c\<lparr>cred_salt := zeroize_array Z (cred_salt c)\<rparr>
      in c\<lparr>cred_next_nonces := map (\<lambda>(key, next_nonce). (key, zeroize_u32 Z next_nonce)) (cred_next_nonces c)\<rparr>)"

definition drop_credential :: "'g zeroize \<Rightarrow> 'g credential \<Rightarrow> 'g credential" where
  "drop_credential Z c =
     (let c = drop_credential_body Z c
      in c\<lparr>cred_next_nonces := map (\<lambda>(key, next_nonce). (drop_counter_key Z key, next_nonce)) (cred_next_nonces c)\<rparr>)"

text \<open>The documented behaviour of \<open>zeroize\<close>: what was there leaves no trace but its size.\<close>

definition zeroize_laws :: "'g zeroize \<Rightarrow> bool" where
  "zeroize_laws Z \<longleftrightarrow>
     (\<forall>xs ys. length xs = length ys \<longrightarrow> zeroize_array Z xs = zeroize_array Z ys) \<and>
     (\<forall>xs ys. length xs = length ys \<longrightarrow> zeroize_vec Z xs = zeroize_vec Z ys) \<and>
     (\<forall>m n. zeroize_u32 Z m = zeroize_u32 Z n)"

lemma zeroizeD:
  assumes "zeroize_laws Z"
  shows "length xs = length ys \<Longrightarrow> zeroize_array Z xs = zeroize_array Z ys"
    and "length gs = length hs \<Longrightarrow> zeroize_vec Z gs = zeroize_vec Z hs"
    and "zeroize_u32 Z m = zeroize_u32 Z n"
  using assms unfolding zeroize_laws_def by blast+

lemma drop_counters:
  assumes Z: "zeroize_laws Z" and "length m = length m'" and "list_all counter_ok m" and "list_all counter_ok m'"
  shows "map (\<lambda>(key, n). (drop_counter_key Z key, zeroize_u32 Z n)) m =
    map (\<lambda>(key, n). (drop_counter_key Z key, zeroize_u32 Z n)) m'"
  using assms(2-4)
proof (induction m m' rule: list_induct2)
  case Nil
  show ?case by simp
next
  case (Cons kn m kn' m')
  from Cons.prems have "length (key_bytes (fst kn)) = length (key_bytes (fst kn'))" by (simp add: counter_ok_def)
  then have "drop_counter_key Z (fst kn) = drop_counter_key Z (fst kn')"
    unfolding drop_counter_key_def counter_key.inject by (rule zeroizeD(1)[OF Z])
  moreover have "zeroize_u32 Z (snd kn) = zeroize_u32 Z (snd kn')" by (rule zeroizeD(3)[OF Z])
  ultimately show ?case using Cons.IH Cons.prems by (simp add: split_beta)
qed

lemma drop_credential_counters:
  "cred_next_nonces (drop_credential Z c) =
     map (\<lambda>(key, n). (drop_counter_key Z key, zeroize_u32 Z n)) (cred_next_nonces c)"
  by (simp add: drop_credential_def drop_credential_body_def Let_def split_beta comp_def)


definition demo_zeroize :: "4 word zeroize" where
  "demo_zeroize = \<lparr>zeroize_array = \<lambda>xs. replicate (length xs) 0, zeroize_vec = \<lambda>_. [], zeroize_u32 = \<lambda>_. 0\<rparr>"

lemma demo_zeroize_laws: "zeroize_laws demo_zeroize"
  by (simp add: zeroize_laws_def demo_zeroize_def)


end
