(* ===== verification/Sealed.thy ===== *)
theory Sealed
  imports Binding Accounting
begin

text \<open>
  What a proof is good for. The proof system hashes the statement into every challenge of the proof
  (Fiat and Shamir), so a proof verifies for the statement that it was made for and no other; together
  with the injective statements of theory Binding this ties every presentation and every request to one
  issuer, one challenge or context, one tag or commitment.
\<close>

section \<open>The statement is part of the proof\<close>

definition proof_binding :: "('g, 'pk, 'sk, 'sys, 'proof, 'rng, 'z) deps_scheme \<Rightarrow> bool" where
  "proof_binding D \<longleftrightarrow>
     (\<forall>params statement circuit ws r p r' params' statement' circuit'.
        vole_prove D params statement circuit ws r = (Inr p, r') \<longrightarrow>
        vole_verify D params' statement' circuit' p = Inr () \<longrightarrow> statement' = statement)"

lemma proof_bindingD:
  "proof_binding D \<Longrightarrow> vole_prove D params statement circuit ws r = (Inr p, r') \<Longrightarrow>
     vole_verify D params' statement' circuit' p = Inr () \<Longrightarrow> statement' = statement"
  unfolding proof_binding_def by blast

lemma not_isl_fst: "\<not> isl (fst x) \<Longrightarrow> \<exists>a b. x = (Inr a, b)"
  by (cases x; cases "fst x") auto

text \<open>A proof is produced for the statement of the operation.\<close>

lemma present_proof:
  assumes "present D public ch c r = Some (Inr pres, c', r')"
  obtains ws r1 r2 where "vole_prove D (profile_params (vole D) (pub_profile public))
    (presentation_statement D (pub_context public) ch (pres_tag pres))
    (Presenting (present_circuit D public ch (pres_tag pres))) ws r1 = (Inr (pres_proof pres), r2)"
  using assms by (auto simp: present_eq split: option.splits prod.splits sum.splits)

lemma prepare_proof:
  assumes "prepare_issue D public cctx r = Some (Inr (pending, request), r')"
  obtains circuit ws r1 r2 where "vole_prove D (profile_params (vole D) (pub_profile public))
    (issue_statement D (pub_context public) (credential_digest cctx) (req_commitment request))
    circuit ws r1 = (Inr (req_proof request), r2)"
  using assms by (auto simp: prepare_issue_def Let_def bind_eq_Some_conv rbind_eq_Inr split_beta prod_eq_iff)

lemma prepare_commitment:
  "prepare_issue D public cctx r = Some (Inr (pending, request), r') \<Longrightarrow> length (req_commitment request) = P_M (mp D)"
  by (auto simp: prepare_issue_def Let_def bind_eq_Some_conv rbind_eq_Inr split_beta)

text \<open>Acceptance is acceptance for the statement of the verifier, and of the issuer.\<close>

lemma verify_statement:
  "verify_proof_only D public ch pres = Inr x \<Longrightarrow>
     vole_verify D (profile_params (vole D) (pub_profile public))
       (presentation_statement D (pub_context public) ch (pres_tag pres))
       (Presenting (present_circuit D public ch (pres_tag pres))) (pres_proof pres) = Inr ()"
  by (auto simp: verify_proof_only_eq split: if_splits sum.splits)

lemma issue_statement_verified:
  "issue D issuer request cctx r = (Inr response, r') \<Longrightarrow>
     length (req_commitment request) = P_M (mp D) \<and>
     vole_verify D (profile_params (vole D) (pub_profile (iss_public issuer)))
       (issue_statement D (pub_context (iss_public issuer)) (credential_digest cctx) (req_commitment request))
       (Issuance (commitment_circuit D (iss_public issuer) cctx (req_commitment request))) (req_proof request) = Inr ()"
  by (auto simp: issue_eq split: if_splits sum.splits)

text \<open>A presentation that is accepted has not been moved; one that has been moved is refused as an invalid proof.\<close>

lemma presentation_moved:
  assumes "proof_binding D" and "small (P_NAME (mp D))"
    and "length (pub_context public) = 32" and "length (pub_context public') = 32"
    and "challenge_sized ch" and "challenge_sized ch'"
    and "present D public ch c r = Some (Inr pres, c', r')"
    and "verify_proof_only D public' ch' \<lparr>pres_tag = tag, pres_proof = pres_proof pres\<rparr> = Inr x"
  shows "pub_context public' = pub_context public \<and> ch' = ch \<and> tag = pres_tag pres"
proof -
  obtain ws ra rb where made: "vole_prove D (profile_params (vole D) (pub_profile public))
      (presentation_statement D (pub_context public) ch (pres_tag pres))
      (Presenting (present_circuit D public ch (pres_tag pres))) ws ra = (Inr (pres_proof pres), rb)"
    by (rule present_proof[OF assms(7)])
  show ?thesis
    using proof_bindingD[OF assms(1) made verify_statement[OF assms(8), simplified]]
    unfolding presentation_statement_inject[OF assms(2,2,4,3,6,5)] by blast
qed

lemma presentation_moved_refused:
  assumes "proof_binding D" and "small (P_NAME (mp D))"
    and "length (pub_context public) = 32" and "length (pub_context public') = 32"
    and "challenge_sized ch" and "challenge_sized ch'"
    and "present D public ch c r = Some (Inr pres, c', r')"
    and "ch_limit ch' \<noteq> 0" and "ch' \<noteq> ch \<or> tag \<noteq> pres_tag pres"
  shows "verify_proof_only D public' ch' \<lparr>pres_tag = tag, pres_proof = pres_proof pres\<rparr> = Inl InvalidProof"
  using presentation_moved[OF assms(1-7), of tag] assms(8,9)
  by (fastforce simp: verify_proof_only_eq split: sum.splits)

text \<open>C12: a presentation is good for one challenge. If the proof of a presentation, under any tag, is accepted
  by anybody, then under the issuer context it was made for, for the very challenge it was made for (its
  credential context, presentation context, limit and request binding) and with its own tag; and no
  issuer accepts it as the proof of a request.\<close>

theorem presentation_bound:
  assumes "proof_binding D" and "small (P_NAME (mp D))"
    and "length (pub_context public) = 32" and "length (pub_context public') = 32"
    and "challenge_sized ch" and "challenge_sized ch'"
    and "present D public ch c r = Some (Inr pres, c', r')"
  shows "(verify_proof_only D public' ch' \<lparr>pres_tag = tag, pres_proof = pres_proof pres\<rparr> = Inr x \<longrightarrow>
      pub_context public' = pub_context public \<and> ch' = ch \<and> tag = pres_tag pres) \<and>
    isl (fst (issue D issuer \<lparr>req_commitment = commitment, req_proof = pres_proof pres\<rparr> cctx r2))"
proof (rule conjI[OF impI])
  obtain ws ra rb where made: "vole_prove D (profile_params (vole D) (pub_profile public))
      (presentation_statement D (pub_context public) ch (pres_tag pres))
      (Presenting (present_circuit D public ch (pres_tag pres))) ws ra = (Inr (pres_proof pres), rb)"
    by (rule present_proof[OF assms(7)])
  note bound = proof_bindingD[OF assms(1) made]
  show "pub_context public' = pub_context public \<and> ch' = ch \<and> tag = pres_tag pres"
    if "verify_proof_only D public' ch' \<lparr>pres_tag = tag, pres_proof = pres_proof pres\<rparr> = Inr x"
    by (rule presentation_moved[OF assms that])
  show "isl (fst (issue D issuer \<lparr>req_commitment = commitment, req_proof = pres_proof pres\<rparr> cctx r2))"
  proof (rule ccontr)
    assume "\<not> ?thesis"
    then obtain response r3 where "issue D issuer \<lparr>req_commitment = commitment, req_proof = pres_proof pres\<rparr> cctx r2 =
        (Inr response, r3)"
      using not_isl_fst by blast
    note ok = issue_statement_verified[OF this, simplified, THEN conjunct2]
    from bound[OF ok] statements_separate show False by metis
  qed
qed

text \<open>The same for a request.\<close>

lemma request_moved:
  assumes "proof_binding D" and "gf16_laws D" and "P_M (mp D) < 2 ^ 64"
    and "length (pub_context public) = 32" and "length (pub_context (iss_public issuer)) = 32"
    and "length (credential_digest cctx) = 32" and "length (credential_digest cctx') = 32"
    and "prepare_issue D public cctx r = Some (Inr (pending, request), r')"
    and "issue D issuer \<lparr>req_commitment = commitment, req_proof = req_proof request\<rparr> cctx' r1 = (Inr response, r2)"
  shows "pub_context (iss_public issuer) = pub_context public \<and> cctx' = cctx \<and> commitment = req_commitment request"
proof -
  obtain circuit ws ra rb where made: "vole_prove D (profile_params (vole D) (pub_profile public))
      (issue_statement D (pub_context public) (credential_digest cctx) (req_commitment request))
      circuit ws ra = (Inr (req_proof request), rb)"
    by (rule prepare_proof[OF assms(8)])
  note ok = issue_statement_verified[OF assms(9), simplified]
  have len: "length (req_commitment request) < 2 ^ 64" "length commitment < 2 ^ 64"
    using ok assms(3) prepare_commitment[OF assms(8)] by simp_all
  have "pub_context (iss_public issuer) = pub_context public \<and> credential_digest cctx' = credential_digest cctx \<and>
      commitment = req_commitment request"
    using proof_bindingD[OF assms(1) made ok[THEN conjunct2]]
      issue_statement_inject[OF assms(2,5,4,7,6) len(2,1)] by blast
  then show ?thesis by (auto intro: credential_context.expand)
qed

lemma issue_refused:
  "issue D issuer request cctx r = (Inl e, r') \<Longrightarrow>
     e = SigningFailed \<or> (e = (if length (req_commitment request) \<noteq> P_M (mp D) then InvalidRequest else InvalidProof) \<and> r' = r)"
  by (auto simp: issue_eq split: if_splits sum.splits prod.splits option.splits)

lemma request_moved_refused:
  assumes "proof_binding D" and "gf16_laws D" and "P_M (mp D) < 2 ^ 64"
    and "length (pub_context public) = 32" and "length (pub_context (iss_public issuer)) = 32"
    and "length (credential_digest cctx) = 32" and "length (credential_digest cctx') = 32"
    and "prepare_issue D public cctx r = Some (Inr (pending, request), r')" and "cctx' \<noteq> cctx"
  shows "issue D issuer request cctx' r1 = (Inl InvalidProof, r1)"
proof -
  let ?C = "commitment_circuit D (iss_public issuer) cctx' (req_commitment request)"
  obtain circuit ws ra rb where made: "vole_prove D (profile_params (vole D) (pub_profile public))
      (issue_statement D (pub_context public) (credential_digest cctx) (req_commitment request))
      circuit ws ra = (Inr (req_proof request), rb)"
    by (rule prepare_proof[OF assms(8)])
  have len: "length (req_commitment request) < 2 ^ 64" using assms(3) prepare_commitment[OF assms(8)] by simp
  have "vole_verify D (profile_params (vole D) (pub_profile (iss_public issuer)))
      (issue_statement D (pub_context (iss_public issuer)) (credential_digest cctx') (req_commitment request))
      (Issuance ?C) (req_proof request) \<noteq> Inr ()"
    using proof_bindingD[OF assms(1) made] issue_statement_inject[OF assms(2,5,4,7,6) len len] assms(9)
    by (metis credential_context.expand)
  then show ?thesis
    using prepare_commitment[OF assms(8)] by (simp add: issue_eq split: sum.split)
qed

text \<open>C13: a request is good for one issuer and one credential context. If an issuer signs on the proof of a request,
  then with the commitment of that request, in the credential context and under the issuer context it was
  made for; no verifier accepts it as a presentation; and a request that is refused has cost the issuer no
  randomness.\<close>

theorem request_bound:
  assumes "proof_binding D" and "gf16_laws D" and "P_M (mp D) < 2 ^ 64"
    and "length (pub_context public) = 32" and "length (pub_context (iss_public issuer)) = 32"
    and "length (credential_digest cctx) = 32" and "length (credential_digest cctx') = 32"
    and "prepare_issue D public cctx r = Some (Inr (pending, request), r')"
  shows "(case issue D issuer \<lparr>req_commitment = commitment, req_proof = req_proof request\<rparr> cctx' r1 of
      (Inr response, r2) \<Rightarrow> pub_context (iss_public issuer) = pub_context public \<and> cctx' = cctx \<and>
        commitment = req_commitment request
    | (Inl e, r2) \<Rightarrow> e = SigningFailed \<or> e \<in> {InvalidRequest, InvalidProof} \<and> r2 = r1) \<and>
    isl (verify_proof_only D public' ch \<lparr>pres_tag = tag, pres_proof = req_proof request\<rparr>)"
proof
  let ?request = "\<lparr>req_commitment = commitment, req_proof = req_proof request\<rparr>"
  obtain res r2 where run: "issue D issuer ?request cctx' r1 = (res, r2)" by force
  show "case issue D issuer ?request cctx' r1 of
      (Inr response, r2) \<Rightarrow> pub_context (iss_public issuer) = pub_context public \<and> cctx' = cctx \<and>
        commitment = req_commitment request
    | (Inl e, r2) \<Rightarrow> e = SigningFailed \<or> e \<in> {InvalidRequest, InvalidProof} \<and> r2 = r1"
  proof (cases res)
    case (Inl e)
    with run issue_refused[OF run[unfolded Inl]] show ?thesis by (auto split: if_splits)
  next
    case (Inr response)
    with run request_moved[OF assms(1-8) run[unfolded Inr]] show ?thesis by simp
  qed
  show "isl (verify_proof_only D public' ch \<lparr>pres_tag = tag, pres_proof = req_proof request\<rparr>)"
  proof (rule ccontr)
    assume "\<not> ?thesis"
    then obtain x where ok: "verify_proof_only D public' ch \<lparr>pres_tag = tag, pres_proof = req_proof request\<rparr> = Inr x"
      by (cases "verify_proof_only D public' ch \<lparr>pres_tag = tag, pres_proof = req_proof request\<rparr>") simp_all
    obtain circuit ws ra rb where made: "vole_prove D (profile_params (vole D) (pub_profile public))
        (issue_statement D (pub_context public) (credential_digest cctx) (req_commitment request))
        circuit ws ra = (Inr (req_proof request), rb)"
      by (rule prepare_proof[OF assms(8)])
    from proof_bindingD[OF assms(1) made verify_statement[OF ok, simplified]] show False
      using statements_separate by metis
  qed
qed

section \<open>An instance\<close>

text \<open>The demonstration's crates, with a proof system whose proofs carry their statement.\<close>

definition sealed_to_bytes :: "bytes \<times> bool list \<Rightarrow> bytes" where
  "sealed_to_bytes p = map of_bool (snd p) @ 2 # fst p"

definition sealed_from_bytes :: "bytes \<Rightarrow> proof_decode_error + bytes \<times> bool list" where
  "sealed_from_bytes bs =
     (case dropWhile (\<lambda>b. b = 0 \<or> b = 1) bs of
        [] \<Rightarrow> Inl ProofInvalidEncoding
      | b # statement \<Rightarrow>
          if b = 2 then Inr (statement, map (\<lambda>b. b = 1) (takeWhile (\<lambda>b. b = 0 \<or> b = 1) bs))
          else Inl ProofInvalidEncoding)"

definition sealed_deps :: "(4 word, unit, unit, unit, bytes \<times> bool list, nat) deps" where
  "sealed_deps = suite.extend demo_suite
     \<lparr>fill_bytes = fill_bytes demo_deps, trapgen = trapgen demo_deps, mayo_eval = mayo_eval demo_deps,
      spre = spre demo_deps, visit_forms = visit_forms demo_deps,
      pk_to_bytes = pk_to_bytes demo_deps, pk_from_bytes = pk_from_bytes demo_deps,
      sk_to_bytes = sk_to_bytes demo_deps, sk_from_bytes = sk_from_bytes demo_deps,
      sk_public_key = sk_public_key demo_deps, vole = vole demo_deps,
      vole_prove = \<lambda>_ statement circuit ws r.
        (if satisfies demo_suite demo_embed demo_holds circuit ws then Inr (statement, ws) else Inl Unsatisfiable, r + 1),
      vole_verify = \<lambda>_ statement circuit p.
        if fst p = statement \<and> satisfies demo_suite demo_embed demo_holds circuit (snd p)
        then Inr () else Inl Unsatisfiable,
      proof_to_bytes = sealed_to_bytes, proof_from_bytes = sealed_from_bytes\<rparr>"

lemma sealed_fields:
  "fill_bytes sealed_deps = fill_bytes demo_deps" "trapgen sealed_deps = trapgen demo_deps"
  "mayo_eval sealed_deps = mayo_eval demo_deps" "spre sealed_deps = spre demo_deps"
  "visit_forms sealed_deps = visit_forms demo_deps" "sk_public_key sealed_deps = sk_public_key demo_deps"
  "pk_to_bytes sealed_deps = pk_to_bytes demo_deps" "pk_from_bytes sealed_deps = pk_from_bytes demo_deps"
  "sk_to_bytes sealed_deps = sk_to_bytes demo_deps" "sk_from_bytes sealed_deps = sk_from_bytes demo_deps"
  "vole sealed_deps = vole demo_deps"
  "sha3 sealed_deps = sha3 demo_deps" "mp sealed_deps = mp demo_deps"
  "gf16_slice_as_bytes sealed_deps = gf16_slice_as_bytes demo_deps"
  "gf16_new sealed_deps = gf16_new demo_deps" "gf16_to_u8 sealed_deps = gf16_to_u8 demo_deps"
  by (simp_all add: sealed_deps_def demo_deps_def demo_suite_def suite.defs gf16_ops.defs)

lemma sealed_proofs:
  "vole_prove sealed_deps params statement circuit ws r =
     (if satisfies demo_suite demo_embed demo_holds circuit ws then Inr (statement, ws) else Inl Unsatisfiable, r + 1)"
  "vole_verify sealed_deps params statement circuit p =
     (if fst p = statement \<and> satisfies demo_suite demo_embed demo_holds circuit (snd p) then Inr () else Inl Unsatisfiable)"
  "proof_to_bytes sealed_deps = sealed_to_bytes" "proof_from_bytes sealed_deps = sealed_from_bytes"
  by (simp_all add: sealed_deps_def demo_suite_def suite.defs gf16_ops.defs)

lemma sealed_setting: "setting sealed_deps demo_embed demo_holds"
proof -
  have "system_of sealed_deps = system_of demo_deps" by (simp add: fun_eq_iff system_of_def sealed_fields)
  then show ?thesis
    using demo_setting
    by (simp add: setting_def field_laws_def gf16_laws_def embed_additive_def slice_laws_def xof_laws_def rng_laws_def
        eval_laws_def mayo_system_laws_def trapdoor_laws_def one_block_def sealed_fields)
qed

lemma sealed_builds:
  "issue_build B sealed_deps C = issue_build B demo_suite C"
  "presentation_build B sealed_deps emb P = presentation_build B demo_suite emb P"
proof -
  have lift: "lift_gf16 B sealed_deps emb = lift_gf16 B demo_suite emb"
    by (simp add: fun_eq_iff lift_gf16_def sealed_fields demo_suite_def)
  have "lift_nibbles B sealed_deps emb = lift_nibbles B demo_suite emb"
    by (intro ext) (simp only: lift_nibbles_def lift)
  then show "presentation_build B sealed_deps emb P = presentation_build B demo_suite emb P"
    by (simp only: presentation_build_def sealed_fields demo_deps_simps demo_mp)
  have "target_constant_bits B sealed_deps = target_constant_bits B demo_suite"
    by (simp add: fun_eq_iff target_constant_bits_def gf16_bits_def sealed_fields demo_suite_def)
  then show "issue_build B sealed_deps C = issue_build B demo_suite C"
    by (simp only: issue_build_def sealed_fields demo_deps_simps demo_mp)
qed

lemma sealed_satisfies:
  "satisfies sealed_deps demo_embed demo_holds circuit ws = satisfies demo_suite demo_embed demo_holds circuit ws"
  by (simp add: satisfies_def sealed_builds split: relation_circuit.split)

lemma sealed_proof_laws:
  "proof_sound sealed_deps demo_embed demo_holds" "proof_complete sealed_deps demo_embed demo_holds"
  "proof_binding sealed_deps"
  by (auto simp: proof_sound_def proof_complete_def proof_binding_def sealed_satisfies sealed_proofs split: if_splits)

lemma of_bool_byte: "b = 0 \<or> b = 1 \<Longrightarrow> of_bool (b = 1) = (b :: byte)"
  by auto

lemma split_bits:
  "dropWhile (\<lambda>b. b = 0 \<or> b = 1) (map of_bool ws @ (2 :: byte) # st) = 2 # st"
  "takeWhile (\<lambda>b. b = 0 \<or> b = 1) (map of_bool ws @ (2 :: byte) # st) = map of_bool ws"
  by (induction ws) auto

lemma sealed_roundtrip: "sealed_from_bytes (sealed_to_bytes p) = Inr p"
  by (cases p) (simp add: sealed_from_bytes_def sealed_to_bytes_def split_bits comp_def)

lemma sealed_canonical: "canonical_keys sealed_deps" "canonical_proofs sealed_deps"
proof -
  show "canonical_keys sealed_deps"
    using demo_canonical(1) by (simp add: canonical_keys_def sealed_fields)
  have "sealed_to_bytes p = bs" if "sealed_from_bytes bs = Inr p" for bs p
  proof -
    from that obtain st where st: "dropWhile (\<lambda>b. b = 0 \<or> b = 1) bs = 2 # st"
      and p: "p = (st, map (\<lambda>b. b = 1) (takeWhile (\<lambda>b. b = 0 \<or> b = 1) bs))"
      by (auto simp: sealed_from_bytes_def split: list.splits if_splits)
    have "map (of_bool \<circ> (\<lambda>b. b = 1)) (takeWhile (\<lambda>b. b = 0 \<or> b = 1) bs) = takeWhile (\<lambda>b. b = 0 \<or> b = 1) bs"
      by (intro map_idI) (auto dest: set_takeWhileD)
    then show ?thesis
      using takeWhile_dropWhile_id[of "\<lambda>b. b = 0 \<or> b = 1" bs] by (simp add: sealed_to_bytes_def p st)
  qed
  then show "canonical_proofs sealed_deps" by (simp add: canonical_proofs_def sealed_proofs)
qed

lemma sealed_signs: "issue sealed_deps issuer request cctx r \<noteq> (Inl SigningFailed, r')"
proof
  assume "issue sealed_deps issuer request cctx r = (Inl SigningFailed, r')"
  from issue_signing_failed[OF this] show False by (simp add: sealed_fields)
qed

text \<open>An issuance and a presentation over these crates.\<close>

lemma sealed_run:
  obtains public pending request r1 r2 r3 c pres c' r4 x where
    "prepare_issue sealed_deps public (CredentialContext (replicate 32 2)) r1 = Some (Inr (pending, request), r2)"
    "present sealed_deps public (demo_challenge 1) c r3 = Some (Inr pres, c', r4)"
    "verify_proof_only sealed_deps public (demo_challenge 1) pres = Inr x" "length (pub_context public) = 32"
proof (rule honest_issuance[OF sealed_setting sealed_proof_laws(2), of "[1, 2]" "CredentialContext (replicate 32 2)" Balanced 0],
    goal_cases bound len signed failed)
  case bound
  show ?case by (simp add: MAX_APPLICATION_CONTEXT_BYTES_def)
next
  case len
  show ?case by simp
next
  case (signed issuer r1 pending request r2 response r3 c)
  have ch: "ch_credential_context (demo_challenge 1) = cred_credential_context c" "ch_limit (demo_challenge 1) \<noteq> 0"
    by (simp_all add: signed(8))
  obtain pres c' r' x v' where "present sealed_deps (iss_public issuer) (demo_challenge 1) c r3 = Some (Inr pres, c', r')"
    and "verify_proof_only sealed_deps (iss_public issuer) (demo_challenge 1) pres = Inr x"
    by (rule first_presentation[OF sealed_setting sealed_proof_laws(2) signed(6,7,9) ch])
  then show thesis by (rule signed(1)[OF signed(3) _ _ genuine_context[OF sealed_setting signed(6)]])
next
  case failed
  with sealed_signs show thesis by metis
qed

lemma sealed_small: "small (P_NAME (mp sealed_deps))"
  by (simp add: sealed_fields small_def demo_params_def)

lemma demo_challenge_sized: "challenge_sized (demo_challenge l)"
  by (simp add: challenge_sized_def) (simp add: demo_challenge_def)

theorem presentation_bound_witness:
  "\<exists>public ch pres x. verify_proof_only sealed_deps public ch pres = Inr x \<and>
     isl (verify_proof_only sealed_deps public (demo_challenge 2) pres)"
proof -
  obtain public pending request r1 r2 r3 c pres c' r4 x where
    run: "present sealed_deps public (demo_challenge 1) c r3 = Some (Inr pres, c', r4)"
    and ok: "verify_proof_only sealed_deps public (demo_challenge 1) pres = Inr x" and len: "length (pub_context public) = 32"
    by (rule sealed_run)
  have "demo_challenge 2 \<noteq> demo_challenge 1" by (simp add: demo_challenge_def)
  moreover have "\<lparr>pres_tag = pres_tag pres, pres_proof = pres_proof pres\<rparr> = pres" by (cases pres) simp
  ultimately have "verify_proof_only sealed_deps public (demo_challenge 2) pres \<noteq> Inr y" for y
    using presentation_bound[OF sealed_proof_laws(3) sealed_small len len demo_challenge_sized demo_challenge_sized run,
      of 2 "pres_tag pres"] by metis
  then have "isl (verify_proof_only sealed_deps public (demo_challenge 2) pres)"
    by (metis isl_def sum.exhaust)
  with ok show ?thesis by blast
qed

theorem request_bound_witness:
  "\<exists>public pending request. (\<exists>r1 r2. prepare_issue sealed_deps public (CredentialContext (replicate 32 2)) r1 =
      Some (Inr (pending, request), r2)) \<and>
     isl (fst (issue sealed_deps \<lparr>iss_secret = (), iss_public = public\<rparr> request (CredentialContext (replicate 32 9)) 5))"
proof -
  obtain public pending request r1 r2 r3 c pres c' r4 x where
    prep: "prepare_issue sealed_deps public (CredentialContext (replicate 32 2)) r1 = Some (Inr (pending, request), r2)"
    and len: "length (pub_context public) = 32"
    by (rule sealed_run)
  let ?issuer = "\<lparr>iss_secret = (), iss_public = public\<rparr>"
  have laws: "gf16_laws sealed_deps" "P_M (mp sealed_deps) < 2 ^ 64"
    using settingD(9)[OF sealed_setting] by (simp_all add: sealed_fields demo_params_def)
  have lens: "length (credential_digest (CredentialContext (replicate 32 n))) = 32" for n by simp
  have pub: "length (pub_context (iss_public ?issuer)) = 32" by (simp add: len)
  have "CredentialContext (replicate 32 9) \<noteq> CredentialContext (replicate 32 2)" by simp
  moreover have same: "\<lparr>req_commitment = req_commitment request, req_proof = req_proof request\<rparr> = request" by (cases request) simp
  ultimately have "isl (fst (issue sealed_deps ?issuer request (CredentialContext (replicate 32 9)) 5))"
    using request_bound[OF sealed_proof_laws(3) laws len pub lens lens[of 9] prep,
        where commitment = "req_commitment request" and ?r1.0 = 5, unfolded same, THEN conjunct1]
    by (simp split: prod.splits sum.splits)
  with prep show ?thesis by blast
qed

end
