(* ===== verification/Transport.thy ===== *)
theory Transport
  imports Fuzz Sealed
begin

text \<open>
  Artifacts that travel. What an honest run produces is encoded without a panic and decoded as itself, when
  the other crates do the same for their keys and proofs and these are of ordinary size. The bounds (a
  megabyte each) are far below \<open>MAX_WIRE_BYTES\<close>.
\<close>

definition transport_laws :: "('g, 'pk, 'sk, 'sys, 'proof, 'rng, 'z) deps_scheme \<Rightarrow> bool" where
  "transport_laws D \<longleftrightarrow>
     (\<forall>pk. pk_from_bytes D (pk_to_bytes D pk) = Some pk \<and> length (pk_to_bytes D pk) \<le> 2 ^ 20) \<and>
     (\<forall>sk. sk_from_bytes D (sk_to_bytes D sk) = Some sk \<and> length (sk_to_bytes D sk) \<le> 2 ^ 20) \<and>
     (\<forall>p. proof_from_bytes D (proof_to_bytes D p) = Inr p) \<and>
     P_M (mp D) \<le> 2 ^ 20 \<and> P_KN (mp D) \<le> 2 ^ 20 \<and>
     (\<forall>public cctx r pending request r'. length (pub_context public) = 32 \<longrightarrow> length (credential_digest cctx) = 32 \<longrightarrow>
        prepare_issue D public cctx r = Some (Inr (pending, request), r') \<longrightarrow>
        length (proof_to_bytes D (req_proof request)) \<le> 2 ^ 20) \<and>
     (\<forall>public ch c r pres c' r'. credential_valid D public c \<longrightarrow> challenge_sized ch \<longrightarrow>
        present D public ch c r = Some (Inr pres, c', r') \<longrightarrow>
        length (proof_to_bytes D (pres_proof pres)) \<le> 2 ^ 20)"

lemma transportD:
  assumes "transport_laws D"
  shows "pk_from_bytes D (pk_to_bytes D pk) = Some pk" "length (pk_to_bytes D pk) \<le> 1048576"
    "sk_from_bytes D (sk_to_bytes D sk) = Some sk" "length (sk_to_bytes D sk) \<le> 1048576"
    "proof_from_bytes D (proof_to_bytes D p) = Inr p" "P_M (mp D) \<le> 1048576" "P_KN (mp D) \<le> 1048576"
    "length (pub_context public) = 32 \<Longrightarrow> length (credential_digest cctx) = 32 \<Longrightarrow>
       prepare_issue D public cctx r = Some (Inr (pending, request), r') \<Longrightarrow>
       length (proof_to_bytes D (req_proof request)) \<le> 1048576"
    "credential_valid D public c \<Longrightarrow> challenge_sized ch \<Longrightarrow> present D public ch c r = Some (Inr pres, c', r') \<Longrightarrow>
       length (proof_to_bytes D (pres_proof pres)) \<le> 1048576"
proof -
  note laws = assms[unfolded transport_laws_def, simplified]
  from laws show "pk_from_bytes D (pk_to_bytes D pk) = Some pk" "length (pk_to_bytes D pk) \<le> 1048576"
    "sk_from_bytes D (sk_to_bytes D sk) = Some sk" "length (sk_to_bytes D sk) \<le> 1048576"
    "proof_from_bytes D (proof_to_bytes D p) = Inr p" "P_M (mp D) \<le> 1048576" "P_KN (mp D) \<le> 1048576" by simp_all
  show "length (proof_to_bytes D (req_proof request)) \<le> 1048576"
    if "length (pub_context public) = 32" "length (credential_digest cctx) = 32"
      "prepare_issue D public cctx r = Some (Inr (pending, request), r')"
    using laws that by blast
  show "length (proof_to_bytes D (pres_proof pres)) \<le> 1048576"
    if "credential_valid D public c" "challenge_sized ch" "present D public ch c r = Some (Inr pres, c', r')"
    using laws that by blast
qed

lemma transport_bounds: "transport_laws D \<Longrightarrow> P_M (mp D) < usize_max" "transport_laws D \<Longrightarrow> P_KN (mp D) < usize_max"
  using transportD(6,7)[of D] by (simp_all add: usize_max_def)

lemma public_key_transport:
  assumes "transport_laws D" and "genuine D public" and "length (pub_application_context public) \<le> MAX_APPLICATION_CONTEXT_BYTES"
  obtains bs where "public_key_to_bytes D public = Some bs" "public_key_from_bytes D bs = Inr public"
proof -
  have valid: "public_valid D public"
    using assms transportD(1)[OF assms(1)] by (simp add: public_valid_def genuine_def)
  obtain bs where bs: "public_key_to_bytes D public = Some bs" and "fits bs"
    using transportD(2)[OF assms(1), of "pub_mayo public"] assms(3)
    by (simp add: public_key_to_bytes_def put_bytes_def Let_def fits_def MAX_WIRE_BYTES_def MAX_APPLICATION_CONTEXT_BYTES_def)
  from that[OF bs public_key_complete[OF \<open>fits bs\<close> valid bs]] show thesis .
qed

lemma issuer_key_transport:
  assumes "transport_laws D" and "issuer_ok D issuer"
    and "length (pub_application_context (iss_public issuer)) \<le> MAX_APPLICATION_CONTEXT_BYTES"
  obtains bs where "issuer_key_bytes D issuer = Some bs" "issuer_from_key_bytes D bs = Inr issuer"
proof -
  have valid: "issuer_valid D issuer"
    using assms transportD(3)[OF assms(1)] unfolding issuer_valid_def issuer_ok_def genuine_def by metis
  obtain bs where bs: "issuer_key_bytes D issuer = Some bs" and "fits bs"
    using transportD(4)[OF assms(1), of "iss_secret issuer"] assms(3)
    by (simp add: issuer_key_bytes_def put_bytes_def Let_def fits_def MAX_WIRE_BYTES_def MAX_APPLICATION_CONTEXT_BYTES_def)
  from that[OF bs issuer_key_complete[OF \<open>fits bs\<close> valid bs]] show thesis .
qed

lemma pending_transport: "pending_valid S public p \<Longrightarrow> pending_from_bytes S public (pending_to_bytes S p) = Inr p"
  by (rule pending_complete) (clarsimp simp: pending_valid_def pending_to_bytes_def fits_def MAX_WIRE_BYTES_def Let_def)

lemma half_le: "n \<le> 1048576 \<Longrightarrow> Suc n div 2 \<le> 1048576"
  by simp

lemma request_transport:
  assumes laws: "gf16_laws D" "transport_laws D" and lens: "length (pub_context public) = 32" "length (credential_digest cctx) = 32"
    and run: "prepare_issue D public cctx r = Some (Inr (pending, request), r')"
  obtains bs where "request_to_bytes D request = Some bs" "request_from_bytes D bs = Inr request"
proof -
  have valid: "request_valid D request"
    using prepare_commitment[OF run] transportD(5)[OF laws(2)] by (simp add: request_valid_def)
  obtain bs where bs: "request_to_bytes D request = Some bs" and "fits bs"
    using transportD(8)[OF laws(2) lens run] prepare_commitment[OF run] half_le[OF transportD(6)[OF laws(2)]]
    by (simp add: request_to_bytes_def pack_nibbles_eq put_bytes_def Let_def fits_def MAX_WIRE_BYTES_def)
  from that[OF bs request_complete[OF laws(1) transport_bounds(1)[OF laws(2)] \<open>fits bs\<close> valid bs]] show thesis .
qed

lemma response_transport:
  assumes laws: "gf16_laws S" "P_KN (mp S) \<le> 1048576" and valid: "response_valid S response"
  obtains bs where "response_to_bytes S response = Some bs" "response_from_bytes S bs = Inr response"
proof -
  obtain bs where bs: "response_to_bytes S response = Some bs" and "fits bs"
    using valid half_le[OF laws(2)]
    by (simp add: response_to_bytes_def pack_nibbles_eq Let_def fits_def MAX_WIRE_BYTES_def response_valid_def)
  have "P_KN (mp S) < usize_max" using laws(2) by (simp add: usize_max_def)
  from that[OF bs response_complete[OF laws(1) this \<open>fits bs\<close> valid bs]] show thesis .
qed

lemma credential_transport:
  assumes laws: "gf16_laws D" "P_KN (mp D) \<le> 1048576" and valid: "credential_valid D public c"
  obtains bs where "credential_to_bytes D c = Some bs" "credential_from_bytes D public bs = Inr c"
proof -
  obtain bs where bs: "credential_to_bytes D c = Some bs" and "fits bs"
    using valid half_le[OF laws(2)]
    by (simp add: credential_to_bytes_def pack_nibbles_eq Let_def fits_def MAX_WIRE_BYTES_def credential_valid_def
        enc_counters_fold length_enc_counters MAX_PRESENTATION_CONTEXTS_def)
  have "P_KN (mp D) < usize_max" using laws(2) by (simp add: usize_max_def)
  from that[OF bs credential_complete[OF laws(1) this \<open>fits bs\<close> valid bs]] show thesis .
qed

lemma presentation_transport:
  assumes laws: "transport_laws D" and valid: "credential_valid D public c" and sized: "challenge_sized ch"
    and run: "present D public ch c r = Some (Inr pres, c', r')"
  obtains bs where "presentation_to_bytes D pres = Some bs" "presentation_from_bytes D bs = Inr pres"
proof -
  have tag: "length (pres_tag pres) = 32" using present_Inr(3)[OF run] by (simp add: present_tag_def)
  then have pres: "presentation_valid D pres" using transportD(5)[OF laws] by (simp add: presentation_valid_def)
  obtain bs where bs: "presentation_to_bytes D pres = Some bs" and "fits bs"
    using transportD(9)[OF laws valid sized run] tag
    by (simp add: presentation_to_bytes_def put_bytes_def Let_def fits_def MAX_WIRE_BYTES_def)
  from that[OF bs presentation_complete[OF \<open>fits bs\<close> pres bs]] show thesis .
qed

text \<open>A response that finishes is well-formed.\<close>

lemma issue_finish_response:
  assumes "setting D emb system_holds" and "issue D issuer request cctx r = (Inr response, r')"
    and "finish D pending public request' response = Inr c"
  shows "response_valid D response"
  using assms(2,3) settingD(4,5)[OF assms(1)] unfolding finish_iff[OF settingD(2)[OF assms(1)]]
  by (auto simp: response_valid_def issue_eq rng_laws_def eval_laws_def split: if_splits sum.splits prod.splits option.splits)
    (metis fst_conv option.distinct(1))+

section \<open>The demonstration's crates\<close>

lemma length_sealed_bytes: "length (sealed_to_bytes p) = length (snd p) + 1 + length (fst p)"
  by (simp add: sealed_to_bytes_def)

lemma sealed_transport: "transport_laws sealed_deps"
proof -
  have req: "length (proof_to_bytes sealed_deps (req_proof request)) \<le> 1048576"
    if "length (pub_context public) = 32" "length (credential_digest cctx) = 32"
      "prepare_issue sealed_deps public cctx r = Some (Inr (pending, request), r')"
    for public :: "(unit, unit) public_key" and cctx r pending request r'
  proof -
    from that(3) have "length (snd (req_proof request)) = 10112"
      and "fst (req_proof request) = issue_statement sealed_deps (pub_context public) (credential_digest cctx) (req_commitment request)"
      by (auto simp: prepare_issue_def Let_def bind_eq_Some_conv rbind_eq_Inr sealed_fields sealed_proofs dest!: length_issue_witness split: if_splits)
    then show ?thesis
      using that(1,2) prepare_commitment[OF that(3)]
      by (simp add: sealed_proofs length_sealed_bytes issue_statement_eq enc_len sealed_fields demo_params_def ISSUE_STATEMENT_def ascii_def)
  qed
  have pres: "length (proof_to_bytes sealed_deps (pres_proof pres)) \<le> 1048576"
    if "credential_valid sealed_deps public c" "challenge_sized ch" "present sealed_deps public ch c r = Some (Inr pres, c', r')"
    for public :: "(unit, unit) public_key" and c ch r pres c' r'
  proof -
    from that(3) have "presentation_witness sealed_deps (present_circuit sealed_deps public ch (present_tag sealed_deps c ch))
        (present_secrets c (next_nonce c (ch_presentation_context ch))) = Some (snd (pres_proof pres))"
      and st: "fst (pres_proof pres) = presentation_statement sealed_deps (pub_context public) ch (present_tag sealed_deps c ch)"
      by (auto simp: present_eq sealed_proofs split: option.splits if_splits)
    from length_presentation_witness[OF this(1)] that(1) have "length (snd (pres_proof pres)) = 29680"
      by (simp add: present_secrets_def credential_valid_def sealed_fields demo_params_def)
    moreover have "length (pub_context public) = 32"
      using that(1) present_Inr(1)[OF that(3)] by (simp add: credential_valid_def present_guard_None)
    ultimately show ?thesis
      using that(2) st
      by (simp add: sealed_proofs length_sealed_bytes presentation_statement_eq challenge_sized_def enc_len sealed_fields
          demo_params_def PRESENTATION_STATEMENT_def ascii_def present_tag_def)
  qed
  from req pres show ?thesis
    by (simp add: transport_laws_def sealed_fields sealed_proofs(3,4) sealed_roundtrip demo_params_def)
qed

end
