(* ===== verification/Scenarios.thy ===== *)
theory Scenarios
  imports Transport "HOL-Library.Monad_Syntax"
begin

text \<open>
  The scenarios of the repository's own tests as programs, from the seed on: \<open>unwrap\<close> of an error,
  \<open>unwrap_err\<close> of a success and a failed assertion are \<open>None\<close>, as is every other panic.
\<close>

section \<open>Assertions\<close>

definition assert_that :: "bool \<Rightarrow> unit option" where
  "assert_that b = (if b then Some () else None)"

definition unwrap_err :: "'e + 'a \<Rightarrow> 'e option" where
  "unwrap_err r = (case r of Inl e \<Rightarrow> Some e | Inr x \<Rightarrow> None)"

lemma assert_that_simps [simp]: "assert_that True = Some ()" "assert_that b = Some u \<longleftrightarrow> b"
  by (simp_all add: assert_that_def)

lemma unwrap_err_simps [simp]: "unwrap_err (Inl e) = Some e" "unwrap_err (Inr x) = None"
  by (simp_all add: unwrap_err_def)

definition test_challenge ::
  "xof \<Rightarrow> credential_context \<Rightarrow> presentation_context \<Rightarrow> u32 \<Rightarrow> bytes \<Rightarrow> presentation_challenge option" where
  "test_challenge xof credential_context presentation_context limit binding =
     expect (challenge_new credential_context presentation_context limit (presentation_binding_new xof binding))"

section \<open>From a new issuer to a replay\<close>

definition default_mayo2_round_trips_and_rejects_replay ::
  "('g, 'pk, 'sk, 'sys, 'proof, 'rng, 'z) deps_scheme \<Rightarrow> (u64 \<Rightarrow> 'rng) \<Rightarrow> unit option" where
  "default_mayo2_round_trips_and_rejects_replay D seed_from_u64 = do {
     let rng = seed_from_u64 0x5641524344454641;
     (issuer, rng) \<leftarrow> generate D (ascii ''default-mayo2'') rng;
     key \<leftarrow> issuer_key_bytes D issuer;
     (issuer :: ('pk, 'sk, 'sys) issuer) \<leftarrow> expect (issuer_from_key_bytes D key);
     bs \<leftarrow> public_key_to_bytes D (iss_public issuer);
     public \<leftarrow> expect (public_key_from_bytes D bs);
     let credential_context = credential_context_new (sha3 D) (ascii ''default-suite'');
     (prepared, rng) \<leftarrow> prepare_issue D public credential_context rng;
     (pending, request) \<leftarrow> expect prepared;
     let pending_bytes = pending_to_bytes D pending;
     bs \<leftarrow> request_to_bytes D request;
     request \<leftarrow> expect (request_from_bytes D bs);
     let (issued, rng) = issue D issuer request credential_context rng;
     response \<leftarrow> expect issued;
     bs \<leftarrow> response_to_bytes D response;
     response \<leftarrow> expect (response_from_bytes D bs);
     pending \<leftarrow> expect (pending_from_bytes D public pending_bytes);
     credential \<leftarrow> expect (finish D pending public request response);
     bs \<leftarrow> credential_to_bytes D credential;
     credential \<leftarrow> expect (credential_from_bytes D public bs);
     challenge \<leftarrow> test_challenge (sha3 D) credential_context
       (scoped (sha3 D) (ascii ''default.example'') (ascii ''login'') (Some (ascii ''epoch-1''))) 1 (ascii ''request'');
     (presented, credential, rng) \<leftarrow> present D public challenge credential rng;
     presentation \<leftarrow> expect presented;
     bs \<leftarrow> presentation_to_bytes D presentation;
     presentation \<leftarrow> expect (presentation_from_bytes D bs);
     let verifier = verifier_new public;
     let (accepted, verifier) = verifier_verify D memory_insert_if_absent challenge presentation verifier;
     _ \<leftarrow> expect accepted;
     let (replayed, verifier) = verifier_verify D memory_insert_if_absent challenge presentation verifier;
     e \<leftarrow> unwrap_err replayed;
     assert_that (e = TagAlreadyUsed)
   }"

lemma generate_application_context:
  "generate_with_profile D app profile r = Some (issuer, r') \<Longrightarrow>
     pub_application_context (iss_public issuer) = app \<and> length app \<le> MAX_APPLICATION_CONTEXT_BYTES"
  by (auto simp: generate_with_profile_def split: if_splits prod.splits)

lemma length_credential_context_new:
  "setting D emb system_holds \<Longrightarrow> length (credential_digest (credential_context_new (sha3 D) label)) = 32"
  by (simp add: credential_context_new_def hash_framed_def length_sha3)

lemma challenge_sized_new:
  assumes "setting D emb system_holds" and "length (credential_digest cctx) = 32"
  shows "challenge_sized \<lparr>ch_credential_context = cctx, ch_presentation_context = scoped (sha3 D) rp purpose epoch,
      ch_binding = presentation_binding_new (sha3 D) binding, ch_limit = limit\<rparr>"
  using assms by (simp add: challenge_sized_def scoped_def presentation_binding_new_def hash_framed_def length_sha3)

text \<open>What the scenarios rely on: the laws of the other crates, transport, and a preimage sampling that
  succeeds.\<close>

definition signing_succeeds :: "('g, 'pk, 'sk, 'sys, 'proof, 'rng, 'z) deps_scheme \<Rightarrow> bool" where
  "signing_succeeds D \<longleftrightarrow> (\<forall>sk t r. fst (spre D sk t r) \<noteq> None)"

lemma honest_run:
  assumes st: "setting D emb system_holds" and complete: "proof_complete D emb system_holds"
    and signing: "signing_succeeds D"
    and app: "length app \<le> MAX_APPLICATION_CONTEXT_BYTES"
  obtains issuer r1 pending request r2 response r3 c where
      "generate_with_profile D app profile r = Some (issuer, r1)"
      "prepare_issue D (iss_public issuer) (credential_context_new (sha3 D) label) r1 = Some (Inr (pending, request), r2)"
      "issue D issuer request (credential_context_new (sha3 D) label) r2 = (Inr response, r3)"
      "finish D pending (iss_public issuer) request response = Inr c"
      "genuine D (iss_public issuer)" "credential_valid D (iss_public issuer) c"
      "cred_credential_context c = credential_context_new (sha3 D) label" "cred_next_nonces c = []"
      "issuer_ok D issuer" "pending_valid D (iss_public issuer) pending" "response_valid D response"
      "length (pub_context (iss_public issuer)) = 32"
proof -
  have len: "length (credential_digest (credential_context_new (sha3 D) label)) = 32"
    by (rule length_credential_context_new[OF st])
  show thesis
  proof (rule honest_issuance[OF st complete app len, of profile r], goal_cases signed failed)
    case (signed issuer r1 pending request r2 response r3 c)
    have "issuer_ok D issuer" using generate_issuer_ok[OF settingD(7)[OF st] signed(1)] .
    moreover have "length (pub_context (iss_public issuer)) = 32" using genuine_context[OF st signed(5)] .
    moreover from prepare_valid[OF settingD(4)[OF st] this len signed(2)] have "pending_valid D (iss_public issuer) pending" .
    moreover have "response_valid D response" using issue_finish_response[OF st signed(3,4)] .
    ultimately show thesis using that signed by blast
  next
    case (failed issuer r1 pending request r2 r3)
    with issue_signing_failed[OF failed(3)] signing show thesis unfolding signing_succeeds_def by blast
  qed
qed


lemma sealed_signing: "signing_succeeds sealed_deps"
  by (simp add: signing_succeeds_def sealed_fields)


end
