(* ===== verification/Policies.thy ===== *)
theory Policies
  imports Scenarios
begin

text \<open>
  The longest scenario of the tests of \<open>src/src/protocol.rs\<close>: one credential under several challenges. It binds the
  policy, counts across limits, is refused by a failing store, survives its encoding, and gains nothing
  from an edited one. Two edits of an encoded credential are treated for every credential: zeroing the
  last counter, and removing the counters.
\<close>

section \<open>Edited credentials\<close>

text \<open>The encoding of a credential up to its counter records: everything before the count, and the count.\<close>

definition credential_head :: "('g, 'z) suite_scheme \<Rightarrow> 'g credential \<Rightarrow> bytes" where
  "credential_head S c =
     header [] WIRE_CREDENTIAL (P_WIRE_ID (mp S)) @ cred_issuer_context c @ credential_digest (cred_credential_context c) @
       nibble_pairs S (cred_signature c) @ cred_secret c @ cred_hiding_nonce c @ cred_salt c"

abbreviation credential_prefix :: "('g, 'z) suite_scheme \<Rightarrow> 'g credential \<Rightarrow> u32 \<Rightarrow> bytes" where
  "credential_prefix S c n \<equiv> credential_head S c @ u32_to_le n"

lemma credential_to_bytes_eq:
  "credential_to_bytes S c =
     Some (credential_prefix S c (count_u32 (length (cred_next_nonces c))) @ enc_counters (cred_next_nonces c))"
  by (simp add: credential_to_bytes_def credential_head_def Let_def pack_nibbles_eq enc_counters_fold)

lemma decoder_new_header: "fits (header [] a p @ r) \<Longrightarrow> decoder_new (header [] a p @ r) a p = Inr (dec_at (header [] a p) r)"
  by (simp add: decoder_new_iff)

lemma credential_from_prefix:
  assumes laws: "gf16_laws D" "P_KN (mp D) < usize_max" and valid: "credential_valid D public c"
    and fits: "fits (credential_prefix D c n @ r)" and n: "unat n \<le> MAX_PRESENTATION_CONTEXTS"
  shows "credential_from_bytes D public (credential_prefix D c n @ r) =
    rbind (decode_counters (unat n) None [] (dec_at (credential_prefix D c n) r)) (\<lambda>(m, d).
      rbind (dec_finish d) (\<lambda>_. Inr (c\<lparr>cred_next_nonces := m\<rparr>)))"
proof -
  obtain ic cctx sig k h t m where c: "c = \<lparr>cred_issuer_context = ic, cred_credential_context = cctx,
      cred_signature = sig, cred_secret = k, cred_hiding_nonce = h, cred_salt = t, cred_next_nonces = m\<rparr>"
    by (cases c)
  obtain cc where cctx: "cctx = CredentialContext cc" by (cases cctx)
  have ctx: "cred_issuer_context c = pub_context public" and auth: "verify_credential D public c = Inr ()"
    using valid by (auto simp: credential_valid_def verify_credential_def split: if_splits)
  have auth': "verify_credential D public (c\<lparr>cred_next_nonces := m'\<rparr>) = Inr ()" for m'
  proof -
    have "verify_credential D public (c\<lparr>cred_next_nonces := m'\<rparr>) = verify_credential D public c"
      by (simp add: verify_credential_def)
    with auth show ?thesis by simp
  qed
  show ?thesis
    unfolding credential_from_bytes_def SALT_BYTES_def
    using fits valid n ctx auth'
    by (simp add: c cctx credential_head_def credential_valid_def decoder_new_header parse_encs Let_def not_less
          field_codec.parse_enc[OF nibbles_codec[OF laws]] cong: if_cong)
qed

text \<open>A zero in the last counter record is refused.\<close>

lemma decode_counters_zero:
  "fits (pre @ enc_counters (ps @ [(CounterKey c, 0)]) @ r) \<Longrightarrow> bt_ok (m @ ps @ [(CounterKey c, 0)]) \<Longrightarrow>
     list_all counter_ok ps \<Longrightarrow> length c = 32 \<Longrightarrow>
     decode_counters (Suc (length ps)) (last_key m) m (dec_at pre (enc_counters (ps @ [(CounterKey c, 0)]) @ r)) =
       Inl InvalidEncoding"
proof (induction ps arbitrary: m pre)
  case Nil
  then have "bt_ok m" by (simp add: bt_ok_append)
  with Nil show ?case
    by (simp add: array.parse_enc u32.parse_enc bt_ok_snoc)
next
  case (Cons p ps)
  obtain k v where p: "p = (CounterKey k, v)" by (metis surj_pair counter_key.exhaust)
  have enc: "enc_counters (p # ps @ qs) = k @ u32_to_le v @ enc_counters (ps @ qs)" for qs by (simp add: p)
  from Cons.prems have ok: "bt_ok (m @ [(CounterKey k, v)])" and okm: "bt_ok m" by (auto simp: p bt_ok_append)
  have last: "last_key (m @ [(CounterKey k, v)]) = Some k" by (simp add: last_key_def)
  have "fits ((pre @ k @ u32_to_le v) @ enc_counters (ps @ [(CounterKey c, 0)]) @ r)" using Cons.prems(1) by (simp add: enc)
  from Cons.IH[OF this, of "m @ [(CounterKey k, v)]"] Cons.prems
  have "decode_counters (Suc (length ps)) (Some k) (m @ [(CounterKey k, v)])
      (dec_at (pre @ k @ u32_to_le v) (enc_counters (ps @ [(CounterKey c, 0)]) @ r)) = Inl InvalidEncoding"
    by (simp add: p last)
  then show ?case
    using Cons.prems ok bt_insert_snoc[OF ok]
    by (simp add: array.parse_enc u32.parse_enc p bt_ok_snoc[OF okm] del: decode_counters.simps(2))
      (simp add: array.parse_enc u32.parse_enc bt_ok_snoc[OF okm])
qed

section \<open>One credential through several policies\<close>

text \<open>\<open>FailingStore\<close> of the tests.\<close>

definition failing_insert_if_absent :: "digest \<Rightarrow> digest \<Rightarrow> unit \<Rightarrow> (error + bool) \<times> unit" where
  "failing_insert_if_absent scope tag s = (Inl StorageFailure, s)"

text \<open>The edits of an encoded credential: its last four bytes zeroed, and its counters removed. Slicing out of
  range and the subtractions of \<open>usize\<close> panic.\<close>

definition zero_last_nonce :: "bytes \<Rightarrow> bytes option" where
  "zero_last_nonce bs = (if length bs < 4 then None else Some (take (length bs - 4) bs @ replicate 4 0))"

definition remove_counters :: "bytes \<Rightarrow> nat \<Rightarrow> bytes option" where
  "remove_counters bs count =
     (let counter_bytes = 36 * count
      in if length bs < counter_bytes + 4 then None
         else let count_offset = length bs - counter_bytes - 4
              in Some (take count_offset bs @ replicate 4 0))"

definition scoped_limits_bind_policy_and_survive_wire_round_trips ::
  "('g, 'pk, 'sk, 'sys, 'proof, 'rng, 'z) deps_scheme \<Rightarrow> (u64 \<Rightarrow> 'rng) \<Rightarrow> unit option" where
  "scoped_limits_bind_policy_and_survive_wire_round_trips D seed_from_u64 = do {
     let rng = seed_from_u64 0x564152430001;
     (issuer, rng) \<leftarrow> generate_with_profile D (ascii ''example.net/vole-arc/key-epoch-7'') LowLatency rng;
     bs \<leftarrow> public_key_to_bytes D (iss_public issuer);
     public \<leftarrow> expect (public_key_from_bytes D bs);
     _ \<leftarrow> assert_that (pub_context public = pub_context (iss_public issuer));
     let credential_context = credential_context_new (sha3 D) (ascii ''attestation-class/basic'');
     (prepared, rng) \<leftarrow> prepare_issue D public credential_context rng;
     (pending, request) \<leftarrow> expect prepared;
     let pending_bytes = pending_to_bytes D pending;
     bs \<leftarrow> request_to_bytes D request;
     request \<leftarrow> expect (request_from_bytes D bs);
     let (issued, rng) = issue D issuer request credential_context rng;
     response \<leftarrow> expect issued;
     bs \<leftarrow> response_to_bytes D response;
     response \<leftarrow> expect (response_from_bytes D bs);
     pending \<leftarrow> expect (pending_from_bytes D public pending_bytes);
     credential \<leftarrow> expect (finish D pending public request response);

     let first_scope = scoped (sha3 D) (ascii ''rp.example'') (ascii ''account-create'') (Some (ascii ''epoch-42''));
     first \<leftarrow> test_challenge (sha3 D) credential_context first_scope 2 (ascii ''request-1'');
     (presented, credential, rng) \<leftarrow> present D public first credential rng;
     presentation0 \<leftarrow> expect presented;
     bs \<leftarrow> presentation_to_bytes D presentation0;
     presentation0 \<leftarrow> expect (presentation_from_bytes D bs);
     _ \<leftarrow> assert_that (next_nonce credential first_scope = 1);

     wrong_binding \<leftarrow> test_challenge (sha3 D) credential_context first_scope 2 (ascii ''request-other'');
     e \<leftarrow> unwrap_err (verify_proof_only D public wrong_binding presentation0);
     _ \<leftarrow> assert_that (e = InvalidProof);
     wrong_limit \<leftarrow> test_challenge (sha3 D) credential_context first_scope 3 (ascii ''request-1'');
     e \<leftarrow> unwrap_err (verify_proof_only D public wrong_limit presentation0);
     _ \<leftarrow> assert_that (e = InvalidProof);
     let other_scope = scoped (sha3 D) (ascii ''other.example'') (ascii ''account-create'') (Some (ascii ''epoch-42''));
     wrong_scope \<leftarrow> test_challenge (sha3 D) credential_context other_scope 2 (ascii ''request-1'');
     e \<leftarrow> unwrap_err (verify_proof_only D public wrong_scope presentation0);
     _ \<leftarrow> assert_that (e = InvalidProof);
     let tampered = presentation0\<lparr>pres_tag := (pres_tag presentation0)[0 := pres_tag presentation0 ! 0 XOR 1]\<rparr>;
     e \<leftarrow> unwrap_err (verify_proof_only D public first tampered);
     _ \<leftarrow> assert_that (e = InvalidProof);

     let verifier = verifier_new public;
     let (verified, verifier) = verifier_verify D memory_insert_if_absent first presentation0 verifier;
     _ \<leftarrow> expect verified;
     _ \<leftarrow> assert_that (accepted_count verifier = 1);
     let (verified, verifier) = verifier_verify D memory_insert_if_absent first presentation0 verifier;
     e \<leftarrow> unwrap_err verified;
     _ \<leftarrow> assert_that (e = TagAlreadyUsed);

     second \<leftarrow> test_challenge (sha3 D) credential_context first_scope 2 (ascii ''request-2'');
     (presented, credential, rng) \<leftarrow> present D public second credential rng;
     presentation1 \<leftarrow> expect presented;
     _ \<leftarrow> assert_that (pres_tag presentation0 \<noteq> pres_tag presentation1);
     let (verified, verifier) = verifier_verify D memory_insert_if_absent second presentation1 verifier;
     _ \<leftarrow> expect verified;
     (presented, credential, rng) \<leftarrow> present D public second credential rng;
     e \<leftarrow> unwrap_err presented;
     _ \<leftarrow> assert_that (e = RateLimitReached);

     extended \<leftarrow> test_challenge (sha3 D) credential_context first_scope 3 (ascii ''request-3'');
     (presented, credential, rng) \<leftarrow> present D public extended credential rng;
     presentation2 \<leftarrow> expect presented;
     let (verified, verifier) = verifier_verify D memory_insert_if_absent extended presentation2 verifier;
     _ \<leftarrow> expect verified;
     _ \<leftarrow> assert_that (next_nonce credential first_scope = 3);
     (presented, credential, rng) \<leftarrow> present D public extended credential rng;
     e \<leftarrow> unwrap_err presented;
     _ \<leftarrow> assert_that (e = RateLimitReached);

     let epoch_scope = scoped (sha3 D) (ascii ''rp.example'') (ascii ''account-create'') (Some (ascii ''epoch-43''));
     epoch_challenge \<leftarrow> test_challenge (sha3 D) credential_context epoch_scope 1 (ascii ''request-4'');
     (presented, credential, rng) \<leftarrow> present D public epoch_challenge credential rng;
     epoch_presentation \<leftarrow> expect presented;
     _ \<leftarrow> assert_that (pres_tag presentation0 \<noteq> pres_tag epoch_presentation);

     let failing = verifier_with_store public ();
     let (verified, failing) = verifier_verify D failing_insert_if_absent epoch_challenge epoch_presentation failing;
     e \<leftarrow> unwrap_err verified;
     _ \<leftarrow> assert_that (e = StorageFailure);
     let (verified, verifier) = verifier_verify D memory_insert_if_absent epoch_challenge epoch_presentation verifier;
     _ \<leftarrow> expect verified;
     _ \<leftarrow> assert_that (accepted_count verifier = 4);
     _ \<leftarrow> assert_that (context_count credential = 2);

     bs \<leftarrow> credential_to_bytes D credential;
     restored \<leftarrow> expect (credential_from_bytes D public bs);
     _ \<leftarrow> assert_that (next_nonce restored first_scope = 3);
     _ \<leftarrow> assert_that (next_nonce restored epoch_scope = 1);

     bs \<leftarrow> credential_to_bytes D credential;
     noncanonical \<leftarrow> zero_last_nonce bs;
     _ \<leftarrow> assert_that (credential_from_bytes D public noncanonical = Inl InvalidEncoding);

     bs \<leftarrow> credential_to_bytes D credential;
     counters_removed \<leftarrow> remove_counters bs (context_count credential);
     rolled_back \<leftarrow> expect (credential_from_bytes D public counters_removed);
     let scope = presentation_scope (sha3 D) (cred_issuer_context rolled_back)
       (credential_digest (cred_credential_context rolled_back)) (presentation_digest first_scope);
     _ \<leftarrow> assert_that (derive_tag (cred_secret rolled_back) scope 0 = pres_tag presentation0);
     (presented, rolled_back, rng) \<leftarrow> present D public first rolled_back rng;
     repeated \<leftarrow> expect presented;
     _ \<leftarrow> assert_that (pres_tag repeated = pres_tag presentation0);
     let (verified, verifier) = verifier_verify D memory_insert_if_absent first repeated verifier;
     e \<leftarrow> unwrap_err verified;
     assert_that (e = TagAlreadyUsed)
   }"

lemma u32_to_le_0: "u32_to_le 0 = replicate 4 0"
  by (simp add: u32_to_le_def le_bytes_def numeral_eq_Suc)

lemma zero_last_nonce_refused:
  assumes laws: "gf16_laws D" "P_KN (mp D) < usize_max" and valid: "credential_valid D public c"
    and "cred_next_nonces c \<noteq> []" and bs: "credential_to_bytes D c = Some bs" and fits: "fits bs"
  shows "\<exists>bs'. zero_last_nonce bs = Some bs' \<and> credential_from_bytes D public bs' = Inl InvalidEncoding"
proof -
  obtain ps kv where snoc: "cred_next_nonces c = ps @ [kv]" using assms(4) by (cases "cred_next_nonces c" rule: rev_cases) auto
  obtain k v where kv: "kv = (CounterKey k, v)" by (metis surj_pair counter_key.exhaust)
  note m = snoc[unfolded kv]
  let ?n = "count_u32 (length (cred_next_nonces c))"
  let ?pre = "credential_prefix D c ?n"
  have enc: "enc_counters (ps @ [(CounterKey k, w)]) = enc_counters ps @ k @ u32_to_le w" for w
    by (simp add: enc_counters_def)
  have bs_eq: "bs = ?pre @ enc_counters ps @ k @ u32_to_le v"
    using bs by (simp add: credential_to_bytes_eq m enc)
  have zero: "zero_last_nonce bs = Some (?pre @ enc_counters (ps @ [(CounterKey k, 0)]) @ [])"
    by (simp add: zero_last_nonce_def bs_eq enc u32_to_le_0)
  have n: "unat ?n = Suc (length ps)" "unat ?n \<le> MAX_PRESENTATION_CONTEXTS"
    using valid count_u32[of "length (cred_next_nonces c)"] by (simp_all add: credential_valid_def m)
  have fits': "fits (?pre @ enc_counters (ps @ [(CounterKey k, 0)]) @ [])"
    using fits by (simp add: bs_eq enc fits_def)
  have ok: "bt_ok ([] @ ps @ [(CounterKey k, 0)])" "list_all counter_ok ps" "length k = 32"
    using valid by (auto simp: credential_valid_def m bt_ok_def)
  from decode_counters_zero[OF fits' ok]
  have "decode_counters (unat ?n) None [] (dec_at ?pre (enc_counters (ps @ [(CounterKey k, 0)]) @ [])) = Inl InvalidEncoding"
    by (simp add: n last_key_def)
  with credential_from_prefix[OF laws valid fits' n(2)] zero show ?thesis by simp
qed

lemma remove_counters_decodes:
  assumes laws: "gf16_laws D" "P_KN (mp D) < usize_max" and valid: "credential_valid D public c"
    and bs: "credential_to_bytes D c = Some bs" and fits: "fits bs"
  shows "\<exists>bs'. remove_counters bs (context_count c) = Some bs' \<and>
    credential_from_bytes D public bs' = Inr (c\<lparr>cred_next_nonces := []\<rparr>)"
proof -
  have len: "length (enc_counters (cred_next_nonces c)) = 36 * context_count c"
    using valid by (simp add: credential_valid_def length_enc_counters context_count_def)
  have removed: "remove_counters bs (context_count c) = Some (credential_prefix D c 0 @ [])"
    using len by (simp add: remove_counters_def bs[unfolded credential_to_bytes_eq, simplified, symmetric] u32_to_le_0 Let_def)
  then have "fits (credential_prefix D c 0 @ [])" 
    using fits bs by (auto simp: credential_to_bytes_eq fits_def)
  from credential_from_prefix[OF laws valid this] this show ?thesis
    using removed by (simp add: dec_finish_at)
qed

section \<open>Steps\<close>

abbreviation chal ::
  "xof \<Rightarrow> credential_context \<Rightarrow> presentation_context \<Rightarrow> u32 \<Rightarrow> string \<Rightarrow> presentation_challenge" where
  "chal xof cctx pctx limit binding \<equiv> \<lparr>ch_credential_context = cctx, ch_presentation_context = pctx,
     ch_binding = presentation_binding_new xof (ascii binding), ch_limit = limit\<rparr>"

lemma test_challenge_Some:
  "limit \<noteq> 0 \<Longrightarrow> test_challenge xof cctx pctx limit (ascii binding) = Some (chal xof cctx pctx limit binding)"
  by (simp add: test_challenge_def challenge_new_def)

lemma present_step:
  assumes st: "setting D emb system_holds" and complete: "proof_complete D emb system_holds"
    and gen: "genuine D public" and valid: "credential_valid D public c"
    and "cred_credential_context c = ch_credential_context ch" and "length (presentation_digest (ch_presentation_context ch)) = 32"
    and "next_nonce c (ch_presentation_context ch) < ch_limit ch" and "context_count c < MAX_PRESENTATION_CONTEXTS"
  obtains pres c' r' where "present D public ch c r = Some (Inr pres, c', r')"
    "verify_proof_only D public ch pres =
       Inr \<lparr>vp_scope = pscope D public (ch_credential_context ch) (ch_presentation_context ch), vp_tag = pres_tag pres\<rparr>"
    "pres_tag pres = derive_tag (cred_secret c) (pscope D public (ch_credential_context ch) (ch_presentation_context ch))
       (next_nonce c (ch_presentation_context ch))"
    "credential_valid D public c'" "c' = spend (ch_presentation_context ch) c"
    "\<And>p. next_nonce c' p = (if p = ch_presentation_context ch then next_nonce c p + 1 else next_nonce c p)"
    "cred_secret c' = cred_secret c" "cred_credential_context c' = cred_credential_context c"
    "same_credential c c'"
proof -
  have "cred_issuer_context c = pub_context public"
    using valid by (auto simp: credential_valid_def verify_credential_def split: if_splits)
  with assms(5,7,8) have guard: "present_guard public ch c = None" by (simp add: present_guard_None)
  obtain p r' where run: "present D public ch c r =
      Some (Inr \<lparr>pres_tag = present_tag D c ch, pres_proof = p\<rparr>, spend (ch_presentation_context ch) c, r')"
    and ver: "verify_proof_only D public ch \<lparr>pres_tag = present_tag D c ch, pres_proof = p\<rparr> =
       Inr \<lparr>vp_scope = pscope D public (ch_credential_context ch) (ch_presentation_context ch), vp_tag = present_tag D c ch\<rparr>"
    by (rule present_succeeds[OF st gen complete valid guard])
  have "bt_ok (cred_next_nonces c)" using valid by (simp add: credential_valid_def)
  show thesis
    by (rule that[OF run])
      (simp_all add: ver[unfolded present_tag_eq[OF guard]] present_tag_eq[OF guard] spend_valid[OF valid guard assms(6)] next_nonce_spend[OF \<open>bt_ok _\<close>])
qed

lemma present_exhausted:
  assumes "credential_valid D public c" and "cred_credential_context c = ch_credential_context ch"
    and "ch_limit ch \<noteq> 0" and "next_nonce c (ch_presentation_context ch) = ch_limit ch"
  shows "present D public ch c r = Some (Inl RateLimitReached, c, r)"
proof -
  have "cred_issuer_context c = pub_context public"
    using assms(1) by (auto simp: credential_valid_def verify_credential_def split: if_splits)
  moreover have "bt_get (cred_next_nonces c) (CounterKey (presentation_digest (ch_presentation_context ch))) \<noteq> None"
    using assms(3,4) by (auto simp: next_nonce_def split: option.splits)
  ultimately have "present_guard public ch c = Some RateLimitReached"
    using assms(2-4) by (simp add: present_guard_def)
  then show ?thesis by (simp add: present_eq)
qed

lemma verify_in_memory:
  "verify_proof_only D public ch pres = Inr \<lparr>vp_scope = s, vp_tag = t\<rparr> \<Longrightarrow>
     verifier_verify D memory_insert_if_absent ch pres \<lparr>ver_public = public, ver_store = \<lparr>tags = T\<rparr>\<rparr> =
       (if (s, t) \<in> T then (Inl TagAlreadyUsed, \<lparr>ver_public = public, ver_store = \<lparr>tags = T\<rparr>\<rparr>)
        else (Inr \<lparr>vp_scope = s, vp_tag = t\<rparr>, \<lparr>ver_public = public, ver_store = \<lparr>tags = insert (s, t) T\<rparr>\<rparr>))"
  by (simp add: verifier_verify_def memory_insert_if_absent_def insert_absorb)

lemma verify_failing:
  "verify_proof_only D public ch pres = Inr x \<Longrightarrow>
     verifier_verify D failing_insert_if_absent ch pres (verifier_with_store public ()) =
       (Inl StorageFailure, verifier_with_store public ())"
  by (simp add: verifier_verify_def failing_insert_if_absent_def verifier_with_store_def)

section \<open>The scenario passes\<close>

text \<open>Two of the messages have the same 32-byte digest.\<close>

definition coincide :: "xof \<Rightarrow> bytes list \<Rightarrow> bool" where
  "coincide xof messages \<longleftrightarrow> \<not> distinct (map (\<lambda>m. xof m 32) messages)"

definition scenario_scopes :: "bytes list" where
  "scenario_scopes = map (\<lambda>(rp, epoch). frame_message PRESENTATION_SCOPE_DOMAIN
       (scoped_components (ascii rp) (ascii ''account-create'') (Some (ascii epoch))))
     [(''rp.example'', ''epoch-42''), (''other.example'', ''epoch-42''), (''rp.example'', ''epoch-43'')]"

definition scenario_bindings :: "bytes list" where
  "scenario_bindings = map (\<lambda>b. frame_message PRESENTATION_BINDING_DOMAIN [ascii b]) [''request-1'', ''request-other'']"

text \<open>The tags of the scenario: three in the first scope and one in that of the next epoch, for the secret that
  is drawn right after the key.\<close>

definition scenario_tags :: "('g, 'pk, 'sk, 'sys, 'proof, 'rng, 'z) deps_scheme \<Rightarrow> (u64 \<Rightarrow> 'rng) \<Rightarrow> bytes list" where
  "scenario_tags D seed_from_u64 =
     (let ((secret_key, key), rng) = trapgen D (seed_from_u64 0x564152430001);
          public = public_of D (ascii ''example.net/vole-arc/key-epoch-7'') LowLatency key;
          secret = fst (fill_bytes D 32 rng);
          scope = \<lambda>epoch. pscope D public (credential_context_new (sha3 D) (ascii ''attestation-class/basic''))
            (scoped (sha3 D) (ascii ''rp.example'') (ascii ''account-create'') (Some (ascii epoch)))
      in [tag_message secret (scope ''epoch-42'') 0, tag_message secret (scope ''epoch-42'') 1,
          tag_message secret (scope ''epoch-42'') 2, tag_message secret (scope ''epoch-43'') 0])"

lemma prepare_secret:
  assumes "prepare_issue D public cctx r = Some (Inr (pending, request), r')"
    and "finish D pending public' request response = Inr c"
  shows "cred_secret c = fst (fill_bytes D 32 r)"
  using assms
  by (auto simp: prepare_issue_def finish_def Let_def bind_eq_Some_conv rbind_eq_Inr split_beta split: if_splits)

lemma generated_public:
  "generate_with_profile D app profile r = Some (issuer, r1) \<Longrightarrow>
     iss_public issuer = public_of D app profile (snd (fst (trapgen D r))) \<and> r1 = snd (trapgen D r)"
  by (auto simp: generate_with_profile_def split_beta split: if_splits)

lemma scenario_tags_distinct:
  assumes "generate_with_profile D (ascii ''example.net/vole-arc/key-epoch-7'') LowLatency (seed_from_u64 0x564152430001) = Some (issuer, r1)"
    and "prepare_issue D (iss_public issuer) cctx r1 = Some (Inr (pending, request), r2)"
    and "cctx = credential_context_new (sha3 D) (ascii ''attestation-class/basic'')"
    and "finish D pending public' request response = Inr c"
    and "\<not> coincide shake256 (scenario_tags D seed_from_u64)"
    and "p = scoped (sha3 D) (ascii ''rp.example'') (ascii ''account-create'') (Some (ascii ''epoch-42''))"
    and "q = scoped (sha3 D) (ascii ''rp.example'') (ascii ''account-create'') (Some (ascii ''epoch-43''))"
  shows "distinct [derive_tag (cred_secret c) (pscope D (iss_public issuer) cctx p) 0,
    derive_tag (cred_secret c) (pscope D (iss_public issuer) cctx p) 1,
    derive_tag (cred_secret c) (pscope D (iss_public issuer) cctx p) 2,
    derive_tag (cred_secret c) (pscope D (iss_public issuer) cctx q) 0]"
  using assms(5) generated_public[OF assms(1)] prepare_secret[OF assms(2,4)]
  by (simp add: coincide_def scenario_tags_def derive_tag_def Let_def split_beta assms(3,6,7))

lemma xor_one_neq: "w XOR 1 \<noteq> (w :: byte)"
proof
  assume "w XOR 1 = w"
  then have "bit (w XOR 1) 0 = bit w 0" by simp
  then show False by (simp add: bit_xor_iff)
qed

lemma tag_flipped: "bs \<noteq> [] \<Longrightarrow> bs[0 := bs ! 0 XOR 1] \<noteq> (bs :: bytes)"
  by (metis length_greater_0_conv nth_list_update_eq xor_one_neq)

text \<open>The first presentation is good for no other binding, limit, scope or tag.\<close>

lemma scenario_moves:
  assumes binding: "proof_binding D" and name: "small (P_NAME (mp D))" and len: "length (pub_context public) = 32"
    and sized: "\<And>pctx limit b. length (presentation_digest pctx) = 32 \<Longrightarrow> challenge_sized (chal (sha3 D) cctx pctx limit b)"
    and lens: "length (presentation_digest p) = 32" "length (presentation_digest p') = 32"
    and run: "present D public (chal (sha3 D) cctx p 2 ''request-1'') c r = Some (Inr pres, c', r')"
    and tag: "pres_tag pres \<noteq> []" and "p \<noteq> p'"
    and "presentation_binding_new (sha3 D) (ascii ''request-1'') \<noteq> presentation_binding_new (sha3 D) (ascii ''request-other'')"
  shows "verify_proof_only D public (chal (sha3 D) cctx p 2 ''request-other'') pres = Inl InvalidProof"
    "verify_proof_only D public (chal (sha3 D) cctx p 3 ''request-1'') pres = Inl InvalidProof"
    "verify_proof_only D public (chal (sha3 D) cctx p' 2 ''request-1'') pres = Inl InvalidProof"
    "verify_proof_only D public (chal (sha3 D) cctx p 2 ''request-1'')
       (pres\<lparr>pres_tag := (pres_tag pres)[0 := pres_tag pres ! 0 XOR 1]\<rparr>) = Inl InvalidProof"
proof -
  note moved = presentation_moved_refused[OF binding name len len sized[OF lens(1)] _ run]
  have same: "\<lparr>pres_tag = pres_tag pres, pres_proof = pres_proof pres\<rparr> = pres" by (cases pres) simp
  have challenge: "verify_proof_only D public ch' pres = Inl InvalidProof"
    if "challenge_sized ch'" "ch_limit ch' \<noteq> 0" "ch' \<noteq> chal (sha3 D) cctx p 2 ''request-1''" for ch'
    using moved[where tag = "pres_tag pres", unfolded same, OF that(1,2)] that(3) by blast
  show "verify_proof_only D public (chal (sha3 D) cctx p 2 ''request-other'') pres = Inl InvalidProof"
    "verify_proof_only D public (chal (sha3 D) cctx p 3 ''request-1'') pres = Inl InvalidProof"
    "verify_proof_only D public (chal (sha3 D) cctx p' 2 ''request-1'') pres = Inl InvalidProof"
    using assms(9,10) by (auto intro!: challenge sized lens)
  from moved[where ch' = "chal (sha3 D) cctx p 2 ''request-1''", OF sized[OF lens(1)] _ disjI2[OF tag_flipped[OF tag]]]
  show "verify_proof_only D public (chal (sha3 D) cctx p 2 ''request-1'')
      (pres\<lparr>pres_tag := (pres_tag pres)[0 := pres_tag pres ! 0 XOR 1]\<rparr>) = Inl InvalidProof"
    by (cases pres) simp
qed

text \<open>Two presentations up to the limit, one more after it was raised, and one in another epoch.\<close>

lemma scenario_shows:
  assumes st: "setting D emb system_holds" and complete: "proof_complete D emb system_holds"
    and gen: "genuine D public" and valid: "credential_valid D public c"
    and c: "cred_credential_context c = cctx" "cred_next_nonces c = []"
    and lens: "length (presentation_digest p) = 32" "length (presentation_digest q) = 32" and neq: "p \<noteq> q"
  obtains p0 c1 r1 p1 c2 r2 p2 c3 r3 p3 c4 r4 where
    "present D public (chal (sha3 D) cctx p 2 ''request-1'') c r = Some (Inr p0, c1, r1)"
    "present D public (chal (sha3 D) cctx p 2 ''request-2'') c1 r1 = Some (Inr p1, c2, r2)"
    "present D public (chal (sha3 D) cctx p 2 ''request-2'') c2 r2 = Some (Inl RateLimitReached, c2, r2)"
    "present D public (chal (sha3 D) cctx p 3 ''request-3'') c2 r2 = Some (Inr p2, c3, r3)"
    "present D public (chal (sha3 D) cctx p 3 ''request-3'') c3 r3 = Some (Inl RateLimitReached, c3, r3)"
    "present D public (chal (sha3 D) cctx q 1 ''request-4'') c3 r3 = Some (Inr p3, c4, r4)"
    "verify_proof_only D public (chal (sha3 D) cctx p 2 ''request-1'') p0 = Inr \<lparr>vp_scope = pscope D public cctx p, vp_tag = pres_tag p0\<rparr>"
    "verify_proof_only D public (chal (sha3 D) cctx p 2 ''request-2'') p1 = Inr \<lparr>vp_scope = pscope D public cctx p, vp_tag = pres_tag p1\<rparr>"
    "verify_proof_only D public (chal (sha3 D) cctx p 3 ''request-3'') p2 = Inr \<lparr>vp_scope = pscope D public cctx p, vp_tag = pres_tag p2\<rparr>"
    "verify_proof_only D public (chal (sha3 D) cctx q 1 ''request-4'') p3 = Inr \<lparr>vp_scope = pscope D public cctx q, vp_tag = pres_tag p3\<rparr>"
    "pres_tag p0 = derive_tag (cred_secret c) (pscope D public cctx p) 0"
    "pres_tag p1 = derive_tag (cred_secret c) (pscope D public cctx p) 1"
    "pres_tag p2 = derive_tag (cred_secret c) (pscope D public cctx p) 2"
    "pres_tag p3 = derive_tag (cred_secret c) (pscope D public cctx q) 0"
    "next_nonce c1 p = 1" "next_nonce c3 p = 3" "next_nonce c4 p = 3" "next_nonce c4 q = 1" "context_count c4 = 2"
    "credential_valid D public c4" "cred_secret c4 = cred_secret c" "cred_credential_context c4 = cctx"
proof -
  note step = present_step[OF st complete gen]
  have fresh: "next_nonce c pctx = 0" for pctx by (simp add: next_nonce_def bt_get_def c(2))
  obtain p0 c1 r1 where 0: "present D public (chal (sha3 D) cctx p 2 ''request-1'') c r = Some (Inr p0, c1, r1)"
      "verify_proof_only D public (chal (sha3 D) cctx p 2 ''request-1'') p0 = Inr \<lparr>vp_scope = pscope D public cctx p, vp_tag = pres_tag p0\<rparr>"
      "pres_tag p0 = derive_tag (cred_secret c) (pscope D public cctx p) 0"
    and c1: "credential_valid D public c1" "c1 = spend p c" "cred_secret c1 = cred_secret c" "cred_credential_context c1 = cctx"
    and n1: "\<And>pctx. next_nonce c1 pctx = (if pctx = p then 1 else 0)"
    by (rule step[OF valid, of "chal (sha3 D) cctx p 2 ''request-1''" r])
      (simp_all add: c lens fresh context_count_def MAX_PRESENTATION_CONTEXTS_def)
  have count1: "context_count c1 = 1" by (simp add: context_count_def c1(2) c(2))
  obtain p1 c2 r2 where 1: "present D public (chal (sha3 D) cctx p 2 ''request-2'') c1 r1 = Some (Inr p1, c2, r2)"
      "verify_proof_only D public (chal (sha3 D) cctx p 2 ''request-2'') p1 = Inr \<lparr>vp_scope = pscope D public cctx p, vp_tag = pres_tag p1\<rparr>"
      "pres_tag p1 = derive_tag (cred_secret c) (pscope D public cctx p) 1"
    and c2: "credential_valid D public c2" "c2 = spend p c1" "cred_secret c2 = cred_secret c" "cred_credential_context c2 = cctx"
    and n2: "\<And>pctx. next_nonce c2 pctx = (if pctx = p then 2 else 0)"
    by (rule step[OF c1(1), of "chal (sha3 D) cctx p 2 ''request-2''" r1])
      (simp_all add: c1(3,4) lens n1 count1 MAX_PRESENTATION_CONTEXTS_def)
  have count2: "context_count c2 = 1" by (simp add: context_count_def c2(2) c1(2) c(2))
  have full2: "present D public (chal (sha3 D) cctx p 2 ''request-2'') c2 r2 = Some (Inl RateLimitReached, c2, r2)"
    by (rule present_exhausted[OF c2(1)]) (simp_all add: c2(4) n2)
  obtain p2 c3 r3 where 2: "present D public (chal (sha3 D) cctx p 3 ''request-3'') c2 r2 = Some (Inr p2, c3, r3)"
      "verify_proof_only D public (chal (sha3 D) cctx p 3 ''request-3'') p2 = Inr \<lparr>vp_scope = pscope D public cctx p, vp_tag = pres_tag p2\<rparr>"
      "pres_tag p2 = derive_tag (cred_secret c) (pscope D public cctx p) 2"
    and c3: "credential_valid D public c3" "c3 = spend p c2" "cred_secret c3 = cred_secret c" "cred_credential_context c3 = cctx"
    and n3: "\<And>pctx. next_nonce c3 pctx = (if pctx = p then 3 else 0)"
    by (rule step[OF c2(1), of "chal (sha3 D) cctx p 3 ''request-3''" r2])
      (simp_all add: c2(3,4) lens n2 count2 MAX_PRESENTATION_CONTEXTS_def)
  have count3: "context_count c3 = 1" by (simp add: context_count_def c3(2) c2(2) c1(2) c(2))
  have full3: "present D public (chal (sha3 D) cctx p 3 ''request-3'') c3 r3 = Some (Inl RateLimitReached, c3, r3)"
    by (rule present_exhausted[OF c3(1)]) (simp_all add: c3(4) n3)
  obtain p3 c4 r4 where 3: "present D public (chal (sha3 D) cctx q 1 ''request-4'') c3 r3 = Some (Inr p3, c4, r4)"
      "verify_proof_only D public (chal (sha3 D) cctx q 1 ''request-4'') p3 = Inr \<lparr>vp_scope = pscope D public cctx q, vp_tag = pres_tag p3\<rparr>"
      "pres_tag p3 = derive_tag (cred_secret c) (pscope D public cctx q) 0"
    and c4: "credential_valid D public c4" "c4 = spend q c3" "cred_secret c4 = cred_secret c" "cred_credential_context c4 = cctx"
    and n4: "\<And>pctx. next_nonce c4 pctx = (if pctx = p then 3 else if pctx = q then 1 else 0)"
    by (rule step[OF c3(1), of "chal (sha3 D) cctx q 1 ''request-4''" r3])
      (use neq in \<open>simp_all add: c3(3,4) lens n3 count3 MAX_PRESENTATION_CONTEXTS_def\<close>)
  have "presentation_digest p \<noteq> presentation_digest q" using neq by (auto intro: presentation_context.expand)
  then have count4: "context_count c4 = 2" by (simp add: context_count_def c4(2) c3(2) c2(2) c1(2) c(2))
  show thesis
    by (rule that[OF 0(1) 1(1) full2 2(1) full3 3(1) 0(2) 1(2) 2(2) 3(2) 0(3) 1(3) 2(3) 3(3) _ _ _ _ count4 c4(1,3,4)])
      (use neq in \<open>simp_all add: n1 n3 n4\<close>)
qed

text \<open>Both edits of its encoding, and what the credential without counters still shows.\<close>

lemma scenario_edits:
  assumes st: "setting D emb system_holds" and complete: "proof_complete D emb system_holds"
    and transport: "transport_laws D" and gen: "genuine D public" and valid: "credential_valid D public c"
    and cctx: "cred_credential_context c = cctx" and count: "context_count c = 2"
    and len: "length (presentation_digest p) = 32"
  obtains cred zeroed removed rolled pres c' r' where
    "credential_to_bytes D c = Some cred" "credential_from_bytes D public cred = Inr c"
    "zero_last_nonce cred = Some zeroed" "credential_from_bytes D public zeroed = Inl InvalidEncoding"
    "remove_counters cred 2 = Some removed" "credential_from_bytes D public removed = Inr rolled"
    "cred_secret rolled = cred_secret c" "cred_credential_context rolled = cctx" "cred_issuer_context rolled = pub_context public"
    "present D public (chal (sha3 D) cctx p 2 ''request-1'') rolled r = Some (Inr pres, c', r')"
    "verify_proof_only D public (chal (sha3 D) cctx p 2 ''request-1'') pres = Inr \<lparr>vp_scope = pscope D public cctx p, vp_tag = pres_tag pres\<rparr>"
    "pres_tag pres = derive_tag (cred_secret c) (pscope D public cctx p) 0"
proof -
  note laws = settingD(9)[OF st] transport_bounds(2)[OF transport]
  obtain cred where cred: "credential_to_bytes D c = Some cred" "credential_from_bytes D public cred = Inr c"
    by (rule credential_transport[OF laws(1) transportD(7)[OF transport] valid])
  have "fits cred" using credential_sound[OF laws cred(2)] by simp
  have "cred_next_nonces c \<noteq> []" using count by (auto simp: context_count_def)
  from zero_last_nonce_refused[OF laws valid this cred(1) \<open>fits cred\<close>]
  obtain zeroed where zeroed: "zero_last_nonce cred = Some zeroed" "credential_from_bytes D public zeroed = Inl InvalidEncoding"
    by blast
  from remove_counters_decodes[OF laws valid cred(1) \<open>fits cred\<close>] count
  obtain removed where removed: "remove_counters cred 2 = Some removed"
    "credential_from_bytes D public removed = Inr (c\<lparr>cred_next_nonces := []\<rparr>)" by auto
  let ?rolled = "c\<lparr>cred_next_nonces := []\<rparr>"
  have valid': "credential_valid D public ?rolled" using credential_sound[OF laws removed(2)] by simp
  have ctx: "cred_issuer_context ?rolled = pub_context public"
    using valid by (auto simp: credential_valid_def verify_credential_def split: if_splits)
  have "next_nonce ?rolled pctx = 0" for pctx by (simp add: next_nonce_def bt_get_def)
  then obtain pres c' r' where "present D public (chal (sha3 D) cctx p 2 ''request-1'') ?rolled r = Some (Inr pres, c', r')"
    "verify_proof_only D public (chal (sha3 D) cctx p 2 ''request-1'') pres = Inr \<lparr>vp_scope = pscope D public cctx p, vp_tag = pres_tag pres\<rparr>"
    "pres_tag pres = derive_tag (cred_secret c) (pscope D public cctx p) 0"
    by - (rule present_step[OF st complete gen valid', of "chal (sha3 D) cctx p 2 ''request-1''" r],
      simp_all add: cctx len context_count_def MAX_PRESENTATION_CONTEXTS_def)
  from that[OF cred zeroed removed _ _ ctx this] cctx show thesis by simp
qed



end
