(* ===== verification/UnitTests.thy ===== *)
theory UnitTests
  imports Policies ShakeSpec
begin

text \<open>
  The smaller tests of the crate's modules as programs, and the two other scenarios of
  \<open>src/src/protocol.rs\<close> that can be settled here: two responses to one request, and a proof for a counter
  that is not below the limit.
\<close>

section \<open>Loops of assertions\<close>

definition for_each :: "('a \<Rightarrow> unit option) \<Rightarrow> 'a list \<Rightarrow> unit option" where
  "for_each f xs = fold (\<lambda>x r. r \<bind> (\<lambda>_. f x)) xs (Some ())"

lemma for_each_simps [simp]: "for_each f [] = Some ()" "for_each f (x # xs) = f x \<bind> (\<lambda>_. for_each f xs)"
proof -
  have None: "fold (\<lambda>x r. r \<bind> (\<lambda>_. f x)) xs None = None" for xs by (induction xs) simp_all
  show "for_each f (x # xs) = f x \<bind> (\<lambda>_. for_each f xs)"
    by (cases "f x") (simp_all add: for_each_def None)
qed (simp add: for_each_def)

lemma for_each_passes: "(\<And>x. x \<in> set xs \<Longrightarrow> f x = Some ()) \<Longrightarrow> for_each f xs = Some ()"
  by (induction xs) simp_all

section \<open>context.rs\<close>

definition scoped_context_frames_components :: "xof \<Rightarrow> unit option" where
  "scoped_context_frames_components xof = do {
     let first = scoped xof (ascii ''ab'') (ascii ''c'') (Some (ascii ''d''));
     let second = scoped xof (ascii ''a'') (ascii ''bc'') (Some (ascii ''d''));
     _ \<leftarrow> assert_that (first \<noteq> second);
     _ \<leftarrow> assert_that (scoped xof (ascii ''rp'') (ascii ''login'') (Some (ascii ''epoch-1'')) \<noteq>
                     scoped xof (ascii ''rp'') (ascii ''login'') (Some (ascii ''epoch-2'')));
     assert_that (scoped xof (ascii ''rp'') (ascii ''login'') None \<noteq>
                  scoped xof (ascii ''rp'') (ascii ''login'') (Some (ascii '''')))
   }"

definition zero_limit_is_rejected :: "xof \<Rightarrow> unit option" where
  "zero_limit_is_rejected xof =
     assert_that (challenge_new (credential_context_default xof) (presentation_context_new xof (ascii ''scope'')) 0
       (presentation_binding_default xof) = Inl InvalidPresentationLimit)"

text \<open>The six scopes of the first test.\<close>

definition framed_scopes :: "bytes list" where
  "framed_scopes = map (\<lambda>(rp, purpose, epoch). frame_message PRESENTATION_SCOPE_DOMAIN
       (scoped_components (ascii rp) (ascii purpose) (map_option ascii epoch)))
     [(''ab'', ''c'', Some ''d''), (''a'', ''bc'', Some ''d''), (''rp'', ''login'', Some ''epoch-1''),
      (''rp'', ''login'', Some ''epoch-2''), (''rp'', ''login'', None), (''rp'', ''login'', Some '''')]"

lemma scoped_context_test:
  "scoped_context_frames_components xof = Some () \<or> coincide xof framed_scopes"
  by (auto simp: scoped_context_frames_components_def coincide_def framed_scopes_def scoped_def hash_framed_def Let_def)

text \<open>The six messages are different, so that a coincidence is a collision of the hash.\<close>

lemma framed_scopes_distinct: "distinct framed_scopes"
  by (simp add: framed_scopes_def frame_message_eq scoped_components_def len_u64_inject ascii_def)
    (auto dest: arg_cong[of _ _ length])

section \<open>circuit.rs\<close>

definition signed_wrapper_fits_widest_supported_hash_output :: "('g, 'z) suite_scheme \<Rightarrow> unit option" where
  "signed_wrapper_fits_widest_supported_hash_output S =
     assert_that (length SIGNED_CREDENTIAL_DOMAIN + div_ceil (P_M (mp S)) 2 + SALT_BYTES < RATE_BYTES)"

definition less_than_carries :: "u32 \<Rightarrow> u32 \<Rightarrow> bool list" where
  "less_than_carries v limit = append_less_than_carries [] v limit"

definition saturating_sub :: "u32 \<Rightarrow> u32 \<Rightarrow> u32" where
  "saturating_sub a b = (if a < b then 0 else a - b)"

definition saturating_add :: "u32 \<Rightarrow> u32 \<Rightarrow> u32" where
  "saturating_add a b = (if unat a + unat b < 2 ^ 32 then a + b else 0xffffffff)"

definition subtraction_carry_characterizes_strict_range :: "unit option" where
  "subtraction_carry_characterizes_strict_range =
     for_each (\<lambda>limit. for_each (\<lambda>v. do {
         final_carry \<leftarrow> (let carries = less_than_carries v limit in if carries = [] then None else Some (last carries));
         assert_that (final_carry \<longleftrightarrow> v \<ge> limit)
       }) [0, saturating_sub limit 1, limit, saturating_add limit 1, 0xffffffff])
     [1, 2, 3, 255, 256, 0xffffffff]"

definition limit_is_not_part_of_tag_scope :: "xof \<Rightarrow> unit option" where
  "limit_is_not_part_of_tag_scope xof = do {
     let issuer = replicate 32 1;
     let credential = replicate 32 2;
     let context = replicate 32 3;
     let scope = presentation_scope xof issuer credential context;
     let secret = replicate 32 4;
     _ \<leftarrow> assert_that (derive_tag secret scope 0 = derive_tag secret scope 0);
     assert_that (derive_tag secret scope 0 \<noteq> derive_tag secret scope 1)
   }"

lemma carry_test: "subtraction_carry_characterizes_strict_range = Some ()"
proof -
  have "less_than_carries v limit \<noteq> [] \<and> (last (less_than_carries v limit) \<longleftrightarrow> limit \<le> v)" for v limit
    using less_than_carries_decide[of "[]" v limit] by (auto simp: less_than_carries_def)
  then show ?thesis
    unfolding subtraction_carry_characterizes_strict_range_def by (intro for_each_passes) (simp add: Let_def)
qed

lemma tag_scope_test:
  "limit_is_not_part_of_tag_scope xof = Some () \<or>
     coincide shake256 (map (tag_message (replicate 32 4)
       (presentation_scope xof (replicate 32 1) (replicate 32 2) (replicate 32 3))) [0, 1])"
  by (auto simp: limit_is_not_part_of_tag_scope_def coincide_def derive_tag_def Let_def)

section \<open>keccak.rs\<close>

definition matches_sha3_reference :: "xof \<Rightarrow> unit option" where
  "matches_sha3_reference xof =
     for_each (\<lambda>(message_len, output_len).
         let message = map (\<lambda>i. of_nat ((i * 7 + 3) mod 256)) [0..<message_len];
             expected = xof message output_len
         in assert_that (shake256 message output_len = expected))
       [(0, 32), (17, 64), (135, 137), (136, 32), (1000, 39)]"

text \<open>The crate \<open>sha3\<close> implements FIPS 202.\<close>

definition xof_is_fips202 :: "xof \<Rightarrow> bool" where
  "xof_is_fips202 xof \<longleftrightarrow> (\<forall>m n. bytes_bits (xof m n) = fips_shake256 (bytes_bits m) (8 * n))"

lemma sha3_test: "xof_is_fips202 xof \<Longrightarrow> matches_sha3_reference xof = Some ()"
proof -
  assume "xof_is_fips202 xof"
  then have "shake256 m n = xof m n" for m n
    unfolding bytes_bits_inject[symmetric] by (simp add: xof_is_fips202_def shake256_fips)
  then show ?thesis unfolding matches_sha3_reference_def by (intro for_each_passes) auto
qed

section \<open>wire.rs\<close>

definition header_errors_distinguish_type_suite_and_reserved_bytes :: "unit option" where
  "header_errors_distinguish_type_suite_and_reserved_bytes = do {
     let encoded = header [] 7 2;
     _ \<leftarrow> assert_that (\<not> isl (decoder_new encoded 7 2));
     _ \<leftarrow> assert_that (decoder_new encoded 6 2 = Inl WrongArtifact);
     _ \<leftarrow> assert_that (decoder_new encoded 7 1 = Inl WrongParameterSet);
     encoded \<leftarrow> (if 7 < length encoded then Some (encoded[7 := 1]) else None);
     assert_that (decoder_new encoded 7 2 = Inl InvalidEncoding)
   }"

lemma decoder_new_envelope:
  "decoder_new (MAGIC @ [WIRE_VERSION, a, p, x, y]) a' p' =
     (if a \<noteq> a' then Inl WrongArtifact else if p \<noteq> p' then Inl WrongParameterSet
      else if [x, y] \<noteq> [0, 0] then Inl InvalidEncoding
      else Inr \<lparr>dec_input = MAGIC @ [WIRE_VERSION, a, p, x, y], dec_offset = 9\<rparr>)"
  by (simp add: decoder_new_def MAX_WIRE_BYTES_def dec_take_def dec_u8_def dec_array_def checked_add_def usize_max_def Let_def)

lemma header_test: "header_errors_distinguish_type_suite_and_reserved_bytes = Some ()"
  by (simp add: header_errors_distinguish_type_suite_and_reserved_bytes_def header_def decoder_new_envelope list_update_append Let_def)

section \<open>Issuer keys\<close>

definition issuer_key_round_trip_preserves_public_context ::
  "('g, 'pk, 'sk, 'sys, 'proof, 'rng, 'z) deps_scheme \<Rightarrow> (u64 \<Rightarrow> 'rng) \<Rightarrow> unit option" where
  "issuer_key_round_trip_preserves_public_context D seed_from_u64 = do {
     let rng = seed_from_u64 0x564152430003;
     (issuer, rng) \<leftarrow> generate D (ascii ''key-round-trip'') rng;
     key \<leftarrow> issuer_key_bytes D issuer;
     (restored :: ('pk, 'sk, 'sys) issuer) \<leftarrow> expect (issuer_from_key_bytes D key);
     bs \<leftarrow> public_key_to_bytes D (iss_public issuer);
     bs' \<leftarrow> public_key_to_bytes D (iss_public restored);
     assert_that (bs = bs')
   }"

definition issuer_key_rejects_oversized_application_context_before_copying ::
  "('g, 'pk, 'sk, 'sys, 'proof, 'rng, 'z) deps_scheme \<Rightarrow> unit option" where
  "issuer_key_rejects_oversized_application_context_before_copying D = do {
     let encoded = header [] WIRE_ISSUER_KEY (P_WIRE_ID (mp D));
     let encoded = encoded @ [profile_wire_id Balanced];
     encoded \<leftarrow> put_bytes encoded (replicate (MAX_APPLICATION_CONTEXT_BYTES + 1) 0);
     encoded \<leftarrow> put_bytes encoded [];
     assert_that ((issuer_from_key_bytes D encoded :: wire_error + ('pk, 'sk, 'sys) issuer) = Inl InvalidEncoding)
   }"

lemma issuer_key_test:
  assumes st: "setting D emb system_holds" and transport: "transport_laws D"
  shows "issuer_key_round_trip_preserves_public_context D seed_from_u64 = Some ()"
proof -
  obtain issuer r1 where gen: "generate_with_profile D (ascii ''key-round-trip'') Balanced (seed_from_u64 0x564152430003) = Some (issuer, r1)"
    by (cases "trapgen D (seed_from_u64 0x564152430003)"; cases "fst (trapgen D (seed_from_u64 0x564152430003))")
      (auto simp: generate_with_profile_def MAX_APPLICATION_CONTEXT_BYTES_def)
  note ok = generate_issuer_ok[OF settingD(7)[OF st] gen]
  have bound: "length (pub_application_context (iss_public issuer)) \<le> MAX_APPLICATION_CONTEXT_BYTES"
    using generate_application_context[OF gen] by simp
  obtain key where key: "issuer_key_bytes D issuer = Some key" "issuer_from_key_bytes D key = Inr issuer"
    by (rule issuer_key_transport[OF transport ok bound])
  have "genuine D (iss_public issuer)" using ok by (simp add: issuer_ok_def)
  from public_key_transport[OF transport this bound]
  obtain bs where "public_key_to_bytes D (iss_public issuer) = Some bs" by blast
  with gen key show ?thesis
    by (simp add: issuer_key_round_trip_preserves_public_context_def generate_def)
qed

lemma oversized_test: "issuer_key_rejects_oversized_application_context_before_copying D = Some ()"
proof -
  let ?app = "replicate (MAX_APPLICATION_CONTEXT_BYTES + 1) 0 :: bytes"
  let ?bs = "header [] WIRE_ISSUER_KEY (P_WIRE_ID (mp D)) @ [profile_wire_id Balanced] @ framed ?app @ framed []"
  have puts: "put_bytes out bs = Some (out @ framed bs)" if "length bs < 2 ^ 32" for out bs
    using that by (simp add: put_bytes_eq)
  have "fits ?bs" by (simp add: fits_def framed_def MAX_WIRE_BYTES_def MAX_APPLICATION_CONTEXT_BYTES_def)
  then have "issuer_from_key_bytes D ?bs = Inl InvalidEncoding"
    unfolding issuer_from_key_bytes_def
    by (simp add: decoder_new_header parse_encs MAX_APPLICATION_CONTEXT_BYTES_def profile_from_wire_id_def)
  then show ?thesis
    by (simp add: issuer_key_rejects_oversized_application_context_before_copying_def puts MAX_APPLICATION_CONTEXT_BYTES_def)
qed

section \<open>Two responses to one request\<close>

text \<open>\<open>next_u64\<close> is the generator's own.\<close>

definition signer_salt_randomizes_authenticators_without_minting_new_lineage ::
  "('g, 'pk, 'sk, 'sys, 'proof, 'rng, 'z) deps_scheme \<Rightarrow> (u64 \<Rightarrow> 'rng) \<Rightarrow> ('rng \<Rightarrow> u64) \<Rightarrow> unit option" where
  "signer_salt_randomizes_authenticators_without_minting_new_lineage D seed_from_u64 next_u64 = do {
     let rng = seed_from_u64 0x564152430002;
     (issuer, rng) \<leftarrow> generate_with_profile D (ascii ''signer-salt'') LowLatency rng;
     let public = iss_public issuer;
     let credential_context = credential_context_new (sha3 D) (ascii ''credential-epoch'');
     (prepared, rng) \<leftarrow> prepare_issue D public credential_context rng;
     (pending, request) \<leftarrow> expect prepared;
     let pending_bytes = pending_to_bytes D pending;
     let (issued, rng) = issue D issuer request credential_context rng;
     first \<leftarrow> expect issued;
     let (issued, rng) = issue D issuer request credential_context rng;
     second \<leftarrow> expect issued;
     _ \<leftarrow> assert_that (resp_salt first \<noteq> resp_salt second);
     _ \<leftarrow> assert_that (resp_signature first \<noteq> resp_signature second);
     pending \<leftarrow> expect (pending_from_bytes D public pending_bytes);
     first_credential \<leftarrow> expect (finish D pending public request first);
     pending \<leftarrow> expect (pending_from_bytes D public pending_bytes);
     second_credential \<leftarrow> expect (finish D pending public request second);
     let context = presentation_context_new (sha3 D) (ascii ''same-bucket'');
     let first_scope = presentation_scope (sha3 D) (cred_issuer_context first_credential)
       (credential_digest (cred_credential_context first_credential)) (presentation_digest context);
     let second_scope = presentation_scope (sha3 D) (cred_issuer_context second_credential)
       (credential_digest (cred_credential_context second_credential)) (presentation_digest context);
     _ \<leftarrow> assert_that (derive_tag (cred_secret first_credential) first_scope 0 =
                     derive_tag (cred_secret second_credential) second_scope 0);
     let wrong_context = credential_context_new (sha3 D) (ascii ''different-credential-epoch'');
     let failure_rng = seed_from_u64 0xBAD5C0DE;
     let untouched_rng = failure_rng;
     let (issued, failure_rng) = issue D issuer request wrong_context failure_rng;
     e \<leftarrow> unwrap_err issued;
     _ \<leftarrow> assert_that (e = InvalidProof);
     assert_that (next_u64 failure_rng = next_u64 untouched_rng)
   }"

section \<open>A counter that is not below the limit\<close>

definition proof_circuit_rejects_nonce_equal_to_limit ::
  "('g, 'pk, 'sk, 'sys, 'proof, 'rng, 'z) deps_scheme \<Rightarrow> (u64 \<Rightarrow> 'rng) \<Rightarrow> unit option" where
  "proof_circuit_rejects_nonce_equal_to_limit D seed_from_u64 = do {
     let rng = seed_from_u64 0x564152430004;
     (issuer, rng) \<leftarrow> generate_with_profile D (ascii ''range-proof'') LowLatency rng;
     let public = iss_public issuer;
     let credential_context = credential_context_new (sha3 D) (ascii ''credential-context'');
     (prepared, rng) \<leftarrow> prepare_issue D public credential_context rng;
     (pending, request) \<leftarrow> expect prepared;
     let (issued, rng) = issue D issuer request credential_context rng;
     response \<leftarrow> expect issued;
     credential \<leftarrow> expect (finish D pending public request response);
     let pctx = presentation_context_new (sha3 D) (ascii ''range-scope'');
     challenge \<leftarrow> test_challenge (sha3 D) credential_context pctx 1 (ascii ''range-binding'');
     let c_scope = credential_scope (sha3 D) (cred_issuer_context credential)
       (credential_digest (cred_credential_context credential));
     let scope = presentation_scope (sha3 D) (cred_issuer_context credential)
       (credential_digest (cred_credential_context credential)) (presentation_digest pctx);
     let out_of_range_nonce = 1;
     let tag = derive_tag (cred_secret credential) scope out_of_range_nonce;
     let circuit = \<lparr>pc_mayo_system = pub_mayo_system public, pc_credential_scope = c_scope,
       pc_presentation_scope = scope, pc_presentation_limit = ch_limit challenge, pc_tag = tag\<rparr>;
     let secrets = \<lparr>ps_signature = cred_signature credential, ps_secret = cred_secret credential,
       ps_hiding_nonce = cred_hiding_nonce credential, ps_salt = cred_salt credential,
       ps_presentation_nonce = out_of_range_nonce\<rparr>;
     ws \<leftarrow> presentation_witness D circuit secrets;
     let statement = presentation_statement D (cred_issuer_context credential) challenge tag;
     let (result, rng) = vole_prove D (profile_params (vole D) (pub_profile public)) statement (Presenting circuit) ws rng;
     assert_that (result = Inl Unsatisfiable)
   }"

text \<open>The prover of \<open>voleith\<close> checks the witness.\<close>

definition prover_checks ::
  "('g, 'pk, 'sk, 'sys, 'proof, 'rng, 'z) deps_scheme \<Rightarrow> ('g \<Rightarrow> 'f::comm_ring_1) \<Rightarrow>
     ('f list \<Rightarrow> 'sys \<Rightarrow> 'f list \<Rightarrow> bool) \<Rightarrow> bool" where
  "prover_checks D emb system_holds \<longleftrightarrow>
     (\<forall>params statement circuit ws r. \<not> satisfies D emb system_holds circuit ws \<longrightarrow>
        fst (vole_prove D params statement circuit ws r) = Inl Unsatisfiable)"

text \<open>The witness determines the counter.\<close>

lemma witness_nonce:
  assumes "circuit_ok S C" and "length (pc_credential_scope C) = 32" and "length (pc_presentation_scope C) = 32"
    and "length (ps_secret P) = 32" and "length (ps_hiding_nonce P) = 32" and "length (ps_salt P) = 32"
    and "length (ps_secret Q) = 32" and "length (ps_hiding_nonce Q) = 32" and "length (ps_salt Q) = 32"
    and "length (ps_signature P) = length (ps_signature Q)"
    and "presentation_witness S C P = presentation_witness S C Q"
  shows "ps_presentation_nonce P = ps_presentation_nonce Q"
proof -
  have "presentation_bits S C P = presentation_bits S C Q"
    using assms(11) presentation_witness_eq[OF assms(1-6)] presentation_witness_eq[OF assms(1-3,7-9)] by simp
  moreover have "take 32 (drop (4 * length (ps_signature R) + 768) (presentation_bits S C R)) =
      map (bit (ps_presentation_nonce R)) [0..<32]"
    if "length (ps_secret R) = 32" "length (ps_hiding_nonce R) = 32" "length (ps_salt R) = 32" for R
    using that by (simp add: presentation_bits_def del: upt_Suc)
  ultimately have "map (bit (ps_presentation_nonce P)) [0..<32] = map (bit (ps_presentation_nonce Q)) [0..<32]"
    using assms(4-10) by metis
  then have "bit (ps_presentation_nonce P) k = bit (ps_presentation_nonce Q) k" if "k < 32" for k
    using that by (simp del: upt_Suc)
  then show ?thesis by (intro bit_word_eqI) simp
qed

lemma length_presentation_context_new:
  "setting D emb system_holds \<Longrightarrow> length (presentation_digest (presentation_context_new (sha3 D) label)) = 32"
  by (simp add: presentation_context_new_def hash_framed_def length_sha3)

lemma range_scenario:
  assumes st: "setting D emb system_holds" and complete: "proof_complete D emb system_holds"
    and checks: "prover_checks D emb system_holds" and signing: "signing_succeeds D"
  shows "proof_circuit_rejects_nonce_equal_to_limit D seed_from_u64 = Some ()"
proof -
  have app: "length (ascii ''range-proof'') \<le> MAX_APPLICATION_CONTEXT_BYTES"
    by (simp add: MAX_APPLICATION_CONTEXT_BYTES_def)
  let ?cctx = "credential_context_new (sha3 D) (ascii ''credential-context'')"
    and ?pctx = "presentation_context_new (sha3 D) (ascii ''range-scope'')"
  obtain issuer r1 pending request r2 response r3 c where
      gen: "generate_with_profile D (ascii ''range-proof'') LowLatency (seed_from_u64 0x564152430004) = Some (issuer, r1)"
    and prep: "prepare_issue D (iss_public issuer) ?cctx r1 = Some (Inr (pending, request), r2)"
    and issued: "issue D issuer request ?cctx r2 = (Inr response, r3)"
    and fin: "finish D pending (iss_public issuer) request response = Inr c"
    and c: "genuine D (iss_public issuer)" "credential_valid D (iss_public issuer) c" "cred_credential_context c = ?cctx"
    by (rule honest_run[OF st complete signing app])
  let ?public = "iss_public issuer" and ?ch = "chal (sha3 D) ?cctx ?pctx 1 ''range-binding''"
  have ctx: "cred_issuer_context c = pub_context ?public"
    using c(2) by (auto simp: credential_valid_def verify_credential_def split: if_splits)
  let ?scope = "pscope D ?public ?cctx ?pctx"
  let ?tag = "derive_tag (cred_secret c) ?scope 1"
  let ?C = "present_circuit D ?public ?ch ?tag" and ?P = "present_secrets c 1"
  have okC: "circuit_ok D ?C" using circuit_ok_present[OF settingD(8)[OF st]] by simp
  have lens: "length (pc_credential_scope ?C) = 32" "length (pc_presentation_scope ?C) = 32"
    by (simp_all add: present_circuit_def length_scopes[OF st])
  have P: "length (ps_secret ?P) = 32" "length (ps_hiding_nonce ?P) = 32" "length (ps_salt ?P) = 32"
    "length (ps_signature ?P) = P_KN (mp D)"
    using c(2) by (simp_all add: present_secrets_def credential_valid_def)
  obtain ws where ws: "presentation_witness D ?C ?P = Some ws"
    using presentation_witness_eq[OF okC lens P(1-3)] by blast
  have "\<not> satisfies D emb system_holds (Presenting ?C) ws"
  proof
    assume "satisfies D emb system_holds (Presenting ?C) ws"
    then obtain Q where Q: "length (ps_secret Q) = 32" "length (ps_hiding_nonce Q) = 32" "length (ps_salt Q) = 32"
        "presentation_witness D ?C Q = Some ws" "ps_presentation_nonce Q < 1"
        "authentic D ?public ?cctx (ps_signature Q) (ps_secret Q) (ps_hiding_nonce Q) (ps_salt Q)"
      unfolding present_accepts_iff[OF st c(1) length_derive_tag] by auto
    have "length (ps_signature Q) = P_KN (mp D)" by (rule authentic_length[OF settingD(5)[OF st] Q(6)])
    with witness_nonce[OF okC lens P(1-3) Q(1-3)] P(4) ws Q(4) have "ps_presentation_nonce ?P = ps_presentation_nonce Q" by simp
    with Q(5) show False by (simp add: present_secrets_def)
  qed
  then have "fst (vole_prove D params statement (Presenting ?C) ws r) = Inl Unsatisfiable" for params statement r
    using checks unfolding prover_checks_def by blast
  then have refused: "\<exists>r'. vole_prove D params statement (Presenting ?C) ws r = (Inl Unsatisfiable, r')" for params statement r
    by (metis prod.collapse)
  then obtain r4 where refused: "vole_prove D (profile_params (vole D) (pub_profile ?public))
      (presentation_statement D (pub_context ?public) ?ch ?tag) (Presenting ?C) ws r3 = (Inl Unsatisfiable, r4)" by blast
  show ?thesis
    using ws refused
    by (simp add: proof_circuit_rejects_nonce_equal_to_limit_def gen prep issued fin test_challenge_Some ctx c(3)
        present_circuit_def present_secrets_def pscope_def Let_def)
qed

text \<open>The two responses of that test.\<close>

definition salt_responses ::
  "('g, 'pk, 'sk, 'sys, 'proof, 'rng, 'z) deps_scheme \<Rightarrow> (u64 \<Rightarrow> 'rng) \<Rightarrow> ('g issue_response \<times> 'g issue_response) option" where
  "salt_responses D seed_from_u64 = do {
     (issuer, rng) \<leftarrow> generate_with_profile D (ascii ''signer-salt'') LowLatency (seed_from_u64 0x564152430002);
     let cctx = credential_context_new (sha3 D) (ascii ''credential-epoch'');
     (prepared, rng) \<leftarrow> prepare_issue D (iss_public issuer) cctx rng;
     (pending, request) \<leftarrow> expect prepared;
     let (issued, rng) = issue D issuer request cctx rng;
     first \<leftarrow> expect issued;
     let (issued, rng) = issue D issuer request cctx rng;
     second \<leftarrow> expect issued;
     Some (first, second)
   }"

text \<open>Signing one request twice makes two credentials of one lineage. The test passes: both responses finish,
  with different authenticators, into credentials with the same secret and hence the same tags, and a
  request shown under another credential context is refused before any randomness is drawn. It can only
  fail if its two responses drew the same salt or the same preimage, or its two labels collide.\<close>

theorem salt_scenario_passes:
  assumes st: "setting D emb system_holds" and complete: "proof_complete D emb system_holds"
    and binding: "proof_binding D" and small: "P_M (mp D) < 2 ^ 64" and signing: "signing_succeeds D"
  shows "signer_salt_randomizes_authenticators_without_minting_new_lineage D seed_from_u64 next_u64 = Some () \<or>
    coincide (sha3 D) (map (\<lambda>l. frame_message CREDENTIAL_CONTEXT_DOMAIN [ascii l]) [''credential-epoch'', ''different-credential-epoch'']) \<or>
    (\<exists>first second. salt_responses D seed_from_u64 = Some (first, second) \<and>
       (resp_salt first = resp_salt second \<or> resp_signature first = resp_signature second))"
  (is "_ \<or> ?same \<or> ?repeated")
proof (cases "?same \<or> ?repeated")
  case False
  have app: "length (ascii ''signer-salt'') \<le> MAX_APPLICATION_CONTEXT_BYTES"
    by (simp add: MAX_APPLICATION_CONTEXT_BYTES_def)
  let ?cctx = "credential_context_new (sha3 D) (ascii ''credential-epoch'')"
    and ?wrong = "credential_context_new (sha3 D) (ascii ''different-credential-epoch'')"
  obtain issuer r1 pending request r2 first r3 c where
      gen: "generate_with_profile D (ascii ''signer-salt'') LowLatency (seed_from_u64 0x564152430002) = Some (issuer, r1)"
    and prep: "prepare_issue D (iss_public issuer) ?cctx r1 = Some (Inr (pending, request), r2)"
    and issued: "issue D issuer request ?cctx r2 = (Inr first, r3)"
    and fin: "finish D pending (iss_public issuer) request first = Inr c"
    and ok: "issuer_ok D issuer" "pending_valid D (iss_public issuer) pending"
    and len: "length (pub_context (iss_public issuer)) = 32"
    by (rule honest_run[OF st complete signing app])
  have cctx: "length (credential_digest (credential_context_new (sha3 D) l)) = 32" for l
    by (rule length_credential_context_new[OF st])
  have request: "req_commitment request = pend_commitment pending" using fin by (simp add: finish_iff[OF settingD(2)[OF st]])
  obtain res r4 where again: "issue D issuer request ?cctx r3 = (res, r4)" by force
  have "\<exists>second. res = Inr second"
  proof (cases res)
    case (Inl e)
    have ver: "vole_verify D (profile_params (vole D) (pub_profile (iss_public issuer)))
       (issue_statement D (pub_context (iss_public issuer)) (credential_digest ?cctx) (req_commitment request))
       (Issuance (commitment_circuit D (iss_public issuer) ?cctx (req_commitment request))) (req_proof request) = Inr ()"
      using issue_statement_verified[OF issued] by simp
    from issue_honest[OF prepare_commitment[OF prep] ver again[unfolded Inl]] have "e = SigningFailed" .
    with issue_signing_failed[of D issuer request ?cctx r3 r4] again Inl signing show ?thesis
      unfolding signing_succeeds_def by blast
  qed simp
  then obtain second where res: "res = Inr second" by blast
  note again = again[unfolded res]
  have "salt_responses D seed_from_u64 = Some (first, second)"
    by (simp add: salt_responses_def gen prep issued again Let_def)
  then have fresh: "resp_salt first \<noteq> resp_salt second" "resp_signature first \<noteq> resp_signature second"
    using False by blast+
  obtain c' where fin': "finish D pending (iss_public issuer) request second = Inr c'"
    by (rule issue_finishes[OF st ok request again])
  have same: "cred_secret c' = cred_secret c" "cred_issuer_context c' = cred_issuer_context c"
    "cred_credential_context c' = cred_credential_context c"
    using fin fin' by (simp_all add: finish_iff[OF settingD(2)[OF st]])
  have "?wrong \<noteq> ?cctx"
    using False by (auto simp: coincide_def credential_context_new_def hash_framed_def)
  note refused = request_moved_refused[OF binding settingD(9)[OF st] small len len cctx cctx prep this]
  have "signer_salt_randomizes_authenticators_without_minting_new_lineage D seed_from_u64 next_u64 = Some ()"
    by (simp add: signer_salt_randomizes_authenticators_without_minting_new_lineage_def gen prep issued again fresh
        pending_transport[OF ok(2)] fin fin' same refused Let_def)
  then show ?thesis by blast
qed blast

section \<open>Fingerprints of a run\<close>

definition wire_fingerprint :: "xof \<Rightarrow> bytes \<Rightarrow> bytes" where
  "wire_fingerprint xof bs = xof (ascii ''VOLE-ARC/test-vector-fingerprint/v1'' @ len_u64 bs @ bs) 32"

text \<open>The five artifacts of the run, and their fingerprints.\<close>

definition deterministic_wire_artifacts ::
  "('g, 'pk, 'sk, 'sys, 'proof, 'rng, 'z) deps_scheme \<Rightarrow> (u64 \<Rightarrow> 'rng) \<Rightarrow> u64 \<Rightarrow> bytes list option" where
  "deterministic_wire_artifacts D seed_from_u64 seed = do {
     let rng = seed_from_u64 seed;
     (issuer, rng) \<leftarrow> generate_with_profile D (ascii ''test-vector/issuer-epoch-1'') Balanced rng;
     let public = iss_public issuer;
     let credential_context = credential_context_new (sha3 D) (ascii ''test-vector/credential'');
     (prepared, rng) \<leftarrow> prepare_issue D public credential_context rng;
     (pending, request) \<leftarrow> expect prepared;
     let (issued, rng) = issue D issuer request credential_context rng;
     response \<leftarrow> expect issued;
     credential \<leftarrow> expect (finish D pending public request response);
     let presentation_context = scoped (sha3 D) (ascii ''vector.example'') (ascii ''write'') (Some (ascii ''epoch-9''));
     challenge \<leftarrow> test_challenge (sha3 D) credential_context presentation_context 7 (ascii ''test-vector/binding'');
     (presented, credential, rng) \<leftarrow> present D public challenge credential rng;
     presentation \<leftarrow> expect presented;
     public_bytes \<leftarrow> public_key_to_bytes D public;
     request_bytes \<leftarrow> request_to_bytes D request;
     response_bytes \<leftarrow> response_to_bytes D response;
     credential_bytes \<leftarrow> credential_to_bytes D credential;
     presentation_bytes \<leftarrow> presentation_to_bytes D presentation;
     Some [public_bytes, request_bytes, response_bytes, credential_bytes, presentation_bytes]
   }"

definition deterministic_wire_fingerprints ::
  "('g, 'pk, 'sk, 'sys, 'proof, 'rng, 'z) deps_scheme \<Rightarrow> (u64 \<Rightarrow> 'rng) \<Rightarrow> u64 \<Rightarrow> bytes list option" where
  "deterministic_wire_fingerprints D seed_from_u64 seed =
     map_option (map (wire_fingerprint (sha3 D))) (deterministic_wire_artifacts D seed_from_u64 seed)"

lemma fingerprints_run:
  assumes st: "setting D emb system_holds" and complete: "proof_complete D emb system_holds"
    and transport: "transport_laws D" and signing: "signing_succeeds D"
  shows "\<exists>fs. deterministic_wire_fingerprints D seed_from_u64 seed = Some fs \<and> length fs = 5"
proof -
  have app: "length (ascii ''test-vector/issuer-epoch-1'') \<le> MAX_APPLICATION_CONTEXT_BYTES"
    by (simp add: MAX_APPLICATION_CONTEXT_BYTES_def)
  let ?cctx = "credential_context_new (sha3 D) (ascii ''test-vector/credential'')"
  obtain issuer r1 pending request r2 response r3 c where
      gen: "generate_with_profile D (ascii ''test-vector/issuer-epoch-1'') Balanced (seed_from_u64 seed) = Some (issuer, r1)"
    and prep: "prepare_issue D (iss_public issuer) ?cctx r1 = Some (Inr (pending, request), r2)"
    and issued: "issue D issuer request ?cctx r2 = (Inr response, r3)"
    and fin: "finish D pending (iss_public issuer) request response = Inr c"
    and c: "genuine D (iss_public issuer)" "credential_valid D (iss_public issuer) c"
      "cred_credential_context c = ?cctx" "cred_next_nonces c = []"
    and ok: "response_valid D response" and len: "length (pub_context (iss_public issuer)) = 32"
    by (rule honest_run[OF st complete signing app])
  note laws = settingD(9)[OF st] transport
  have cctx: "length (credential_digest ?cctx) = 32" by (rule length_credential_context_new[OF st])
  have "length (pub_application_context (iss_public issuer)) \<le> MAX_APPLICATION_CONTEXT_BYTES"
    using generate_application_context[OF gen] by simp
  then obtain pub where pub: "public_key_to_bytes D (iss_public issuer) = Some pub"
    using public_key_transport[OF transport c(1)] by blast
  obtain req where req: "request_to_bytes D request = Some req"
    using request_transport[OF laws len cctx prep] by blast
  obtain resp where resp: "response_to_bytes D response = Some resp"
    using response_transport[OF laws(1) transportD(7)[OF transport] ok] by blast
  let ?ch = "chal (sha3 D) ?cctx (scoped (sha3 D) (ascii ''vector.example'') (ascii ''write'') (Some (ascii ''epoch-9''))) 7
    ''test-vector/binding''"
  have ch: "ch_credential_context ?ch = cred_credential_context c" "ch_limit ?ch \<noteq> 0" by (simp_all add: c(3))
  obtain pres c' r' x where run: "present D (iss_public issuer) ?ch c r3 = Some (Inr pres, c', r')"
    by (rule first_presentation[OF st complete c(1,2,4) ch])
  obtain shown where shown: "presentation_to_bytes D pres = Some shown"
    using presentation_transport[OF transport c(2) challenge_sized_new[OF st cctx] run] by blast
  have "\<exists>cred. credential_to_bytes D c' = Some cred" by (simp add: credential_to_bytes_eq)
  then show ?thesis
    by (auto simp: deterministic_wire_fingerprints_def deterministic_wire_artifacts_def gen prep issued fin test_challenge_Some run pub req resp shown)
qed

section \<open>The tests pass\<close>


lemma sealed_checks: "prover_checks sealed_deps demo_embed demo_holds"
  by (simp add: prover_checks_def sealed_proofs sealed_satisfies)


theorem salt_scenario_passes_witness:
  "signer_salt_randomizes_authenticators_without_minting_new_lineage sealed_deps unat of_nat = Some () \<or>
    coincide shake256 (map (\<lambda>l. frame_message CREDENTIAL_CONTEXT_DOMAIN [ascii l]) [''credential-epoch'', ''different-credential-epoch'']) \<or>
    (\<exists>first second. salt_responses sealed_deps unat = Some (first, second) \<and>
       (resp_salt first = resp_salt second \<or> resp_signature first = resp_signature second))"
proof -
  have "P_M (mp sealed_deps) < 2 ^ 64" by (simp add: sealed_fields demo_params_def)
  from salt_scenario_passes[OF sealed_setting sealed_proof_laws(2,3) this sealed_signing,
      where ?seed_from_u64.0 = unat and ?next_u64.0 = of_nat]
  show ?thesis by (simp add: sealed_fields)
qed

end
