(* ===== verification/Mutations.thy ===== *)
theory Mutations
  imports Policies
begin

text \<open>
  The test of \<open>src/src/protocol.rs\<close> that edits artifacts: one bit of an encoded request, response or
  presentation is flipped, at a sample of offsets, and whatever still decodes has to be refused. Canonical
  encodings and bound proofs settle this for every edit of one byte, except where the edited byte
  belongs to a proof or an authenticator, whose strength is that of the other crates.
\<close>

section \<open>One edited byte\<close>

text \<open>\<open>bytes[offset] ^= 1 << (offset % 8)\<close>, which panics when the offset is out of range.\<close>

definition flip_bit_at :: "bytes \<Rightarrow> nat \<Rightarrow> bytes option" where
  "flip_bit_at bs offset =
     (if offset < length bs then Some (bs[offset := bs ! offset XOR push_bit (offset mod 8) 1]) else None)"

text \<open>The offsets sampled in an encoding of a given length; an empty one makes \<open>len - 1\<close> panic.\<close>

definition mutation_offsets :: "nat \<Rightarrow> nat list option" where
  "mutation_offsets len =
     (if len = 0 \<or> 3 * len > usize_max then None
      else let offsets = [0, 4, 5, 6, 8, 9, 24, 40, 41, 44, 45, len div 4, len div 2, 3 * len div 4, len - 1];
               offsets = filter (\<lambda>offset. offset < len) offsets
           in Some (remdups_adj (sort offsets)))"

lemma strict_remdups_adj: "sorted xs \<Longrightarrow> sorted_wrt (<) (remdups_adj (xs :: nat list))"
  by (induction xs rule: remdups_adj.induct) (auto simp: order.strict_iff_order)

lemma mutation_offsets_sample:
  "0 < len \<Longrightarrow> 3 * len \<le> usize_max \<Longrightarrow>
     \<exists>offsets. mutation_offsets len = Some offsets \<and> sorted_wrt (<) offsets \<and> {0, len - 1} \<subseteq> set offsets \<and>
       (\<forall>offset\<in>set offsets. offset < len)"
proof -
  assume len: "0 < len" "3 * len \<le> usize_max"
  define xs where "xs = [0, 4, 5, 6, 8, 9, 24, 40, 41, 44, 45, len div 4, len div 2, 3 * len div 4, len - 1]"
  have no: "\<not> (len = 0 \<or> usize_max < 3 * len)" using len by simp
  have "mutation_offsets len = Some (remdups_adj (sort (filter (\<lambda>offset. offset < len) xs)))"
    by (simp only: mutation_offsets_def xs_def Let_def no if_False)
  moreover have "0 \<in> set xs" "len - 1 \<in> set xs" by (simp_all add: xs_def)
  then have "{0, len - 1} \<subseteq> {offset \<in> set xs. offset < len}" using len by simp
  ultimately show ?thesis by (auto intro!: exI strict_remdups_adj simp del: remdups_adj.simps)
qed

text \<open>Two byte strings that differ in one place at most.\<close>

definition nearby :: "'a list \<Rightarrow> 'a list \<Rightarrow> bool" where
  "nearby xs ys \<longleftrightarrow> (\<exists>i b. i < length xs \<and> ys = xs[i := b])"

lemma nearby_length: "nearby xs ys \<Longrightarrow> length ys = length xs"
  by (auto simp: nearby_def)

lemma nearby_append:
  assumes "nearby (xs @ ys) (xs' @ ys')" and len: "length xs' = length xs"
  shows "xs' = xs \<and> nearby ys ys' \<or> ys' = ys \<and> nearby xs xs'"
proof -
  obtain i b where i: "i < length (xs @ ys)" and eq: "xs' @ ys' = (xs @ ys)[i := b]"
    using assms(1) by (auto simp: nearby_def)
  show ?thesis
  proof (cases "i < length xs")
    case True
    then have "xs' = xs[i := b] \<and> ys' = ys" using eq len by (simp add: list_update_append)
    with True show ?thesis by (auto simp: nearby_def)
  next
    case False
    then have "xs' = xs \<and> ys' = ys[i - length xs := b]" using eq len by (simp add: list_update_append)
    moreover have "i - length xs < length ys" using i False by simp
    ultimately show ?thesis by (auto simp: nearby_def)
  qed
qed

lemma nearby_framed: "nearby (framed p) (framed p') \<Longrightarrow> p' = p \<or> nearby p p'"
proof -
  assume near: "nearby (framed p) (framed p')"
  then have "length p' = length p" by (auto dest!: nearby_length simp: framed_def)
  with nearby_append[OF near[unfolded framed_def]] show ?thesis by auto
qed

lemma xor_neq: "c \<noteq> 0 \<Longrightarrow> b XOR c \<noteq> (b :: byte)"
proof
  assume "c \<noteq> 0" and "b XOR c = b"
  then have "b XOR (b XOR c) = b XOR b" by simp
  with \<open>c \<noteq> 0\<close> show False by (simp flip: xor.assoc)
qed

lemma flip_nearby:
  assumes "flip_bit_at bs offset = Some bs'"
  shows "nearby bs bs'" and "bs' \<noteq> bs"
proof -
  have i: "offset < length bs" and bs': "bs' = bs[offset := bs ! offset XOR push_bit (offset mod 8) 1]"
    using assms by (auto simp: flip_bit_at_def split: if_splits)
  from i bs' show "nearby bs bs'" unfolding nearby_def by blast
  have "bit (push_bit (offset mod 8) (1 :: byte)) (offset mod 8)" by (simp add: bit_exp_iff)
  then have "push_bit (offset mod 8) (1 :: byte) \<noteq> 0" by (metis bit_0_eq bot_apply bot_bool_def)
  then have "bs ! offset XOR push_bit (offset mod 8) 1 \<noteq> bs ! offset" by (rule xor_neq)
  then show "bs' \<noteq> bs" using i bs' by (metis nth_list_update_eq)
qed

section \<open>What an edit can change\<close>

lemma request_edited:
  assumes "gf16_laws D" and "P_M (mp D) < usize_max" and "canonical_proofs D"
    and "request_from_bytes D bs = Inr request" and "request_from_bytes D bs' = Inr request'"
    and near: "nearby bs bs'" and "bs' \<noteq> bs"
  shows "req_proof request' = req_proof request \<and> req_commitment request' \<noteq> req_commitment request \<or>
    req_commitment request' = req_commitment request \<and> req_proof request' \<noteq> req_proof request \<and>
      nearby (proof_to_bytes D (req_proof request)) (proof_to_bytes D (req_proof request'))"
proof -
  let ?front = "\<lambda>r. header [] WIRE_ISSUE_REQUEST (P_WIRE_ID (mp D)) @ nibble_pairs D (req_commitment r)"
    and ?rear = "\<lambda>r. framed (proof_to_bytes D (req_proof r))"
  have parts: "request_valid D r \<and> bs = ?front r @ ?rear r" if "request_from_bytes D bs = Inr r" for bs r
    using request_sound[OF assms(1-3) that]
    by (auto simp: request_to_bytes_def pack_nibbles_eq put_bytes_eq Let_def split: if_splits)
  note p = parts[OF assms(4)] and p' = parts[OF assms(5)]
  have "length (?front request') = length (?front request)" using p p' by (simp add: request_valid_def)
  from nearby_append[OF _ this, of "?rear request" "?rear request'"] near p p'
  consider "?front request' = ?front request" "nearby (?rear request) (?rear request')" |
    "?rear request' = ?rear request" by auto
  then show ?thesis
  proof cases
    case 1
    then have "nibble_pairs D (req_commitment request') = nibble_pairs D (req_commitment request)" by simp
    then have same: "req_commitment request' = req_commitment request"
      using p p' unpack_pairs[OF assms(1)] by (metis request_valid_def)
    with 1(2) nearby_framed assms(7) p p' show ?thesis by metis
  next
    case 2
    then have "proof_to_bytes D (req_proof request') = proof_to_bytes D (req_proof request)" by (simp add: framed_def) 
    then have "req_proof request' = req_proof request" using p p' by (metis request_valid_def sum.inject(2))
    with 2 assms(7) p p' show ?thesis by metis
  qed
qed

lemma response_edited:
  assumes "gf16_laws S" and "P_KN (mp S) < usize_max"
    and "response_from_bytes S bs = Inr response" and "response_from_bytes S bs' = Inr response'"
    and near: "nearby bs bs'" and "bs' \<noteq> bs"
  shows "response' \<noteq> response \<and>
    (resp_signature response' = resp_signature response \<or> resp_salt response' = resp_salt response)"
proof -
  let ?front = "\<lambda>r. header [] WIRE_ISSUE_RESPONSE (P_WIRE_ID (mp S)) @ nibble_pairs S (resp_signature r)"
  have parts: "response_valid S r \<and> bs = ?front r @ resp_salt r" if "response_from_bytes S bs = Inr r" for bs r
    using response_sound[OF assms(1,2) that]
    by (auto simp: response_to_bytes_def pack_nibbles_eq Let_def)
  note p = parts[OF assms(3)] and p' = parts[OF assms(4)]
  have "length (?front response') = length (?front response)" using p p' by (simp add: response_valid_def)
  from nearby_append[OF _ this, of "resp_salt response" "resp_salt response'"] near p p'
  consider "?front response' = ?front response" | "resp_salt response' = resp_salt response" by auto
  then have "resp_signature response' = resp_signature response \<or> resp_salt response' = resp_salt response"
  proof cases
    case 1
    then have "nibble_pairs S (resp_signature response') = nibble_pairs S (resp_signature response)" by simp
    then show ?thesis using p p' unpack_pairs[OF assms(1)] by (metis response_valid_def)
  qed simp
  with assms(6) p p' show ?thesis by blast
qed

lemma presentation_edited:
  assumes "canonical_proofs D"
    and "presentation_from_bytes D bs = Inr pres" and "presentation_from_bytes D bs' = Inr pres'"
    and near: "nearby bs bs'" and "bs' \<noteq> bs"
  shows "pres_proof pres' = pres_proof pres \<and> pres_tag pres' \<noteq> pres_tag pres \<or>
    pres_tag pres' = pres_tag pres \<and> pres_proof pres' \<noteq> pres_proof pres \<and>
      nearby (proof_to_bytes D (pres_proof pres)) (proof_to_bytes D (pres_proof pres'))"
proof -
  let ?front = "\<lambda>r. header [] WIRE_PRESENTATION (P_WIRE_ID (mp D)) @ pres_tag r"
    and ?rear = "\<lambda>r. framed (proof_to_bytes D (pres_proof r))"
  have parts: "presentation_valid D r \<and> bs = ?front r @ ?rear r" if "presentation_from_bytes D bs = Inr r" for bs r
    using presentation_sound[OF assms(1) that]
    by (auto simp: presentation_to_bytes_def put_bytes_eq Let_def split: if_splits)
  note p = parts[OF assms(2)] and p' = parts[OF assms(3)]
  have "length (?front pres') = length (?front pres)" using p p' by (simp add: presentation_valid_def)
  from nearby_append[OF _ this, of "?rear pres" "?rear pres'"] near p p'
  consider "?front pres' = ?front pres" "nearby (?rear pres) (?rear pres')" | "?rear pres' = ?rear pres" by auto
  then show ?thesis
  proof cases
    case 1
    then have "pres_tag pres' = pres_tag pres" by simp
    with 1(2) nearby_framed assms(5) p p' show ?thesis by metis
  next
    case 2
    then have "proof_to_bytes D (pres_proof pres') = proof_to_bytes D (pres_proof pres)" by (simp add: framed_def)
    then have "pres_proof pres' = pres_proof pres" using p p' by (metis presentation_valid_def sum.inject(2))
    with 2 assms(5) p p' show ?thesis by metis
  qed
qed

section \<open>The test\<close>

text \<open>A loop with a state, each round of which may panic.\<close>

primrec loop_with :: "('a \<Rightarrow> 's \<Rightarrow> 's option) \<Rightarrow> 'a list \<Rightarrow> 's \<Rightarrow> 's option" where
  "loop_with f [] s = Some s"
| "loop_with f (x # xs) s = f x s \<bind> loop_with f xs"

lemma loop_with_passes: "(\<And>x s. x \<in> set xs \<Longrightarrow> \<exists>s'. f x s = Some s') \<Longrightarrow> \<exists>s'. loop_with f xs s = Some s'"
proof (induction xs arbitrary: s)
  case (Cons x xs)
  obtain s' where "f x s = Some s'" using Cons.prems[of x s] by auto
  with Cons show ?case by simp
qed simp

definition mutation_fixture ::
  "('g, 'pk, 'sk, 'sys, 'proof, 'rng, 'z) deps_scheme \<Rightarrow> (u64 \<Rightarrow> 'rng) \<Rightarrow>
     (('pk, 'sk, 'sys) issuer \<times> credential_context \<times> bytes \<times> ('g, 'proof) issue_request \<times> 'g issue_response \<times>
      presentation_challenge \<times> 'proof presentation \<times> 'rng) option" where
  "mutation_fixture D seed_from_u64 = do {
     let rng = seed_from_u64 0x564152430004;
     (issuer, rng) \<leftarrow> generate_with_profile D (ascii ''mutation-tests'') Compact rng;
     let public = iss_public issuer;
     let credential_context = credential_context_new (sha3 D) (ascii ''mutation-credential'');
     (prepared, rng) \<leftarrow> prepare_issue D public credential_context rng;
     (pending, request) \<leftarrow> expect prepared;
     let pending_bytes = pending_to_bytes D pending;
     let (issued, rng) = issue D issuer request credential_context rng;
     response \<leftarrow> expect issued;
     credential \<leftarrow> expect (finish D pending public request response);
     challenge \<leftarrow> test_challenge (sha3 D) credential_context
       (presentation_context_new (sha3 D) (ascii ''mutation-scope'')) 1 (ascii ''mutation-binding'');
     (presented, credential, rng) \<leftarrow> present D public challenge credential rng;
     presentation \<leftarrow> expect presented;
     _ \<leftarrow> expect (verify_proof_only D public challenge presentation);
     Some (issuer, credential_context, pending_bytes, request, response, challenge, presentation, rng)
   }"

text \<open>One round of each of the three loops: the bytes with one bit flipped are refused by the decoder, or what
  they decode to is refused by the issuer, the client or the verifier.\<close>

definition request_round ::
  "('g, 'pk, 'sk, 'sys, 'proof, 'rng, 'z) deps_scheme \<Rightarrow> ('pk, 'sk, 'sys) issuer \<Rightarrow> credential_context \<Rightarrow> bytes \<Rightarrow>
     nat \<Rightarrow> 'rng \<Rightarrow> 'rng option" where
  "request_round D issuer credential_context request_bytes offset rng = do {
     mutated \<leftarrow> flip_bit_at request_bytes offset;
     case request_from_bytes D mutated of
       Inl e \<Rightarrow> Some rng
     | Inr mutated \<Rightarrow> (let (issued, rng) = issue D issuer mutated credential_context rng
         in do { _ \<leftarrow> assert_that (isl issued); Some rng })
   }"

definition response_round ::
  "('g, 'pk, 'sk, 'sys, 'proof, 'rng, 'z) deps_scheme \<Rightarrow> ('pk, 'sys) public_key \<Rightarrow> bytes \<Rightarrow> ('g, 'proof) issue_request \<Rightarrow>
     bytes \<Rightarrow> nat \<Rightarrow> unit \<Rightarrow> unit option" where
  "response_round D public pending_bytes request response_bytes offset s = do {
     mutated \<leftarrow> flip_bit_at response_bytes offset;
     case response_from_bytes D mutated of
       Inl e \<Rightarrow> Some ()
     | Inr mutated \<Rightarrow> do {
         pending \<leftarrow> expect (pending_from_bytes D public pending_bytes);
         assert_that (isl (finish D pending public request mutated)) }
   }"

definition presentation_round ::
  "('g, 'pk, 'sk, 'sys, 'proof, 'rng, 'z) deps_scheme \<Rightarrow> ('pk, 'sys) public_key \<Rightarrow> presentation_challenge \<Rightarrow>
     bytes \<Rightarrow> nat \<Rightarrow> unit \<Rightarrow> unit option" where
  "presentation_round D public challenge presentation_bytes offset s = do {
     mutated \<leftarrow> flip_bit_at presentation_bytes offset;
     case presentation_from_bytes D mutated of
       Inl e \<Rightarrow> Some ()
     | Inr mutated \<Rightarrow> assert_that (isl (verify_proof_only D public challenge mutated))
   }"

text \<open>An encoding that decodes can be sampled, and a loop over the sample passes when its rounds do.\<close>

lemma sampled:
  assumes "fits bs" and "bs \<noteq> []"
    and "\<And>offset s. offset < length bs \<Longrightarrow> \<exists>s'. f offset s = Some s'"
  obtains offsets s' where "mutation_offsets (length bs) = Some offsets" "loop_with f offsets s = Some s'"
proof -
  have "0 < length bs" "3 * length bs \<le> usize_max"
    using assms(1,2) by (simp_all add: fits_def MAX_WIRE_BYTES_def usize_max_def)
  then obtain offsets where "mutation_offsets (length bs) = Some offsets" "\<forall>offset\<in>set offsets. offset < length bs"
    using mutation_offsets_sample by blast
  with loop_with_passes[of offsets f s] assms(3) that show thesis by blast
qed

lemma flip_total:
  assumes "offset < length bs" obtains bs' where "flip_bit_at bs offset = Some bs'"
  using assms by (simp add: flip_bit_at_def)

lemma request_round_passes:
  assumes "offset < length bs"
    and refused: "\<And>bs' q. flip_bit_at bs offset = Some bs' \<Longrightarrow> request_from_bytes D bs' = Inr q \<Longrightarrow> isl (fst (issue D issuer q cctx rng))"
  shows "\<exists>rng'. request_round D issuer cctx bs offset rng = Some rng'"
proof (rule flip_total[OF assms(1)])
  fix bs' assume flip: "flip_bit_at bs offset = Some bs'"
  show ?thesis
  proof (cases "request_from_bytes D bs'")
    case (Inr q)
    obtain res rng' where "issue D issuer q cctx rng = (res, rng')" by force
    with refused[OF flip Inr] Inr flip show ?thesis by (simp add: request_round_def)
  qed (simp add: request_round_def flip)
qed

lemma response_round_passes:
  assumes "offset < length bs" and "pending_from_bytes D public pending_bytes = Inr pending"
    and refused: "\<And>bs' q. flip_bit_at bs offset = Some bs' \<Longrightarrow> response_from_bytes D bs' = Inr q \<Longrightarrow> isl (finish D pending public request q)"
  shows "\<exists>s'. response_round D public pending_bytes request bs offset s = Some s'"
proof (rule flip_total[OF assms(1)])
  fix bs' assume flip: "flip_bit_at bs offset = Some bs'"
  with refused[OF flip] assms(2) show ?thesis by (auto simp: response_round_def split: sum.split)
qed

lemma presentation_round_passes:
  assumes "offset < length bs"
    and refused: "\<And>bs' q. flip_bit_at bs offset = Some bs' \<Longrightarrow> presentation_from_bytes D bs' = Inr q \<Longrightarrow> isl (verify_proof_only D public ch q)"
  shows "\<exists>s'. presentation_round D public ch bs offset s = Some s'"
proof (rule flip_total[OF assms(1)])
  fix bs' assume flip: "flip_bit_at bs offset = Some bs'"
  with refused[OF flip] show ?thesis by (auto simp: presentation_round_def split: sum.split)
qed

definition cross_key_and_sampled_wire_mutations_fail_closed ::
  "('g, 'pk, 'sk, 'sys, 'proof, 'rng, 'z) deps_scheme \<Rightarrow> (u64 \<Rightarrow> 'rng) \<Rightarrow> unit option" where
  "cross_key_and_sampled_wire_mutations_fail_closed D seed_from_u64 = do {
     (issuer, credential_context, pending_bytes, request, response, challenge, presentation, rng) \<leftarrow>
       mutation_fixture D seed_from_u64;
     let public = iss_public issuer;
     (other_issuer, rng) \<leftarrow> generate_with_profile D (ascii ''mutation-tests/other-key'') Compact rng;
     let (issued, rng) = issue D other_issuer request credential_context rng;
     _ \<leftarrow> assert_that (issued = Inl InvalidProof);
     request_bytes \<leftarrow> request_to_bytes D request;
     offsets \<leftarrow> mutation_offsets (length request_bytes);
     rng \<leftarrow> loop_with (request_round D issuer credential_context request_bytes) offsets rng;
     response_bytes \<leftarrow> response_to_bytes D response;
     offsets \<leftarrow> mutation_offsets (length response_bytes);
     _ \<leftarrow> loop_with (response_round D public pending_bytes request response_bytes) offsets ();
     presentation_bytes \<leftarrow> presentation_to_bytes D presentation;
     offsets \<leftarrow> mutation_offsets (length presentation_bytes);
     loop_with (presentation_round D public challenge presentation_bytes) offsets ()
   }"

text \<open>What would make the test fail: two keys with one context, or, one byte away from the artifact of the run,
  another proof of the same request or presentation, or another authenticator of the same commitment.\<close>

definition forged ::
  "('g, 'pk, 'sk, 'sys, 'proof, 'rng, 'z) deps_scheme \<Rightarrow>
     ('pk, 'sk, 'sys) issuer \<times> credential_context \<times> bytes \<times> ('g, 'proof) issue_request \<times> 'g issue_response \<times>
       presentation_challenge \<times> 'proof presentation \<times> 'rng \<Rightarrow> bool" where
  "forged D run \<longleftrightarrow> (case run of (issuer, cctx, pending_bytes, request, response, challenge, pres, rng) \<Rightarrow>
     (\<exists>other rng'. generate_with_profile D (ascii ''mutation-tests/other-key'') Compact rng = Some (other, rng') \<and>
        pub_context (iss_public other) = pub_context (iss_public issuer)) \<or>
     (\<exists>p rng. p \<noteq> req_proof request \<and> nearby (proof_to_bytes D (req_proof request)) (proof_to_bytes D p) \<and>
        \<not> isl (fst (issue D issuer (request\<lparr>req_proof := p\<rparr>) cctx rng))) \<or>
     (\<exists>r. r \<noteq> response \<and> (resp_signature r = resp_signature response \<or> resp_salt r = resp_salt response) \<and>
        mayo_eval D (pub_mayo (iss_public issuer)) (resp_signature r) =
          Some (signed_credential_target D (req_commitment request) (resp_salt r))) \<or>
     (\<exists>p. p \<noteq> pres_proof pres \<and> nearby (proof_to_bytes D (pres_proof pres)) (proof_to_bytes D p) \<and>
        \<not> isl (verify_proof_only D (iss_public issuer) challenge (pres\<lparr>pres_proof := p\<rparr>))))"

lemma request_edit_refused:
  assumes st: "setting D emb system_holds" and binding: "proof_binding D" and transport: "transport_laws D"
    and canonical: "canonical_proofs D" and len: "length (pub_context (iss_public issuer)) = 32"
      "length (credential_digest cctx) = 32"
    and prep: "prepare_issue D (iss_public issuer) cctx r = Some (Inr (pending, request), r')"
    and dec: "request_from_bytes D bs = Inr request" and flip: "flip_bit_at bs offset = Some bs'"
    and dec': "request_from_bytes D bs' = Inr request'"
  shows "isl (fst (issue D issuer request' cctx rng)) \<or>
    (\<exists>p. p \<noteq> req_proof request \<and> nearby (proof_to_bytes D (req_proof request)) (proof_to_bytes D p) \<and>
       \<not> isl (fst (issue D issuer (request\<lparr>req_proof := p\<rparr>) cctx rng)))"
  using request_edited[OF settingD(9)[OF st] transport_bounds(1)[OF transport] canonical dec dec' flip_nearby[OF flip]]
proof (elim disjE conjE, goal_cases commitment_changed proof_changed)
  case commitment_changed
  have small: "P_M (mp D) < 2 ^ 64" using transportD(6)[OF transport] by simp
  have eq: "request' = \<lparr>req_commitment = req_commitment request', req_proof = req_proof request\<rparr>"
    using commitment_changed by (cases request') simp
  have "isl (fst (issue D issuer request' cctx rng))"
  proof (rule ccontr)
    assume "\<not> ?thesis"
    then obtain x y where "issue D issuer request' cctx rng = (Inr x, y)" using not_isl_fst by blast
    then have "issue D issuer \<lparr>req_commitment = req_commitment request', req_proof = req_proof request\<rparr> cctx rng = (Inr x, y)"
      by (metis eq)
    from request_moved[OF binding settingD(9)[OF st] small len(1,1) len(2,2) prep this] show False using commitment_changed by simp
  qed
  then show ?thesis ..
next
  case proof_changed
  then have "request' = request\<lparr>req_proof := req_proof request'\<rparr>" by (cases request; cases request') simp
  with proof_changed show ?thesis by metis
qed

lemma presentation_edit_refused:
  assumes binding: "proof_binding D" and name: "small (P_NAME (mp D))" and canonical: "canonical_proofs D"
    and len: "length (pub_context public) = 32" and sized: "challenge_sized ch"
    and run: "present D public ch c r = Some (Inr pres, c', r')"
    and dec: "presentation_from_bytes D bs = Inr pres" and flip: "flip_bit_at bs offset = Some bs'"
    and dec': "presentation_from_bytes D bs' = Inr pres'"
  shows "isl (verify_proof_only D public ch pres') \<or>
    (\<exists>p. p \<noteq> pres_proof pres \<and> nearby (proof_to_bytes D (pres_proof pres)) (proof_to_bytes D p) \<and>
       \<not> isl (verify_proof_only D public ch (pres\<lparr>pres_proof := p\<rparr>)))"
  using presentation_edited[OF canonical dec dec' flip_nearby[OF flip]]
proof (elim disjE conjE, goal_cases tag_changed proof_changed)
  case tag_changed
  then have eq: "pres' = \<lparr>pres_tag = pres_tag pres', pres_proof = pres_proof pres\<rparr>" by (cases pres') simp
  have "isl (verify_proof_only D public ch pres')"
  proof (rule ccontr)
    assume "\<not> ?thesis"
    then obtain x where "verify_proof_only D public ch \<lparr>pres_tag = pres_tag pres', pres_proof = pres_proof pres\<rparr> = Inr x"
      by (metis eq sum.collapse(2))
    from presentation_moved[OF binding name len len sized sized run this] tag_changed show False by simp
  qed
  then show ?thesis ..
next
  case proof_changed
  then have "pres' = pres\<lparr>pres_proof := pres_proof pres'\<rparr>" by (cases pres; cases pres') simp
  with proof_changed show ?thesis by metis
qed

lemma response_edit_refused:
  assumes st: "setting D emb system_holds" and transport: "transport_laws D"
    and fin: "finish D pending public request response = Inr c"
    and dec: "response_from_bytes D bs = Inr response" and flip: "flip_bit_at bs offset = Some bs'"
    and dec': "response_from_bytes D bs' = Inr response'"
  shows "isl (finish D pending public request response') \<or>
    (\<exists>r. r \<noteq> response \<and> (resp_signature r = resp_signature response \<or> resp_salt r = resp_salt response) \<and>
       mayo_eval D (pub_mayo public) (resp_signature r) =
         Some (signed_credential_target D (req_commitment request) (resp_salt r)))"
proof (cases "finish D pending public request response'")
  case (Inr c')
  with response_edited[OF settingD(9)[OF st] transport_bounds(2)[OF transport] dec dec' flip_nearby[OF flip]] fin
  show ?thesis by (auto simp: finish_iff[OF settingD(2)[OF st]])
qed simp

lemma other_key_refused:
  assumes st: "setting D emb system_holds" and binding: "proof_binding D" and transport: "transport_laws D"
    and signing: "signing_succeeds D"
    and len: "length (pub_context public) = 32" "length (pub_context (iss_public other)) = 32"
      "length (credential_digest cctx) = 32"
    and prep: "prepare_issue D public cctx r = Some (Inr (pending, request), r')"
    and diff: "pub_context (iss_public other) \<noteq> pub_context public"
  shows "fst (issue D other request cctx rng) = Inl InvalidProof"
proof -
  have small: "P_M (mp D) < 2 ^ 64" using transportD(6)[OF transport] by simp
  obtain res rng' where run: "issue D other request cctx rng = (res, rng')" by force
  show ?thesis
  proof (cases res)
    case (Inl e)
    with run issue_refused[OF run[unfolded Inl]] prepare_commitment[OF prep] issue_signing_failed[of D other request cctx rng rng'] signing
    show ?thesis by (auto simp: signing_succeeds_def simp del: not_None_eq)
  next
    case (Inr response)
    have "\<lparr>req_commitment = req_commitment request, req_proof = req_proof request\<rparr> = request" by simp
    then have "issue D other \<lparr>req_commitment = req_commitment request, req_proof = req_proof request\<rparr> cctx rng = (Inr response, rng')"
      using run Inr by (simp only:)
    from request_moved[OF binding settingD(9)[OF st] small len(1,2,3,3) prep this] diff show ?thesis by simp
  qed
qed

text \<open>What decodes is not empty, and within the size limit.\<close>

lemma decoded_request:
  "gf16_laws D \<Longrightarrow> P_M (mp D) < usize_max \<Longrightarrow> canonical_proofs D \<Longrightarrow> request_from_bytes D bs = Inr q \<Longrightarrow> fits bs \<and> bs \<noteq> []"
  by (drule (3) request_sound) (auto simp: request_to_bytes_def pack_nibbles_eq put_bytes_eq header_def MAGIC_def Let_def split: if_splits)

lemma decoded_response:
  "gf16_laws S \<Longrightarrow> P_KN (mp S) < usize_max \<Longrightarrow> response_from_bytes S bs = Inr q \<Longrightarrow> fits bs \<and> bs \<noteq> []"
  by (drule (2) response_sound) (auto simp: response_to_bytes_def pack_nibbles_eq header_def MAGIC_def Let_def)

lemma decoded_presentation:
  "canonical_proofs D \<Longrightarrow> presentation_from_bytes D bs = Inr q \<Longrightarrow> fits bs \<and> bs \<noteq> []"
  by (drule (1) presentation_sound) (auto simp: presentation_to_bytes_def put_bytes_eq header_def MAGIC_def Let_def split: if_splits)

text \<open>The first part of the test runs through, with artifacts that survive their encoding.\<close>

lemma mutation_fixture_runs:
  assumes st: "setting D emb system_holds" and complete: "proof_complete D emb system_holds"
    and transport: "transport_laws D" and signing: "signing_succeeds D"
  obtains issuer cctx pending request response ch c pres rng r1 r2 r3 c' r4 cred req resp shown where
    "mutation_fixture D seed_from_u64 = Some (issuer, cctx, pending_to_bytes D pending, request, response, ch, pres, rng)"
    "length (pub_context (iss_public issuer)) = 32" "length (credential_digest cctx) = 32" "challenge_sized ch"
    "prepare_issue D (iss_public issuer) cctx r1 = Some (Inr (pending, request), r2)"
    "finish D pending (iss_public issuer) request response = Inr c"
    "present D (iss_public issuer) ch cred r3 = Some (Inr pres, c', r4)"
    "pending_valid D (iss_public issuer) pending"
    "request_to_bytes D request = Some req" "request_from_bytes D req = Inr request"
    "response_to_bytes D response = Some resp" "response_from_bytes D resp = Inr response"
    "presentation_to_bytes D pres = Some shown" "presentation_from_bytes D shown = Inr pres"
proof -
  have app: "length (ascii ''mutation-tests'') \<le> MAX_APPLICATION_CONTEXT_BYTES"
    by (simp add: MAX_APPLICATION_CONTEXT_BYTES_def)
  let ?cctx = "credential_context_new (sha3 D) (ascii ''mutation-credential'')"
    and ?pctx = "presentation_context_new (sha3 D) (ascii ''mutation-scope'')"
  obtain issuer r1 pending request r2 response r3 c where
      gen: "generate_with_profile D (ascii ''mutation-tests'') Compact (seed_from_u64 0x564152430004) = Some (issuer, r1)"
    and prep: "prepare_issue D (iss_public issuer) ?cctx r1 = Some (Inr (pending, request), r2)"
    and issued: "issue D issuer request ?cctx r2 = (Inr response, r3)"
    and fin: "finish D pending (iss_public issuer) request response = Inr c"
    and c: "genuine D (iss_public issuer)" "credential_valid D (iss_public issuer) c"
      "cred_credential_context c = ?cctx" "cred_next_nonces c = []"
    and ok: "pending_valid D (iss_public issuer) pending" "response_valid D response"
    and len: "length (pub_context (iss_public issuer)) = 32"
    by (rule honest_run[OF st complete signing app])
  note laws = settingD(9)[OF st] transport
  have cctx: "length (credential_digest ?cctx) = 32" by (rule length_credential_context_new[OF st])
  let ?ch = "chal (sha3 D) ?cctx ?pctx 1 ''mutation-binding''"
  have ch: "ch_credential_context ?ch = cred_credential_context c" "ch_limit ?ch \<noteq> 0" by (simp_all add: c(3))
  have sized: "challenge_sized ?ch"
    using cctx by (simp add: challenge_sized_def presentation_context_new_def presentation_binding_new_def hash_framed_def length_sha3[OF st])
  obtain pres c' r4 x where run: "present D (iss_public issuer) ?ch c r3 = Some (Inr pres, c', r4)"
    and ver: "verify_proof_only D (iss_public issuer) ?ch pres = Inr x"
    by (rule first_presentation[OF st complete c(1,2,4) ch])
  have fixture: "mutation_fixture D seed_from_u64 =
      Some (issuer, ?cctx, pending_to_bytes D pending, request, response, ?ch, pres, r4)"
    by (simp add: mutation_fixture_def gen prep issued fin test_challenge_Some run ver Let_def)
  obtain req where req: "request_to_bytes D request = Some req" "request_from_bytes D req = Inr request"
    by (rule request_transport[OF laws len cctx prep])
  obtain resp where resp: "response_to_bytes D response = Some resp" "response_from_bytes D resp = Inr response"
    by (rule response_transport[OF laws(1) transportD(7)[OF transport] ok(2)])
  obtain shown where shown: "presentation_to_bytes D pres = Some shown" "presentation_from_bytes D shown = Inr pres"
    by (rule presentation_transport[OF transport c(2) sized run])
  show thesis by (rule that[OF fixture len cctx sized prep fin run ok(1) req resp shown])
qed



end
