(* ===== verification/Vectors.thy ===== *)
theory Vectors
  imports UnitTests
begin

text \<open>
  The two wire test vectors of \<open>src/src/protocol.rs\<close>: the fingerprints of the five artifacts of a run with a
  fixed seed. Whether a run yields them depends on the other crates, bit by bit; what is shown here is
  what the vectors guard: two implementations of those crates that both pass wrote the same artifacts.
\<close>

section \<open>Fingerprints bind\<close>

definition fingerprint_message :: "bytes \<Rightarrow> bytes" where
  "fingerprint_message bs = ascii ''VOLE-ARC/test-vector-fingerprint/v1'' @ len_u64 bs @ bs"

lemma wire_fingerprint_binds:
  "wire_fingerprint xof bs = wire_fingerprint xof bs' \<longleftrightarrow>
     bs = bs' \<or> collides xof (fingerprint_message bs) (fingerprint_message bs')"
  by (auto simp: wire_fingerprint_def fingerprint_message_def collides_def)

lemma fingerprints_bind:
  assumes "map (wire_fingerprint xof) xs = map (wire_fingerprint xof) ys"
  shows "xs = ys \<or> (\<exists>x\<in>set xs. \<exists>y\<in>set ys. collides xof (fingerprint_message x) (fingerprint_message y))"
  using assms
proof (induction xs arbitrary: ys)
  case (Cons x xs)
  then obtain y ys' where ys: "ys = y # ys'" and "wire_fingerprint xof x = wire_fingerprint xof y"
    "map (wire_fingerprint xof) xs = map (wire_fingerprint xof) ys'" by auto
  with Cons.IH[of ys'] wire_fingerprint_binds[of xof x y] show ?case by (auto simp: ys)
qed simp

section \<open>The vectors\<close>

definition mayo1_fingerprints :: "bytes list" where
  "mayo1_fingerprints =
   [[0x59, 0x88, 0x6e, 0x3e, 0x95, 0xb2, 0xee, 0x99, 0x6e, 0x7c, 0x7c, 0x4c, 0xcd, 0x43, 0x79, 0x2b,
     0xa7, 0x49, 0x4f, 0x69, 0x30, 0x8b, 0xfa, 0x00, 0x04, 0x28, 0xe2, 0xba, 0x38, 0xda, 0x2b, 0xea],
    [0x67, 0x7c, 0x08, 0x29, 0x78, 0xa1, 0x0b, 0xfe, 0xad, 0xd3, 0xd4, 0xa7, 0xe6, 0xbd, 0x2b, 0xae,
     0x61, 0xb9, 0xe0, 0xd0, 0xf2, 0x7a, 0xad, 0x80, 0x3c, 0x45, 0x19, 0xdf, 0xe4, 0xb6, 0x8b, 0x68],
    [0x6b, 0xf5, 0xef, 0x48, 0x7b, 0xb5, 0xb3, 0x48, 0x98, 0xb3, 0x95, 0xc3, 0x49, 0xe9, 0x7d, 0x45,
     0xcb, 0x0b, 0x7e, 0x46, 0xb8, 0xb0, 0xab, 0x98, 0x7d, 0x5a, 0x3f, 0x83, 0xa0, 0xac, 0x9a, 0x51],
    [0x17, 0x2a, 0x7c, 0xad, 0xee, 0xab, 0xf9, 0x97, 0x16, 0xe2, 0x00, 0x36, 0x64, 0xde, 0x35, 0x00,
     0xd8, 0xaf, 0x1b, 0xff, 0x75, 0x18, 0xe4, 0x37, 0xb8, 0xdf, 0x62, 0xe3, 0x27, 0xe6, 0x8a, 0x8d],
    [0x78, 0xb9, 0x2d, 0xd0, 0xdb, 0x8e, 0x48, 0xc1, 0x0d, 0x09, 0xac, 0xc7, 0x72, 0xe8, 0x3e, 0x82,
     0x44, 0x27, 0x62, 0x05, 0xb0, 0xf1, 0xa0, 0xb8, 0xb8, 0xff, 0xf5, 0x28, 0xc6, 0xd2, 0x61, 0x25]]"

definition mayo2_fingerprints :: "bytes list" where
  "mayo2_fingerprints =
   [[0x20, 0x55, 0x48, 0xeb, 0xb1, 0xc5, 0xef, 0x36, 0xe9, 0xfc, 0xfd, 0xfb, 0xd4, 0x59, 0x3e, 0x35,
     0xaa, 0x77, 0x7b, 0xea, 0x08, 0x3d, 0x37, 0x46, 0x4e, 0xe9, 0x17, 0xed, 0x73, 0xe7, 0x6e, 0x89],
    [0xe9, 0xe7, 0x40, 0xd1, 0x0c, 0x0f, 0x69, 0x77, 0xff, 0x78, 0xb2, 0x14, 0xff, 0x24, 0x36, 0x83,
     0x9d, 0x99, 0x74, 0x57, 0xec, 0x5a, 0x71, 0x0c, 0x3b, 0x5b, 0xc6, 0xec, 0x18, 0xae, 0x13, 0x03],
    [0xfc, 0xdd, 0xca, 0xeb, 0xe2, 0xdd, 0x51, 0xa1, 0x3a, 0x23, 0x05, 0xaf, 0xb9, 0x9e, 0xb6, 0xe4,
     0xfc, 0x1d, 0x45, 0xbb, 0x54, 0xaf, 0xf6, 0x03, 0xca, 0x5b, 0x30, 0x34, 0x2e, 0x8a, 0x50, 0x70],
    [0xac, 0x8f, 0x7e, 0xd4, 0x76, 0x4d, 0x14, 0x6b, 0x21, 0x18, 0x0a, 0xac, 0x7e, 0x5c, 0xae, 0x13,
     0x65, 0x4e, 0xea, 0x38, 0xa9, 0x9d, 0xb6, 0x13, 0xca, 0xd0, 0x05, 0x08, 0x38, 0x2d, 0x62, 0x96],
    [0x22, 0x9d, 0xf0, 0x8e, 0x51, 0x4a, 0x96, 0xe6, 0xad, 0xa3, 0x7e, 0x4f, 0x8a, 0xd7, 0x03, 0x89,
     0xdf, 0x2f, 0x9d, 0x6b, 0x80, 0x90, 0xd3, 0x36, 0x28, 0x1d, 0x76, 0x7c, 0x69, 0x0f, 0x0d, 0xa1]]"

definition deterministic_mayo1_wire_vector ::
  "('g, 'pk, 'sk, 'sys, 'proof, 'rng, 'z) deps_scheme \<Rightarrow> (u64 \<Rightarrow> 'rng) \<Rightarrow> unit option" where
  "deterministic_mayo1_wire_vector D seed_from_u64 = do {
     fingerprints \<leftarrow> deterministic_wire_fingerprints D seed_from_u64 0x5641524356454354;
     assert_that (fingerprints = mayo1_fingerprints)
   }"

definition deterministic_default_mayo2_wire_vector ::
  "('g, 'pk, 'sk, 'sys, 'proof, 'rng, 'z) deps_scheme \<Rightarrow> (u64 \<Rightarrow> 'rng) \<Rightarrow> unit option" where
  "deterministic_default_mayo2_wire_vector D seed_from_u64 = do {
     fingerprints \<leftarrow> deterministic_wire_fingerprints D seed_from_u64 0x564152434d41594f;
     assert_that (fingerprints = mayo2_fingerprints)
   }"

lemma vector_lengths:
  "length mayo1_fingerprints = 5" "list_all (\<lambda>f. length f = 32) mayo1_fingerprints"
  "length mayo2_fingerprints = 5" "list_all (\<lambda>f. length f = 32) mayo2_fingerprints"
  by (simp_all add: mayo1_fingerprints_def mayo2_fingerprints_def)

text \<open>Two sets of crates with the same hash that pass a vector agree on every byte of the run.\<close>

lemma vectors_pin_artifacts:
  assumes "sha3 D = sha3 D'"
    and "deterministic_mayo1_wire_vector D seed_from_u64 = Some () \<and> deterministic_mayo1_wire_vector D' seed_from_u64' = Some () \<and>
        seed = 0x5641524356454354 \<or>
      deterministic_default_mayo2_wire_vector D seed_from_u64 = Some () \<and>
        deterministic_default_mayo2_wire_vector D' seed_from_u64' = Some () \<and> seed = 0x564152434d41594f"
  obtains artifacts artifacts' where "deterministic_wire_artifacts D seed_from_u64 seed = Some artifacts"
    "deterministic_wire_artifacts D' seed_from_u64' seed = Some artifacts'"
    "artifacts = artifacts' \<or>
      (\<exists>x\<in>set artifacts. \<exists>y\<in>set artifacts'. collides (sha3 D) (fingerprint_message x) (fingerprint_message y))"
proof -
  obtain xs ys where "deterministic_wire_artifacts D seed_from_u64 seed = Some xs"
    "deterministic_wire_artifacts D' seed_from_u64' seed = Some ys"
    "map (wire_fingerprint (sha3 D)) xs = map (wire_fingerprint (sha3 D)) ys"
    using assms by (auto simp: deterministic_mayo1_wire_vector_def deterministic_default_mayo2_wire_vector_def
        deterministic_wire_fingerprints_def bind_eq_Some_conv)
  from that[OF this(1,2) fingerprints_bind[OF this(3)]] show thesis .
qed

end
