(* ===== verification/Spec2Isabelle.thy ===== *)
theory Spec2Isabelle
  imports OrderedMap Codec Markers Store Contexts KeccakSpec Relations CircuitDegree ShakeSpec Artifacts Client Flows Accounting Binding PrefixFree Capacity Example Fuzz
    Replicas Confinement Sealed Transport Scenarios Policies UnitTests Mutations Vectors
begin

text \<open>
  VOLE-ARC is a Rust library for scoped anonymous rate-limited credentials. A client commits to a hidden
  secret and proves that it knows the opening; the issuer salts the commitment and returns a preimage of
  the salted commitment under its trapdoor function; the client may then show the credential, in every
  presentation context, as often as the context's limit says, each time with a tag derived from the
  secret, the context and a hidden counter, and a proof that the tag is well formed. The verifier records
  tags and refuses one it has seen. The development models the library of \<open>src/src\<close> with its tests, the example
  program and the fuzz targets, and proves what makes them correct.

  \<^bold>\<open>The parts, and how they call each other.\<close>
  \<^item> \<open>Prelude\<close>: bytes and machine words, little-endian encodings, \<open>Result\<close> as a sum with the operator \<open>?\<close>
    (\<open>rbind\<close>), loops over arrays, the collections \<open>codec_simps\<close>, \<open>enc_len\<close> and \<open>gadget\<close>.
  \<^item> \<open>OrderedMap\<close>: the standard library's \<open>BTreeMap\<close>, with the locale \<open>ordered_map\<close> as the interface of a
    credential's counters.
  \<^item> \<open>Wire\<close> (\<open>wire.rs\<close>): \<open>header\<close>, \<open>put_bytes\<close>, \<open>pack_nibbles\<close> and the \<open>Decoder\<close> as a record with one
    function per method. \<open>Codec\<close> holds its contract: the locale \<open>field_codec\<close> for one field, interpreted on
    every read of the decoder, and \<open>artifact_codec\<close> for a whole encoding.
  \<^item> \<open>Markers\<close> (\<open>markers.rs\<close>): errors, their texts, the performance profiles.
  \<^item> \<open>Store\<close> (\<open>store.rs\<close>): the trait \<open>TagStore\<close> as the locale \<open>tag_store\<close>, interpreted on \<open>MemoryTagStore\<close>.
  \<^item> \<open>Contexts\<close> (\<open>context.rs\<close>): framed digests, contexts, bindings, challenges.
  \<^item> \<open>Keccak\<close> (\<open>keccak.rs\<close>): the permutation and SHAKE256 on lanes of 64 bits. \<open>KeccakSpec\<close> and
    \<open>ShakeSpec\<close> transcribe FIPS 202 bit by bit and prove that the code computes it; \<open>SpongeBits\<close> relates
    bytes, lanes and bits.
  \<^item> \<open>CircuitNative\<close> and \<open>CircuitBuild\<close> (\<open>circuit.rs\<close>): hash inputs, targets, tags and witnesses computed
    natively, and the two circuits built through the operations of a backend, in the state monad. A backend
    is a parameter; \<open>CircuitLogic\<close> is a program logic for backends that evaluate (the locale
    \<open>backend_logic\<close>, interpreted on \<open>check_backend\<close>), \<open>KeccakGadget\<close> and \<open>CircuitGadgets\<close> verify the parts,
    \<open>Relations\<close> the two circuits, \<open>CircuitDegree\<close> their degree on a backend that counts degrees.
  \<^item> \<open>Protocol\<close> (\<open>protocol.rs\<close>): issuer, client and verifier, operation by operation, and \<open>ProtocolWire\<close>: the
    seven encodings. \<open>Laws\<close> states what they rely on, \<open>Artifacts\<close> and \<open>PrefixFree\<close> treat the encodings,
    \<open>Capacity\<close> the room reserved for buffers and encodings,
    \<open>Client\<close> what a client does over time (the step relation \<open>client_run\<close>), \<open>Flows\<close> issuance and
    presentation from end to end, \<open>Accounting\<close> runs of a verifier, \<open>Binding\<close> what hash inputs and proof
    statements determine.
  \<^item> \<open>Replicas\<close>: calls of \<open>Verifier::verify\<close> on many replicas over one store, as the step relation
    \<open>replica_step\<close>. A call is two actions, the check of the proof and one \<open>insert_if_absent\<close>; a replica may
    crash between any two of its steps.
  \<^item> \<open>Sealed\<close>: what follows when a proof is bound to its statement. \<open>Confinement\<close>: accessors, \<open>Debug\<close> and \<open>Drop\<close>.
  \<^item> \<open>Transport\<close>, \<open>Scenarios\<close>, \<open>Policies\<close>, \<open>UnitTests\<close>, \<open>Mutations\<close>, \<open>Vectors\<close>: the tests of all modules as programs,
    in the option monad (an assertion that fails is a panic), and what they rely on: artifacts that survive
    their encoding.
  \<^item> \<open>Example\<close> (\<open>examples/scoped_rate_limit.rs\<close>) and \<open>Fuzz\<close> (\<open>fuzz/fuzz_targets\<close>): the programs that put
    the operations together.

  \<^bold>\<open>State and effects.\<close> An operation on \<open>&mut self\<close> takes the state and returns it updated; the caller's
  random generator is threaded through every operation that draws from it; a panic is \<open>None\<close> and an \<open>Err\<close>
  is \<open>Inl\<close>. Names are those of the source, with the prefix of the struct for a field.

  \<^bold>\<open>Other crates.\<close> \<open>mayo\<close>, \<open>voleith\<close>, \<open>sha3\<close>, \<open>binary-fields\<close> and the random generator are fields of the
  parameter records \<open>gf16_ops\<close>, \<open>suite\<close>, \<open>deps\<close> and \<open>backend\<close>. What the properties need of them are the
  predicates of \<open>Laws\<close>, hypotheses wherever they are used: nibbles of field elements, canonical encodings of
  keys and proofs, \<open>spre\<close> returning preimages, the compact system of a key agreeing with its function. The
  proof system is idealised: a proof that verifies has a witness (\<open>proof_sound\<close>), and a satisfied circuit has
  a proof that verifies (\<open>proof_complete\<close>). Where an artifact is moved to another statement, \<open>proof_binding\<close> says
  that a proof verifies for its own statement only (the statement is hashed into its challenges). The
  tests also need artifacts of ordinary size (\<open>transport_laws\<close>), preimage sampling that succeeds
  (\<open>signing_succeeds\<close>), a prover that checks its witness (\<open>prover_checks\<close>) and, where the native hash is compared
  with the crate \<open>sha3\<close>, that the latter is FIPS 202 (\<open>xof_is_fips202\<close>); \<open>Drop\<close> needs \<open>zeroize_laws\<close>. That proofs
  cannot be altered, or authenticators forged, is never assumed: in \<open>Mutations\<close> such an event is the
  alternative of the conclusion. Everywhere else only the length of the hash's output is assumed: where
  collisions matter they are an alternative of the conclusion, or excluded for the tags in question (the
  property that a budget can be used up needs distinct tags). \<open>demo_deps\<close> and \<open>sealed_deps\<close> are instances of the
  laws, with the code's own SHAKE256, on which every property with a hypothesis is evaluated once.

  \<^bold>\<open>What is shown.\<close>
  \<^item> The rate limit, from the circuit up to any run of a verifier over any store that keeps its contract; that
    accepted tags are distinct; that a client reaches exactly its budget; that a rolled-back credential is
    refused. Replicas in any interleaving are one verifier, accept nothing twice, keep the limit together, and
    each call ends after its own steps.
  \<^item> A request is good for one issuer and credential context, a presentation for one challenge and tag.
  \<^item> What the two circuits accept, both ways, and that their degree is 16.
  \<^item> The client as a budget: \<open>present\<close> refines raising one counter, keeps the invariant of a credential, fails
    in four cases that leave everything unchanged, and over whole runs shows each counter once.
  \<^item> That honest issuance and presentation succeed, the example program included, and what an issuer and a
    client learn from what they accept.
  \<^item> The hash against its standard, the tables against their generators, the circuit's round against the
    native one, the comparison gadget.
  \<^item> The encodings: exact inverses on their valid values, canonical, disjoint and prefix-free, in bounds; that
    the buffers which hold secrets never grow, and that the encoder of a credential does outgrow its
    reservation.
  \<^item> What statements and hash inputs bind, up to collisions. The fuzz targets never panic. The tests pass for
    every seed, up to named coincidences of hashes; two implementations of the other crates that pass the test vectors wrote the same artifacts.
  \<^item> What \<open>Drop\<close> leaves in the memory of an object does not depend on the secrets it held.

  \<^bold>\<open>Bounds.\<close> Every loop of the source is bounded and is structural recursion or a fold here: 24 rounds, six
  checkpoints of four rounds and 1600 bits each, 32 carries, at most 4096 counters. Nothing needs fuel. The
  circuits hash one block, so their properties ask that the salted commitment of the parameter set fit 135
  bytes (\<open>one_block\<close>), which \<open>presentation_build\<close> checks too. An input of a decoder is at most 32 MiB, so
  offsets stay far below the range of \<open>usize\<close>, taken as 64 bits.

  \<^bold>\<open>Not modelled.\<close> The benchmarks, which measure time; module declarations; zeroization of local buffers and
  of copies, and constant-time comparison, which have no result of their own; the quadratic forms
  inside \<open>mayo\<close> (with \<open>MayoQuadForms\<close>, which forwards to them) and the proof system inside \<open>voleith\<close>, which
  are other crates, and with them the bytes of the test vectors; privacy and unlinkability, which are not
  properties of one execution.
\<close>

end
